(* ===== verification/Prelude.thy ===== *)
theory Prelude
  imports Main "HOL-Library.Word"
begin

text \<open>
  The shared vocabulary of the development: the machine types of the C++ sources, results that
  may carry an error (\<open>Result<T>\<close> of \<open>category/core/result.hpp\<close>), big-endian byte strings, and the
  generic lemmas on lists, sums and words that the component theories use.

  \<^item> \<open>u8\<close>, \<open>u32\<close>, \<open>u64\<close>, \<open>u256\<close> are the fixed-width unsigned integers; their \<open>+\<close>, \<open>-\<close> and \<open>*\<close>
    wrap around, as the C++ operators do.
  \<^item> \<open>address\<close> is the 20 byte \<open>Address\<close> read as a big-endian number, \<open>bytes32\<close> the 32 byte
    \<open>bytes32_t\<close> read the same way; \<open>bytes\<close> is a \<open>byte_string\<close> or a \<open>byte_string_view\<close>.
  \<^item> \<open>tryR\<close> is \<open>BOOST_OUTCOME_TRY\<close>: the error of its first argument is returned at once.
\<close>

unbundle bit_operations_syntax

type_synonym u8 = "8 word"
type_synonym u32 = "32 word"
type_synonym u64 = "64 word"
type_synonym u128 = "128 word"
type_synonym u256 = "256 word"
type_synonym address = "160 word"
type_synonym bytes32 = "256 word"
type_synonym bytes = "u8 list"

named_theorems storage_simps \<open>reading storage variables after writes\<close>
named_theorems be_simps \<open>big-endian byte strings\<close>
named_theorems try_simps \<open>results that carry an error\<close>

section \<open>Results\<close>

definition tryR :: "'e + 'a \<Rightarrow> ('a \<Rightarrow> 'e + 'b) \<Rightarrow> 'e + 'b" where
  "tryR r k = (case r of Inl e \<Rightarrow> Inl e | Inr x \<Rightarrow> k x)"

lemma tryR_Inl [simp]: "tryR (Inl e) k = Inl e"
  by (simp add: tryR_def)

lemma tryR_Inr [simp]: "tryR (Inr x) k = k x"
  by (simp add: tryR_def)

lemma tryR_eq_Inr [try_simps]: "tryR r k = Inr y \<longleftrightarrow> (\<exists>x. r = Inr x \<and> k x = Inr y)"
  by (cases r) auto

lemma tryR_eq_Inl [try_simps]:
  "tryR r k = Inl e \<longleftrightarrow> r = Inl e \<or> (\<exists>x. r = Inr x \<and> k x = Inl e)"
  by (cases r) auto

lemma tryR_InrE:
  assumes "tryR r k = Inr y"
  obtains x where "r = Inr x" and "k x = Inr y"
  using assms by (auto simp: tryR_eq_Inr)

definition requireR :: "bool \<Rightarrow> 'e \<Rightarrow> 'e + 'a \<Rightarrow> 'e + 'a" where
  "requireR ok e r = (if ok then r else Inl e)"

lemma requireR_eq_Inr [try_simps]: "requireR ok e r = Inr y \<longleftrightarrow> ok \<and> r = Inr y"
  by (simp add: requireR_def)

lemma requireR_True [simp]: "requireR True e r = r"
  by (simp add: requireR_def)

lemma requireR_False [simp]: "requireR False e r = Inl e"
  by (simp add: requireR_def)

section \<open>Words\<close>

lemma unat_u64_less: "unat (w :: u64) < 2 ^ 64"
  using unsigned_less [of w] by simp

lemma unat_u256_less: "unat (x :: u256) < 2 ^ 256"
  using unsigned_less [of x] by simp

lemma unat_ucast_u64_u256 [simp]: "unat (ucast (x :: u64) :: u256) = unat x"
  using unat_u64_less [of x] by (simp add: unsigned_ucast_eq take_bit_nat_eq_self)

section \<open>Big-endian byte strings\<close>

fun to_be :: "nat \<Rightarrow> nat \<Rightarrow> bytes" where
  "to_be 0 x = []"
| "to_be (Suc n) x = to_be n (x div 256) @ [word_of_nat x]"

fun of_be_acc :: "nat \<Rightarrow> bytes \<Rightarrow> nat" where
  "of_be_acc a [] = a"
| "of_be_acc a (b # bs) = of_be_acc (a * 256 + unat b) bs"

definition of_be :: "bytes \<Rightarrow> nat" where
  "of_be bs = of_be_acc 0 bs"

lemma length_to_be [simp, be_simps]: "length (to_be n x) = n"
  by (induction n arbitrary: x) auto

lemma of_be_acc_append: "of_be_acc a (bs @ cs) = of_be_acc (of_be_acc a bs) cs"
  by (induction bs arbitrary: a) auto

lemma of_be_Nil [simp, be_simps]: "of_be [] = 0"
  by (simp add: of_be_def)

lemma of_be_snoc [simp, be_simps]: "of_be (bs @ [b]) = of_be bs * 256 + unat b"
  by (simp add: of_be_def of_be_acc_append)

lemma of_be_append [be_simps]: "of_be (bs @ cs) = of_be bs * 256 ^ length cs + of_be cs"
proof (induction cs rule: rev_induct)
  case Nil
  then show ?case by simp
next
  case (snoc c cs)
  have "of_be (bs @ cs @ [c]) = of_be (bs @ cs) * 256 + unat c"
    using of_be_snoc [of "bs @ cs" c] by simp
  with snoc show ?case by (simp add: algebra_simps)
qed

lemma unat_u8_of_nat [simp]: "unat (word_of_nat x :: u8) = x mod 256"
  by (simp add: unat_of_nat)

lemma of_be_to_be [simp, be_simps]: "of_be (to_be n x) = x mod 256 ^ n"
proof (induction n arbitrary: x)
  case 0
  then show ?case by simp
next
  case (Suc n)
  have "of_be (to_be (Suc n) x) = x div 256 mod 256 ^ n * 256 + x mod 256"
    using Suc by simp
  also have "\<dots> = x mod 256 ^ Suc n"
    using mod_mult2_eq [of x 256 "256 ^ n"] by simp
  finally show ?case .
qed

lemma of_be_less: "of_be bs < 256 ^ length bs"
proof (induction bs rule: rev_induct)
  case Nil
  then show ?case by simp
next
  case (snoc b bs)
  have "unat b < 256"
    using unsigned_less [of b] by simp
  moreover from snoc have "of_be bs + 1 \<le> 256 ^ length bs"
    by simp
  then have "(of_be bs + 1) * 256 \<le> 256 ^ length bs * 256"
    by (rule mult_le_mono1)
  ultimately show ?case by simp
qed

lemma to_be_of_be_length: "length bs = n \<Longrightarrow> to_be n (of_be bs) = bs"
proof (induction bs arbitrary: n rule: rev_induct)
  case Nil
  then show ?case by simp
next
  case (snoc b bs)
  have b: "unat b < 256"
    using unsigned_less [of b] by simp
  then have "(of_be bs * 256 + unat b) div 256 = of_be bs"
    by simp
  moreover have "(word_of_nat (of_be bs * 256 + unat b) :: u8) = b"
    unfolding word_unat_eq_iff unat_u8_of_nat using b by simp
  ultimately show ?case
    using snoc by (cases n) simp_all
qed

lemma of_be_inject:
  assumes "length bs = length cs" and "of_be bs = of_be cs"
  shows "bs = cs"
  by (metis assms to_be_of_be_length)

lemma of_be_replicate_0 [simp, be_simps]: "of_be (replicate n 0) = 0"
proof (induction n)
  case (Suc n)
  then show ?case
    using of_be_snoc [of "replicate n 0" 0] by (simp add: replicate_append_same)
qed simp

lemma to_be_0 [simp, be_simps]: "to_be n 0 = replicate n 0"
  by (rule of_be_inject) simp_all

definition word_bytes :: "'a::len word \<Rightarrow> bytes" where
  "word_bytes w = to_be (LENGTH('a) div 8) (unat w)"

definition bytes_word :: "bytes \<Rightarrow> 'a::len word" where
  "bytes_word bs = word_of_nat (of_be bs)"

lemma length_word_bytes [simp, be_simps]:
  "length (word_bytes (w :: 'a::len word)) = LENGTH('a) div 8"
  by (simp add: word_bytes_def)

lemma power_256: "256 ^ n = (2::nat) ^ (8 * n)"
  by (simp add: power_mult)

lemma bytes_word_word_bytes:
  assumes "8 dvd LENGTH('a)"
  shows "bytes_word (word_bytes (w :: 'a::len word)) = w"
proof -
  have "unat w < 2 ^ LENGTH('a)"
    by (rule unsigned_less)
  moreover have "256 ^ (LENGTH('a) div 8) = (2::nat) ^ LENGTH('a)"
    using assms by (simp add: power_256)
  ultimately show ?thesis
    by (simp add: bytes_word_def word_bytes_def)
qed

lemma of_be_word_bytes:
  assumes "8 dvd LENGTH('a)"
  shows "of_be (word_bytes (w :: 'a::len word)) = unat w"
proof -
  have "unat w < 2 ^ LENGTH('a)" by (rule unsigned_less)
  with assms show ?thesis by (simp add: word_bytes_def power_256)
qed

lemma word_bytes_bytes_word:
  assumes "8 * length bs = LENGTH('a)"
  shows "word_bytes (bytes_word bs :: 'a::len word) = bs"
proof -
  have l: "LENGTH('a) div 8 = length bs"
    using assms by simp
  have "of_be bs < 2 ^ LENGTH('a)"
    using of_be_less [of bs] assms by (simp add: power_256)
  then have "unat (word_of_nat (of_be bs) :: 'a word) = of_be bs"
    by (simp add: unat_of_nat)
  then show ?thesis
    by (simp add: word_bytes_def bytes_word_def l to_be_of_be_length)
qed

lemma bytes_word_zero [simp, be_simps]: "bytes_word (replicate n 0) = 0"
  by (simp add: bytes_word_def)

lemma word_bytes_zero [simp, be_simps]:
  "word_bytes (0 :: 'a::len word) = replicate (LENGTH('a) div 8) 0"
  by (simp add: word_bytes_def)

lemmas bytes_word_inverse [simp, be_simps] =
  bytes_word_word_bytes [where 'a = 8, simplified]
  bytes_word_word_bytes [where 'a = 32, simplified]
  bytes_word_word_bytes [where 'a = 64, simplified]
  bytes_word_word_bytes [where 'a = 160, simplified]
  bytes_word_word_bytes [where 'a = 256, simplified]

section \<open>Sums over finite types\<close>

lemma sum_fun_upd:
  fixes f :: "'k::finite \<Rightarrow> nat"
  shows "(\<Sum>x\<in>UNIV. (f(k := v)) x) + f k = (\<Sum>x\<in>UNIV. f x) + v"
proof -
  have "(\<Sum>x\<in>UNIV. (f(k := v)) x) = v + (\<Sum>x\<in>UNIV - {k}. (f(k := v)) x)"
    by (simp add: sum.remove [of UNIV k])
  moreover have "(\<Sum>x\<in>UNIV - {k}. (f(k := v)) x) = (\<Sum>x\<in>UNIV - {k}. f x)"
    by (rule sum.cong) auto
  moreover have "(\<Sum>x\<in>UNIV. f x) = f k + (\<Sum>x\<in>UNIV - {k}. f x)"
    by (simp add: sum.remove [of UNIV k])
  ultimately show ?thesis by simp
qed

lemma sum_member_le:
  fixes f :: "'k::finite \<Rightarrow> nat"
  shows "f k \<le> (\<Sum>x\<in>UNIV. f x)"
  by (rule member_le_sum) auto

end
