(* ===== verification/Errors.thy ===== *)
theory Errors
  imports Prelude
begin

text \<open>
  The error codes. \<open>Result<T>\<close> carries a type-erased status code, so the model has one type \<open>error\<close>
  whose constructors are the enumerations of the source, without their code for success; \<open>Thrown\<close> is
  the exception of \<open>MONAD_ASSERT_THROW\<close> with its message and \<open>Aborted\<close> a failed \<open>MONAD_ASSERT\<close>.
\<close>

datatype MathError = Overflow | Underflow | DivisionByZero

datatype AbiDecodeError = InputTooShort | LengthMismatch

datatype StakingError =
    InternalError
  | MethodNotSupported
  | InvalidInput
  | ValidatorExists
  | UnknownValidator
  | UnknownDelegator
  | WithdrawalIdExists
  | UnknownWithdrawalId
  | WithdrawalNotReady
  | InsufficientStake
  | InvalidSecpPubkey
  | InvalidBlsPubkey
  | InvalidSecpSignature
  | InvalidBlsSignature
  | SecpSignatureVerificationFailed
  | BlsSignatureVerificationFailed
  | NotInValidatorSet
  | SolvencyError
  | SnapshotInBoundary
  | InvalidEpochChange
  | RequiresAuthAddress
  | CommissionTooHigh
  | ValueNonZero
  | DelegationTooSmall
  | ExternalRewardTooSmall
  | ExternalRewardTooLarge

datatype DecodeError =
    TypeUnexpected
  | Decode_Overflow
  | InputTooLong
  | Decode_InputTooShort
  | ArrayLengthUnexpected
  | InvalidTxnType
  | LeadingZero
  | PathTooShort
  | PathTooLong

datatype TransactionError =
    InsufficientBalance
  | IntrinsicGasGreaterThanLimit
  | BadNonce
  | SenderNotEoa
  | TypeNotSupported
  | MaxFeeLessThanBase
  | PriorityFeeGreaterThanMax
  | NonceExceedsMax
  | InitCodeLimitExceeded
  | GasLimitReached
  | WrongChainId
  | MissingSender
  | GasLimitOverflow
  | InvalidSignature
  | InvalidBlobHash
  | EmptyAuthorizationList

datatype MonadTransactionError =
    InsufficientBalanceForFee
  | SystemTransactionSenderIsAuthority

datatype SystemTransactionError =
    SystemTxnBeforeFork
  | GasNonZero
  | TypeNotLegacy
  | BadSender
  | MissingTo
  | InvalidSystemContract
  | NonEmptyAuthorizationList

datatype BlockError =
    GasAboveLimit
  | InvalidGasLimit
  | ExtraDataTooLong
  | WrongOmmersHash
  | WrongParentHash
  | FieldBeforeFork
  | MissingField
  | PowBlockAfterMerge
  | InvalidNonce
  | TooManyOmmers
  | DuplicateOmmers
  | InvalidOmmerHeader
  | WrongLogsBloom
  | InvalidGasUsed
  | WrongMerkleRoot
  | SystemCallMissingCode
  | SystemCallFailed
  | InvalidRequestsHash
  | InvalidDepositLog

datatype MonadBlockError =
    TimestampMismatch
  | BaseFeeMismatch
  | SystemTransactionNotFirstInBlock
  | SystemTransactionOutOfOrder
  | DuplicateSystemTransaction
  | UnknownSystemTransaction
  | InvalidRewardValue

datatype error =
    MathE MathError
  | AbiE AbiDecodeError
  | StakingE StakingError
  | DecodeE DecodeError
  | TransactionE TransactionError
  | MonadTransactionE MonadTransactionError
  | SystemTransactionE SystemTransactionError
  | BlockE BlockError
  | MonadBlockE MonadBlockError
  | Thrown string
  | Aborted

type_synonym 'a result = "error + 'a"

text \<open>The text that \<open>value_mappings\<close> attaches to a code; it is what a reverted call returns.\<close>

fun math_message :: "MathError \<Rightarrow> string" where
  "math_message Overflow = ''overflow''"
| "math_message Underflow = ''underflow''"
| "math_message DivisionByZero = ''division by zero''"

fun abi_message :: "AbiDecodeError \<Rightarrow> string" where
  "abi_message InputTooShort = ''input too short''"
| "abi_message LengthMismatch = ''length mismatch''"

fun staking_message :: "StakingError \<Rightarrow> string" where
  "staking_message InternalError = ''internal error''"
| "staking_message MethodNotSupported = ''method not supported''"
| "staking_message InvalidInput = ''invalid input''"
| "staking_message ValidatorExists = ''validator exists''"
| "staking_message UnknownValidator = ''unknown validator''"
| "staking_message UnknownDelegator = ''unknown delegator''"
| "staking_message WithdrawalIdExists = ''withdrawal id exists''"
| "staking_message UnknownWithdrawalId = ''unknown withdrawal id''"
| "staking_message WithdrawalNotReady = ''withdrawal not ready''"
| "staking_message InsufficientStake = ''insufficient stake''"
| "staking_message InvalidSecpPubkey = ''invalid secp pubkey''"
| "staking_message InvalidBlsPubkey = ''invalid bls pubkey''"
| "staking_message InvalidSecpSignature = ''invalid secp signature''"
| "staking_message InvalidBlsSignature = ''invalid bls signature''"
| "staking_message SecpSignatureVerificationFailed = ''secp signature verification failed''"
| "staking_message BlsSignatureVerificationFailed = ''bls signature verification failed''"
| "staking_message NotInValidatorSet = ''not in validator set''"
| "staking_message SolvencyError = ''solvency error''"
| "staking_message SnapshotInBoundary = ''called snapshot while in boundary''"
| "staking_message InvalidEpochChange = ''invalid epoch change''"
| "staking_message RequiresAuthAddress = ''requires auth address''"
| "staking_message CommissionTooHigh = ''commission too high''"
| "staking_message ValueNonZero = ''value is nonzero''"
| "staking_message DelegationTooSmall = ''delegation is too small''"
| "staking_message ExternalRewardTooSmall = ''external reward too small''"
| "staking_message ExternalRewardTooLarge = ''external reward too large''"

fun decode_message :: "DecodeError \<Rightarrow> string" where
  "decode_message TypeUnexpected = ''type unexpected''"
| "decode_message Decode_Overflow = ''overflow''"
| "decode_message InputTooLong = ''input too long''"
| "decode_message Decode_InputTooShort = ''input too short''"
| "decode_message ArrayLengthUnexpected = ''array length unexpected''"
| "decode_message InvalidTxnType = ''invalid txn type''"
| "decode_message LeadingZero = ''leading zero''"
| "decode_message PathTooShort = ''path too short''"
| "decode_message PathTooLong = ''path too long''"

fun transaction_message :: "TransactionError \<Rightarrow> string" where
  "transaction_message InsufficientBalance = ''insufficient balance''"
| "transaction_message IntrinsicGasGreaterThanLimit = ''intrinsic gas greater than limit''"
| "transaction_message BadNonce = ''bad nonce''"
| "transaction_message SenderNotEoa = ''sender not eoa''"
| "transaction_message TypeNotSupported = ''type not supported''"
| "transaction_message MaxFeeLessThanBase = ''max fee less than base''"
| "transaction_message PriorityFeeGreaterThanMax = ''priority fee greater than max''"
| "transaction_message NonceExceedsMax = ''nonce exceeds max''"
| "transaction_message InitCodeLimitExceeded = ''init code limit exceeded''"
| "transaction_message GasLimitReached = ''gas limit reached''"
| "transaction_message WrongChainId = ''wrong chain id''"
| "transaction_message MissingSender = ''missing sender''"
| "transaction_message GasLimitOverflow = ''gas limit overflow''"
| "transaction_message InvalidSignature = ''invalid signature''"
| "transaction_message InvalidBlobHash = ''invalid blob hash''"
| "transaction_message EmptyAuthorizationList = ''empty authorization list''"

fun monad_transaction_message :: "MonadTransactionError \<Rightarrow> string" where
  "monad_transaction_message InsufficientBalanceForFee = ''insufficient balance for fee''"
| "monad_transaction_message SystemTransactionSenderIsAuthority = ''system transaction sender is authority''"

fun system_transaction_message :: "SystemTransactionError \<Rightarrow> string" where
  "system_transaction_message SystemTxnBeforeFork = ''system transaction before fork''"
| "system_transaction_message GasNonZero = ''gas non zero''"
| "system_transaction_message TypeNotLegacy = ''type not legacy''"
| "system_transaction_message BadSender = ''bad sender''"
| "system_transaction_message MissingTo = ''missing to''"
| "system_transaction_message InvalidSystemContract = ''invalid system contract''"
| "system_transaction_message NonEmptyAuthorizationList = ''non empty authorization list''"

fun block_message :: "BlockError \<Rightarrow> string" where
  "block_message GasAboveLimit = ''gas above limit''"
| "block_message InvalidGasLimit = ''invalid gas limit''"
| "block_message ExtraDataTooLong = ''extra data too long''"
| "block_message WrongOmmersHash = ''wrong ommers hash''"
| "block_message WrongParentHash = ''wrong parent hash''"
| "block_message FieldBeforeFork = ''field before fork''"
| "block_message MissingField = ''missing field''"
| "block_message PowBlockAfterMerge = ''pow block after merge''"
| "block_message InvalidNonce = ''invalid nonce''"
| "block_message TooManyOmmers = ''too many ommers''"
| "block_message DuplicateOmmers = ''duplicate ommers''"
| "block_message InvalidOmmerHeader = ''invalid ommer header''"
| "block_message WrongLogsBloom = ''wrong logs bloom''"
| "block_message InvalidGasUsed = ''invalid gas used''"
| "block_message WrongMerkleRoot = ''wrong merkle root''"
| "block_message SystemCallMissingCode = ''system call target has no code''"
| "block_message SystemCallFailed = ''system call failed''"
| "block_message InvalidRequestsHash = ''invalid requests hash''"
| "block_message InvalidDepositLog = ''invalid deposit log''"

fun monad_block_message :: "MonadBlockError \<Rightarrow> string" where
  "monad_block_message TimestampMismatch = ''timestamp mismatch''"
| "monad_block_message BaseFeeMismatch = ''base fee mismatch''"
| "monad_block_message SystemTransactionNotFirstInBlock = ''system transaction not first in block''"
| "monad_block_message SystemTransactionOutOfOrder = ''system transaction out of order''"
| "monad_block_message DuplicateSystemTransaction = ''duplicate system transaction''"
| "monad_block_message UnknownSystemTransaction = ''unknown system transaction''"
| "monad_block_message InvalidRewardValue = ''invalid reward value''"

text \<open>An exception and an abort have no status code.\<close>

fun error_message :: "error \<Rightarrow> string option" where
  "error_message (MathE e) = Some (math_message e)"
| "error_message (AbiE e) = Some (abi_message e)"
| "error_message (StakingE e) = Some (staking_message e)"
| "error_message (DecodeE e) = Some (decode_message e)"
| "error_message (TransactionE e) = Some (transaction_message e)"
| "error_message (MonadTransactionE e) = Some (monad_transaction_message e)"
| "error_message (SystemTransactionE e) = Some (system_transaction_message e)"
| "error_message (BlockE e) = Some (block_message e)"
| "error_message (MonadBlockE e) = Some (monad_block_message e)"
| "error_message (Thrown m) = None"
| "error_message Aborted = None"

end
