(* ===== verification/Storage.thy ===== *)
theory Storage
  imports Errors
begin

text \<open>
  Contract storage: \<open>storage_variable.hpp\<close> and \<open>storage_array.hpp\<close> of
  \<open>category/execution/ethereum/core/contract\<close>. The storage of one account is a function from slot
  keys to slot values, with 0 for a slot that was never written. A \<open>StorageVariable<T>\<close> spreads the
  bytes of a \<open>T\<close> over \<open>N\<close> consecutive slots; the \<open>codec\<close> of \<open>T\<close> is its object representation.

  The locale \<open>storable\<close> is what a variable's user relies on: the object representation has a fixed
  size and can be read back. Under it, a load after a store gives the value stored, and a store
  leaves every variable on other slots alone.
\<close>

type_synonym storage = "u256 \<Rightarrow> bytes32"

record 'a codec =
  c_size :: nat
  c_enc :: "'a \<Rightarrow> bytes"
  c_dec :: "bytes \<Rightarrow> 'a"

section \<open>Storage variables\<close>

definition sv_slots :: "'a codec \<Rightarrow> nat" where
  "sv_slots c = (c_size c + 32 - 1) div 32"

definition to_slots :: "'a codec \<Rightarrow> 'a \<Rightarrow> bytes32 list" where
  "to_slots c t =
     (let bs = c_enc c t @ replicate (32 * sv_slots c - c_size c) 0
      in map (\<lambda>i. bytes_word (take 32 (drop (32 * i) bs))) [0..<sv_slots c])"

definition from_slots :: "'a codec \<Rightarrow> bytes32 list \<Rightarrow> 'a" where
  "from_slots c slots = c_dec c (take (c_size c) (concat (map word_bytes slots)))"

fun store_slots :: "u256 \<Rightarrow> bytes32 list \<Rightarrow> storage \<Rightarrow> storage" where
  "store_slots off [] s = s"
| "store_slots off (w # ws) s = store_slots (off + 1) ws (s(off := w))"

definition load_slots :: "'a codec \<Rightarrow> u256 \<Rightarrow> storage \<Rightarrow> bytes32 list" where
  "load_slots c off s = map (\<lambda>i. s (off + word_of_nat i)) [0..<sv_slots c]"

definition sv_load :: "'a codec \<Rightarrow> u256 \<Rightarrow> storage \<Rightarrow> 'a" where
  "sv_load c off s = from_slots c (load_slots c off s)"

definition sv_load_checked :: "'a codec \<Rightarrow> u256 \<Rightarrow> storage \<Rightarrow> 'a option" where
  "sv_load_checked c off s =
     (let slots = load_slots c off s;
          has_data = list_ex (\<lambda>w. w \<noteq> 0) slots
      in if has_data then Some (from_slots c slots) else None)"

definition sv_store :: "'a codec \<Rightarrow> u256 \<Rightarrow> 'a \<Rightarrow> storage \<Rightarrow> storage" where
  "sv_store c off v s = store_slots off (to_slots c v) s"

definition sv_clear :: "'a codec \<Rightarrow> u256 \<Rightarrow> storage \<Rightarrow> storage" where
  "sv_clear c off s = store_slots off (replicate (sv_slots c) 0) s"

section \<open>Slots\<close>

lemma length_to_slots [simp]: "length (to_slots c v) = sv_slots c"
  by (simp add: to_slots_def Let_def)

lemma store_slots_other:
  "\<forall>i < length ws. k \<noteq> off + word_of_nat i \<Longrightarrow> store_slots off ws s k = s k"
proof (induction ws arbitrary: off s)
  case (Cons w ws)
  have "k \<noteq> off"
    using Cons.prems by force
  moreover have "k \<noteq> off + 1 + word_of_nat i" if "i < length ws" for i
    using Cons.prems [THEN spec, of "Suc i"] that by (simp add: ac_simps)
  ultimately show ?case
    by (simp add: Cons.IH)
qed simp

lemma word_of_nat_u256_inject:
  "i < 2 ^ 256 \<Longrightarrow> j < 2 ^ 256 \<Longrightarrow> (word_of_nat i = (word_of_nat j :: u256)) \<longleftrightarrow> i = j"
  by (auto simp: word_unat_eq_iff unat_of_nat)

lemma store_slots_at:
  assumes "i < length ws" and "length ws < 2 ^ 256"
  shows "store_slots off ws s (off + word_of_nat i) = ws ! i"
  using assms
proof (induction ws arbitrary: off s i)
  case Nil
  then show ?case by simp
next
  case (Cons w ws)
  show ?case
  proof (cases i)
    case 0
    have "off \<noteq> off + 1 + word_of_nat j" if "j < length ws" for j
      using that Cons.prems word_of_nat_u256_inject [of "Suc j" 0] by (simp add: ac_simps)
    then show ?thesis
      using 0 by (simp add: store_slots_other)
  next
    case (Suc j)
    with Cons.prems have "store_slots (off + 1) ws (s(off := w)) (off + 1 + word_of_nat j) = ws ! j"
      by (intro Cons.IH) simp_all
    with Suc show ?thesis
      by (simp add: ac_simps)
  qed
qed

lemma load_slots_store_slots:
  assumes "length ws = sv_slots c" and "sv_slots c < 2 ^ 256"
  shows "load_slots c off (store_slots off ws s) = ws"
  using assms by (intro nth_equalityI) (simp_all add: load_slots_def store_slots_at)

definition slots_apart :: "u256 \<Rightarrow> nat \<Rightarrow> u256 \<Rightarrow> nat \<Rightarrow> bool" where
  "slots_apart p m q n \<longleftrightarrow> (\<forall>i < m. \<forall>j < n. p + word_of_nat i \<noteq> q + word_of_nat j)"

lemma load_slots_store_slots_apart:
  assumes "slots_apart p (sv_slots c) q (length ws)"
  shows "load_slots c p (store_slots q ws s) = load_slots c p s"
  using assms by (auto simp: load_slots_def slots_apart_def intro!: store_slots_other)

lemma concat_chunks:
  assumes "length bs = 32 * n"
  shows "concat (map (\<lambda>i. take 32 (drop (32 * i) bs)) [0..<n]) = bs"
  using assms
proof (induction n arbitrary: bs)
  case 0
  then show ?case by simp
next
  case (Suc n)
  have "concat (map (\<lambda>i. take 32 (drop (32 * i) (take (32 * n) bs))) [0..<n]) = take (32 * n) bs"
    using Suc by simp
  moreover have "map (\<lambda>i. take 32 (drop (32 * i) (take (32 * n) bs))) [0..<n] =
      map (\<lambda>i. take 32 (drop (32 * i) bs)) [0..<n]"
    by (rule map_cong) (auto simp: drop_take min_def)
  ultimately show ?case
    using Suc.prems by simp
qed

lemma concat_replicate_replicate: "concat (replicate n (replicate m x)) = replicate (m * n) x"
  by (induction n) (simp_all add: replicate_add)

lemma word_bytes_bytes32: "length bs = 32 \<Longrightarrow> word_bytes (bytes_word bs :: bytes32) = bs"
  by (rule word_bytes_bytes_word) simp

section \<open>Laws of storable types\<close>

locale storable =
  fixes c :: "'a codec"
  assumes enc_length: "length (c_enc c x) = c_size c"
    and dec_enc: "c_dec c (c_enc c x) = x"
    and size_small: "c_size c < 2 ^ 128"
begin

lemma slots_small: "sv_slots c < 2 ^ 256"
proof -
  have "c_size c + 32 - 1 < 2 ^ 256"
    using size_small by simp
  then show ?thesis
    unfolding sv_slots_def by (rule le_less_trans [OF div_le_dividend])
qed

lemma size_le_slots: "c_size c \<le> 32 * sv_slots c"
  by (simp add: sv_slots_def)

lemma concat_to_slots:
  "concat (map word_bytes (to_slots c v)) = c_enc c v @ replicate (32 * sv_slots c - c_size c) 0"
proof -
  define bs where "bs = c_enc c v @ replicate (32 * sv_slots c - c_size c) (0 :: u8)"
  have len: "length bs = 32 * sv_slots c"
    using size_le_slots by (simp add: bs_def enc_length)
  have "map word_bytes (to_slots c v) = map (\<lambda>i. take 32 (drop (32 * i) bs)) [0..<sv_slots c]"
    unfolding to_slots_def Let_def bs_def [symmetric] map_map comp_def
    by (rule map_cong) (use len in \<open>auto intro!: word_bytes_bytes32\<close>)
  then show ?thesis
    using concat_chunks [OF len] by (simp add: bs_def)
qed

lemma from_to_slots: "from_slots c (to_slots c v) = v"
  by (simp add: from_slots_def concat_to_slots enc_length dec_enc)

lemmas load_slots_stored = load_slots_store_slots [OF length_to_slots slots_small]

lemma load_store: "sv_load c off (sv_store c off v s) = v"
  by (simp add: sv_load_def sv_store_def load_slots_stored from_to_slots)

lemma enc_inject: "c_enc c x = c_enc c y \<longleftrightarrow> x = y"
  by (metis dec_enc)

end

text \<open>A type with a value of all zero bytes: what an unwritten variable holds. A checked load tells
  that value from every other one.\<close>

locale storable_zero = storable +
  fixes z :: 'a
  assumes enc_zero: "c_enc c z = replicate (c_size c) 0"
begin

lemma to_slots_zero_iff: "list_ex (\<lambda>w. w \<noteq> 0) (to_slots c v) \<longleftrightarrow> v \<noteq> z"
proof
  assume "list_ex (\<lambda>w. w \<noteq> 0) (to_slots c v)"
  moreover have "\<forall>w \<in> set (to_slots c z). w = 0"
    by (auto simp: to_slots_def Let_def enc_zero simp flip: replicate_add)
  ultimately show "v \<noteq> z"
    by (auto simp: list_ex_iff)
next
  assume "v \<noteq> z"
  show "list_ex (\<lambda>w. w \<noteq> 0) (to_slots c v)"
  proof (rule ccontr)
    assume "\<not> ?thesis"
    then have "map word_bytes (to_slots c v) = map (\<lambda>w. replicate 32 0) (to_slots c v)"
      by (auto simp: list_ex_iff)
    then have "concat (map word_bytes (to_slots c v)) = replicate (32 * sv_slots c) 0"
      by (simp add: map_replicate_const concat_replicate_replicate)
    then have "c_enc c v = take (c_size c) (replicate (32 * sv_slots c) 0)"
      by (metis append_eq_conv_conj concat_to_slots enc_length)
    then have "c_enc c v = c_enc c z"
      using size_le_slots by (simp add: enc_zero min_absorb1)
    with \<open>v \<noteq> z\<close> show False
      by (simp add: enc_inject)
  qed
qed

lemma to_slots_zero: "to_slots c z = replicate (sv_slots c) 0"
  using to_slots_zero_iff [of z] by (auto simp: list_ex_iff intro!: nth_equalityI)

lemma clear_store: "sv_clear c off s = sv_store c off z s"
  by (simp add: sv_clear_def sv_store_def to_slots_zero)

lemma load_clear: "sv_load c off (sv_clear c off s) = z"
  by (simp add: clear_store load_store)

lemma load_checked_store:
  "sv_load_checked c off (sv_store c off v s) = (if v = z then None else Some v)"
  using to_slots_zero_iff [of v]
  by (simp add: sv_load_checked_def sv_store_def load_slots_stored from_to_slots)

lemma load_checked_None: "sv_load_checked c off s = None \<Longrightarrow> sv_load c off s = z"
proof -
  assume "sv_load_checked c off s = None"
  then have "\<forall>w \<in> set (load_slots c off s). w = 0"
    by (auto simp: sv_load_checked_def Let_def list_ex_iff split: if_splits)
  then have "load_slots c off s = to_slots c z"
    by (auto simp: to_slots_zero load_slots_def intro!: nth_equalityI)
  then show ?thesis
    by (simp add: sv_load_def from_to_slots)
qed

lemma load_zero_storage: "sv_load c off (\<lambda>_. 0) = z"
proof -
  have "load_slots c off (\<lambda>_. 0) = to_slots c z"
    by (simp add: load_slots_def to_slots_zero map_replicate_const)
  then show ?thesis
    by (simp add: sv_load_def from_to_slots)
qed

end

section \<open>Object representations of the basic types\<close>

text \<open>\<open>BigEndian<T>\<close> (\<open>u8_be\<close>, \<open>u64_be\<close>, \<open>u256_be\<close>) and \<open>Address\<close> are their big-endian bytes; a
  \<open>bool\<close> is one byte.\<close>

definition word_codec :: "'a::len word codec" where
  "word_codec = \<lparr>c_size = LENGTH('a) div 8, c_enc = word_bytes, c_dec = bytes_word\<rparr>"

definition bool_codec :: "bool codec" where
  "bool_codec = \<lparr>c_size = 1, c_enc = (\<lambda>b. [of_bool b]), c_dec = (\<lambda>bs. bs \<noteq> [0])\<rparr>"

abbreviation u64_be :: "u64 codec" where
  "u64_be \<equiv> word_codec"

abbreviation u256_be :: "u256 codec" where
  "u256_be \<equiv> word_codec"

interpretation sv_u64: storable_zero "word_codec :: u64 codec" 0
  by unfold_locales (simp_all add: word_codec_def)

interpretation sv_u256: storable_zero "word_codec :: u256 codec" 0
  by unfold_locales (simp_all add: word_codec_def)

interpretation sv_bool: storable_zero bool_codec False
  by unfold_locales (auto simp: bool_codec_def)

lemma sv_slots_word [simp]: "sv_slots u64_be = 1" "sv_slots u256_be = 1" "sv_slots bool_codec = 1"
  by (simp_all add: sv_slots_def word_codec_def bool_codec_def)

section \<open>Storage arrays\<close>

definition sa_length :: "u256 \<Rightarrow> storage \<Rightarrow> u64" where
  "sa_length slot s = sv_load u64_be slot s"

definition sa_empty :: "u256 \<Rightarrow> storage \<Rightarrow> bool" where
  "sa_empty slot s \<longleftrightarrow> sa_length slot s = 0"

definition sa_get :: "'a codec \<Rightarrow> u256 \<Rightarrow> u64 \<Rightarrow> u256" where
  "sa_get c slot index = (slot + 1) + ucast (index * word_of_nat (sv_slots c))"

definition sa_push :: "'a codec \<Rightarrow> u256 \<Rightarrow> 'a \<Rightarrow> storage \<Rightarrow> storage" where
  "sa_push c slot v s =
     (let len = sa_length slot s;
          offset = (slot + 1) + ucast (len * word_of_nat (sv_slots c))
      in sv_store u64_be slot (len + 1) (sv_store c offset v s))"

definition sa_pop :: "'a codec \<Rightarrow> u256 \<Rightarrow> storage \<Rightarrow> ('a \<times> storage) result" where
  "sa_pop c slot s =
     (let len = sa_length slot s
      in if \<not> len > 0 then Inl Aborted
         else let len = len - 1;
                  var = sa_get c slot len;
                  v = sv_load c var s
              in Inr (v, sv_store u64_be slot len (sv_clear c var s)))"

definition sa_contents :: "'a codec \<Rightarrow> u256 \<Rightarrow> storage \<Rightarrow> 'a list" where
  "sa_contents c slot s =
     map (\<lambda>i. sv_load c (sa_get c slot (word_of_nat i)) s) [0..<unat (sa_length slot s)]"

text \<open>What the clients of an array rely on.\<close>

locale array_contract =
  fixes contents :: "'s \<Rightarrow> 'a list"
    and len :: "'s \<Rightarrow> u64"
    and get :: "u64 \<Rightarrow> 's \<Rightarrow> 'a"
    and push :: "'a \<Rightarrow> 's \<Rightarrow> 's"
    and pop :: "'s \<Rightarrow> ('a \<times> 's) result"
  assumes len_contents: "unat (len s) = length (contents s)"
    and get_contents: "i < length (contents s) \<Longrightarrow> get (word_of_nat i) s = contents s ! i"
    and push_contents: "length (contents s) < 2 ^ 64 - 1 \<Longrightarrow> contents (push v s) = contents s @ [v]"
    and pop_contents: "contents s \<noteq> [] \<Longrightarrow>
      \<exists>s'. pop s = Inr (last (contents s), s') \<and> contents s' = butlast (contents s)"
    and pop_empty: "contents s = [] \<Longrightarrow> pop s = Inl Aborted"
begin

lemma pop_push:
  assumes "length (contents s) < 2 ^ 64 - 1"
  shows "\<exists>s'. pop (push v s) = Inr (v, s') \<and> contents s' = contents s"
  using pop_contents [of "push v s"] push_contents [OF assms, of v] by simp

lemma map_contents: "map (\<lambda>i. f (get (word_of_nat i) s)) [0..<unat (len s)] = map f (contents s)"
  by (rule nth_equalityI) (simp_all add: len_contents get_contents)

lemma len_zero_iff: "len s = 0 \<longleftrightarrow> contents s = []"
  using len_contents [of s] by (metis length_0_conv unat_eq_zero)

lemma pop_fails_iff: "pop s = Inl e \<longleftrightarrow> contents s = [] \<and> e = Aborted"
  using pop_contents [of s] pop_empty [of s] by (cases "contents s = []") auto

end

text \<open>An array of single-slot elements keeps the contract: neither its length slot nor its elements
  overlap, for every 64-bit index.\<close>

locale single_slot = storable_zero +
  assumes one_slot: "sv_slots c = 1"
begin

lemma get_offset: "sa_get c slot i = slot + 1 + ucast i"
  by (simp add: sa_get_def one_slot)

lemma ucast_u64_inject: "(ucast (i :: u64) = (ucast j :: u256)) \<longleftrightarrow> i = j"
  by (simp add: word_unat_eq_iff)

lemma offset_not_base: "slot + 1 + ucast (i :: u64) \<noteq> (slot :: u256)"
proof
  assume "slot + 1 + ucast i = slot"
  then have "1 + ucast i = (0 :: u256)"
    by (simp add: add.assoc)
  then have "unat (1 + ucast i :: u256) = 0"
    by simp
  then show False
    using unat_u64_less [of i] by (simp add: unat_word_ariths)
qed

lemma apart_one: "p \<noteq> q \<Longrightarrow> slots_apart p 1 q 1"
  by (simp add: slots_apart_def)

lemma load_other:
  assumes "p \<noteq> q" and "sv_slots d = 1" and "sv_slots e = 1"
  shows "sv_load d p (sv_store e q w s) = sv_load d p s"
  using assms load_slots_store_slots_apart [of p d q "to_slots e w" s] apart_one [of p q]
  by (simp add: sv_load_def sv_store_def)

lemmas array_frames = load_other [OF _ one_slot one_slot]
  load_other [OF _ one_slot sv_slots_word(1)] load_other [OF _ sv_slots_word(1) one_slot]

lemma length_push: "sa_length slot (sa_push c slot v s) = sa_length slot s + 1"
  by (simp add: sa_length_def sa_push_def Let_def sv_u64.load_store)

lemma elem_push:
  "sv_load c (slot + 1 + ucast i) (sa_push c slot v s) =
   (if i = sa_length slot s then v else sv_load c (slot + 1 + ucast i) s)"
  using offset_not_base [of slot i]
  by (simp add: sa_push_def Let_def one_slot array_frames load_store ucast_u64_inject)

lemma unat_add_one: "unat (n :: u64) < 2 ^ 64 - 1 \<Longrightarrow> unat (n + 1) = unat n + 1"
  by (simp add: unat_word_ariths)

lemma word_of_nat_u64_eq: "i < unat (n :: u64) \<Longrightarrow> (word_of_nat i = n) = False"
  using unat_u64_less [of n] by (auto simp: unat_of_nat)

lemma contents_push:
  assumes "length (sa_contents c slot s) < 2 ^ 64 - 1"
  shows "sa_contents c slot (sa_push c slot v s) = sa_contents c slot s @ [v]"
proof -
  have len: "unat (sa_length slot s + 1) = Suc (unat (sa_length slot s))"
    using unat_add_one [of "sa_length slot s"] assms by (simp add: sa_contents_def)
  have "map (\<lambda>i. sv_load c (slot + 1 + ucast (word_of_nat i :: u64)) (sa_push c slot v s))
          [0..<unat (sa_length slot s)] =
        map (\<lambda>i. sv_load c (slot + 1 + ucast (word_of_nat i :: u64)) s) [0..<unat (sa_length slot s)]"
    by (rule map_cong) (auto simp: elem_push word_of_nat_u64_eq)
  then show ?thesis
    by (simp add: sa_contents_def length_push len get_offset elem_push)
qed

lemma pop_nonempty:
  assumes "sa_length slot s = n" and "n \<noteq> 0"
  shows "sa_pop c slot s = Inr (sv_load c (slot + 1 + ucast (n - 1)) s,
    sv_store u64_be slot (n - 1) (sv_store c (slot + 1 + ucast (n - 1)) z s))"
  using assms by (simp add: sa_pop_def Let_def get_offset clear_store word_gt_0)

lemma contents_pop:
  assumes "sa_contents c slot s \<noteq> []"
  shows "\<exists>s'. sa_pop c slot s = Inr (last (sa_contents c slot s), s') \<and>
              sa_contents c slot s' = butlast (sa_contents c slot s)"
proof -
  define n where "n = sa_length slot s"
  have n0: "n \<noteq> 0"
    using assms by (auto simp: sa_contents_def n_def)
  obtain m where m: "unat n = Suc m"
    using n0 by (metis not0_implies_Suc unat_eq_zero)
  have "n = word_of_nat (Suc m)"
    by (simp flip: m)
  then have nm: "n - 1 = word_of_nat m"
    by simp
  have um: "unat (word_of_nat m :: u64) = m"
    using m unat_u64_less [of n] by (simp add: unat_of_nat)
  define s' where "s' = sv_store u64_be slot (n - 1) (sv_store c (slot + 1 + ucast (n - 1)) z s)"
  have len': "sa_length slot s' = n - 1"
    by (simp add: sa_length_def s'_def sv_u64.load_store)
  have elem': "sv_load c (slot + 1 + ucast (word_of_nat i :: u64)) s' =
      sv_load c (slot + 1 + ucast (word_of_nat i :: u64)) s" if "i < m" for i
  proof -
    have "(word_of_nat i :: u64) \<noteq> n - 1"
      using word_of_nat_u64_eq [of i "n - 1"] that by (simp add: nm um)
    then show ?thesis
      using offset_not_base [of slot "word_of_nat i"]
      by (simp add: s'_def array_frames ucast_u64_inject)
  qed
  have c: "sa_contents c slot s = map (\<lambda>i. sv_load c (slot + 1 + ucast (word_of_nat i :: u64)) s) [0..<Suc m]"
    by (simp add: sa_contents_def n_def [symmetric] m get_offset)
  have c': "sa_contents c slot s' = map (\<lambda>i. sv_load c (slot + 1 + ucast (word_of_nat i :: u64)) s) [0..<m]"
    using elem' by (simp add: sa_contents_def len' nm um get_offset)
  show ?thesis
    using pop_nonempty [OF n_def [symmetric] n0] c c'
    by (simp add: s'_def [symmetric]) (simp add: nm)
qed

lemma array_contract:
  "array_contract (sa_contents c slot) (sa_length slot) (\<lambda>i s. sv_load c (sa_get c slot i) s)
     (sa_push c slot) (sa_pop c slot)"
proof
  show "unat (sa_length slot s) = length (sa_contents c slot s)" for s
    by (simp add: sa_contents_def)
  show "i < length (sa_contents c slot s) \<Longrightarrow>
      sv_load c (sa_get c slot (word_of_nat i)) s = sa_contents c slot s ! i" for i s
    by (simp add: sa_contents_def)
  show "sa_contents c slot s = [] \<Longrightarrow> sa_pop c slot s = Inl Aborted" for s
    by (simp add: sa_contents_def sa_pop_def Let_def unat_eq_zero)
qed (rule contents_push contents_pop; assumption)+

end

interpretation arr_u64: single_slot "word_codec :: u64 codec" 0
  by unfold_locales simp

interpretation val_array: array_contract "sa_contents u64_be slot" "sa_length slot"
    "\<lambda>i s. sv_load u64_be (sa_get u64_be slot i) s" "sa_push u64_be slot" "sa_pop u64_be slot"
  for slot
  by (rule arr_u64.array_contract)

end
