(* ===== verification/StakingLayout.thy ===== *)
theory StakingLayout
  imports Storage
begin

text \<open>
  The storage layout of the staking contract: the packed structs of \<open>util/delegator.hpp\<close>,
  \<open>util/val_execution.hpp\<close> and \<open>staking_contract.hpp\<close>, the class \<open>Variables\<close> that gives every storage
  variable its key, and the field offsets of \<open>Delegator\<close>, \<open>ValExecution\<close> and \<open>ConsensusView\<close>.

  \<open>svar\<close> names every storage variable of the contract and \<open>svar_key\<close> is its first slot. The main
  result is \<open>svar_apart\<close>: two different variables never share a slot, for any validator id, address,
  epoch, withdrawal id and array index. It is what makes reads and writes of the contract independent
  of each other, and all later theories use it through \<open>sv_frame\<close>.
\<close>

section \<open>Packed structs\<close>

record Epochs =
  delta_epoch :: u64
  next_delta_epoch :: u64

record ListNode =
  inext :: u64
  iprev :: u64
  anext :: address
  aprev :: address

record KeysPacked =
  secp_pubkey :: "264 word"
  bls_pubkey :: "384 word"

record AddressFlags =
  auth_address :: address
  flags :: u64

record WithdrawalRequest =
  wr_amount :: u256
  wr_acc :: u256
  wr_epoch :: u64

record RefCountedAccumulator =
  ra_value :: u256
  refcount :: u256

definition epochs_codec :: "Epochs codec" where
  "epochs_codec = \<lparr>c_size = 16,
     c_enc = (\<lambda>e. word_bytes (delta_epoch e) @ word_bytes (next_delta_epoch e)),
     c_dec = (\<lambda>bs. \<lparr>delta_epoch = bytes_word (take 8 bs), next_delta_epoch = bytes_word (drop 8 bs)\<rparr>)\<rparr>"

definition list_node_codec :: "ListNode codec" where
  "list_node_codec = \<lparr>c_size = 56,
     c_enc = (\<lambda>n. word_bytes (inext n) @ word_bytes (iprev n) @ word_bytes (anext n) @ word_bytes (aprev n)),
     c_dec = (\<lambda>bs. \<lparr>inext = bytes_word (take 8 bs), iprev = bytes_word (take 8 (drop 8 bs)),
       anext = bytes_word (take 20 (drop 16 bs)), aprev = bytes_word (drop 36 bs)\<rparr>)\<rparr>"

definition keys_codec :: "KeysPacked codec" where
  "keys_codec = \<lparr>c_size = 81,
     c_enc = (\<lambda>k. word_bytes (secp_pubkey k) @ word_bytes (bls_pubkey k)),
     c_dec = (\<lambda>bs. \<lparr>secp_pubkey = bytes_word (take 33 bs), bls_pubkey = bytes_word (drop 33 bs)\<rparr>)\<rparr>"

definition address_flags_codec :: "AddressFlags codec" where
  "address_flags_codec = \<lparr>c_size = 28,
     c_enc = (\<lambda>a. word_bytes (auth_address a) @ word_bytes (flags a)),
     c_dec = (\<lambda>bs. \<lparr>auth_address = bytes_word (take 20 bs), flags = bytes_word (drop 20 bs)\<rparr>)\<rparr>"

definition withdrawal_codec :: "WithdrawalRequest codec" where
  "withdrawal_codec = \<lparr>c_size = 72,
     c_enc = (\<lambda>w. word_bytes (wr_amount w) @ word_bytes (wr_acc w) @ word_bytes (wr_epoch w)),
     c_dec = (\<lambda>bs. \<lparr>wr_amount = bytes_word (take 32 bs), wr_acc = bytes_word (take 32 (drop 32 bs)),
       wr_epoch = bytes_word (drop 64 bs)\<rparr>)\<rparr>"

definition accumulator_codec :: "RefCountedAccumulator codec" where
  "accumulator_codec = \<lparr>c_size = 64,
     c_enc = (\<lambda>a. word_bytes (ra_value a) @ word_bytes (refcount a)),
     c_dec = (\<lambda>bs. \<lparr>ra_value = bytes_word (take 32 bs), refcount = bytes_word (drop 32 bs)\<rparr>)\<rparr>"

lemmas codec_defs = epochs_codec_def list_node_codec_def keys_codec_def address_flags_codec_def
  withdrawal_codec_def accumulator_codec_def

lemma pubkey_bytes [simp]:
  "bytes_word (word_bytes (k :: 264 word)) = k" "bytes_word (word_bytes (b :: 384 word)) = b"
  by (simp_all add: bytes_word_word_bytes)

interpretation sv_epochs: storable_zero epochs_codec "\<lparr>delta_epoch = 0, next_delta_epoch = 0\<rparr>"
  by unfold_locales (simp_all add: codec_defs flip: replicate_add)

interpretation sv_node: storable_zero list_node_codec "\<lparr>inext = 0, iprev = 0, anext = 0, aprev = 0\<rparr>"
  by unfold_locales (simp_all add: codec_defs flip: replicate_add)

interpretation sv_keys: storable_zero keys_codec "\<lparr>secp_pubkey = 0, bls_pubkey = 0\<rparr>"
  by unfold_locales (simp_all add: codec_defs flip: replicate_add)

interpretation sv_flags: storable_zero address_flags_codec "\<lparr>auth_address = 0, flags = 0\<rparr>"
  by unfold_locales (simp_all add: codec_defs flip: replicate_add)

interpretation sv_withdrawal: storable_zero withdrawal_codec "\<lparr>wr_amount = 0, wr_acc = 0, wr_epoch = 0\<rparr>"
  by unfold_locales (simp_all add: codec_defs flip: replicate_add)

interpretation sv_acc: storable_zero accumulator_codec "\<lparr>ra_value = 0, refcount = 0\<rparr>"
  by unfold_locales (simp_all add: codec_defs flip: replicate_add)

lemma sv_slots_structs [simp]:
  "sv_slots epochs_codec = 1" "sv_slots list_node_codec = 2" "sv_slots keys_codec = 3"
  "sv_slots address_flags_codec = 1" "sv_slots withdrawal_codec = 3" "sv_slots accumulator_codec = 2"
  by (simp_all add: sv_slots_def codec_defs)

section \<open>Keys\<close>

datatype valset = Execution | Consensus | Snapshot

text \<open>\<open>pack_key\<close> is the \<open>bit_cast\<close> of a key struct: the namespace byte, the fields and zero bytes up
  to 32.\<close>

definition pack_key :: "u8 \<Rightarrow> bytes \<Rightarrow> u256" where
  "pack_key ns fs = bytes_word (ns # fs @ replicate (31 - length fs) 0)"

fun valset_slot :: "valset \<Rightarrow> u256" where
  "valset_slot Execution = 0x0100000000000000000000000000000000000000000000000000000000000000"
| "valset_slot Consensus = 0x0200000000000000000000000000000000000000000000000000000000000000"
| "valset_slot Snapshot = 0x0300000000000000000000000000000000000000000000000000000000000000"

definition val_id_key :: "address \<Rightarrow> u256" where
  "val_id_key secp_eth_address = pack_key 0x06 (word_bytes secp_eth_address)"

definition val_id_bls_key :: "address \<Rightarrow> u256" where
  "val_id_bls_key bls_eth_address = pack_key 0x07 (word_bytes bls_eth_address)"

definition val_bitset_key :: "u64 \<Rightarrow> u256" where
  "val_bitset_key bucket = pack_key 0x08 (word_bytes bucket)"

definition val_execution_key :: "u64 \<Rightarrow> u256" where
  "val_execution_key val_id = pack_key 0x09 (word_bytes val_id)"

definition consensus_view_key :: "u64 \<Rightarrow> u256" where
  "consensus_view_key val_id = pack_key 0x04 (word_bytes val_id)"

definition snapshot_view_key :: "u64 \<Rightarrow> u256" where
  "snapshot_view_key val_id = pack_key 0x05 (word_bytes val_id)"

definition delegator_key :: "u64 \<Rightarrow> address \<Rightarrow> u256" where
  "delegator_key val_id address = pack_key 0x0B (word_bytes val_id @ word_bytes address)"

definition withdrawal_request_key :: "u64 \<Rightarrow> address \<Rightarrow> u8 \<Rightarrow> u256" where
  "withdrawal_request_key val_id delegator withdrawal_id =
     pack_key 0x0C (word_bytes val_id @ word_bytes delegator @ word_bytes withdrawal_id)"

definition accumulator_key :: "u64 \<Rightarrow> u64 \<Rightarrow> u256" where
  "accumulator_key epoch val_id = pack_key 0x0A (word_bytes epoch @ word_bytes val_id)"

section \<open>Variables\<close>

datatype svar =
    Epoch | InBoundary | LastValId | ProposerValId
  | ValsetLen valset | ValsetElem valset u64
  | ValIdSecp address | ValIdBls address | ValBitset u64
  | VStake u64 | VAcc u64 | VCommission u64 | VKeys u64 | VAddressFlags u64 | VUnclaimed u64
  | ConsStake u64 | ConsCommission u64 | SnapStake u64 | SnapCommission u64
  | DStake u64 address | DAcc u64 address | DRewards u64 address | DDelta u64 address
  | DNextDelta u64 address | DEpochs u64 address | DListNode u64 address
  | Withdrawal u64 address u8
  | Accumulator u64 u64

fun svar_key :: "svar \<Rightarrow> u256" where
  "svar_key Epoch = 1"
| "svar_key InBoundary = 2"
| "svar_key LastValId = 3"
| "svar_key ProposerValId = 4"
| "svar_key (ValsetLen vs) = valset_slot vs"
| "svar_key (ValsetElem vs i) = sa_get u64_be (valset_slot vs) i"
| "svar_key (ValIdSecp a) = val_id_key a"
| "svar_key (ValIdBls a) = val_id_bls_key a"
| "svar_key (ValBitset b) = val_bitset_key b"
| "svar_key (VStake v) = val_execution_key v + 0"
| "svar_key (VAcc v) = val_execution_key v + 1"
| "svar_key (VCommission v) = val_execution_key v + 2"
| "svar_key (VKeys v) = val_execution_key v + 3"
| "svar_key (VAddressFlags v) = val_execution_key v + 6"
| "svar_key (VUnclaimed v) = val_execution_key v + 7"
| "svar_key (ConsStake v) = consensus_view_key v + 0"
| "svar_key (ConsCommission v) = consensus_view_key v + 1"
| "svar_key (SnapStake v) = snapshot_view_key v + 0"
| "svar_key (SnapCommission v) = snapshot_view_key v + 1"
| "svar_key (DStake v a) = delegator_key v a + 0"
| "svar_key (DAcc v a) = delegator_key v a + 1"
| "svar_key (DRewards v a) = delegator_key v a + 2"
| "svar_key (DDelta v a) = delegator_key v a + 3"
| "svar_key (DNextDelta v a) = delegator_key v a + 4"
| "svar_key (DEpochs v a) = delegator_key v a + 5"
| "svar_key (DListNode v a) = delegator_key v a + 6"
| "svar_key (Withdrawal v a w) = withdrawal_request_key v a w"
| "svar_key (Accumulator e v) = accumulator_key e v"

text \<open>The number of slots of the variable's type.\<close>

fun svar_slots :: "svar \<Rightarrow> nat" where
  "svar_slots (VKeys v) = 3"
| "svar_slots (DListNode v a) = 2"
| "svar_slots (Withdrawal v a w) = 3"
| "svar_slots (Accumulator e v) = 2"
| "svar_slots _ = 1"

section \<open>No two variables share a slot\<close>

text \<open>A slot number is a namespace byte, a field part and an offset inside the fields' range.
  \<open>svar_ns\<close>, \<open>ns_width\<close>, \<open>svar_pay\<close> and \<open>svar_off\<close> are those parts.\<close>

fun svar_ns :: "svar \<Rightarrow> nat" where
  "svar_ns (ValsetLen vs) = (case vs of Execution \<Rightarrow> 1 | Consensus \<Rightarrow> 2 | Snapshot \<Rightarrow> 3)"
| "svar_ns (ValsetElem vs i) = (case vs of Execution \<Rightarrow> 1 | Consensus \<Rightarrow> 2 | Snapshot \<Rightarrow> 3)"
| "svar_ns (ValIdSecp a) = 6"
| "svar_ns (ValIdBls a) = 7"
| "svar_ns (ValBitset b) = 8"
| "svar_ns (VStake v) = 9"
| "svar_ns (VAcc v) = 9"
| "svar_ns (VCommission v) = 9"
| "svar_ns (VKeys v) = 9"
| "svar_ns (VAddressFlags v) = 9"
| "svar_ns (VUnclaimed v) = 9"
| "svar_ns (ConsStake v) = 4"
| "svar_ns (ConsCommission v) = 4"
| "svar_ns (SnapStake v) = 5"
| "svar_ns (SnapCommission v) = 5"
| "svar_ns (DStake v a) = 11"
| "svar_ns (DAcc v a) = 11"
| "svar_ns (DRewards v a) = 11"
| "svar_ns (DDelta v a) = 11"
| "svar_ns (DNextDelta v a) = 11"
| "svar_ns (DEpochs v a) = 11"
| "svar_ns (DListNode v a) = 11"
| "svar_ns (Withdrawal v a w) = 12"
| "svar_ns (Accumulator e v) = 10"
| "svar_ns _ = 0"

fun ns_width :: "nat \<Rightarrow> nat" where
  "ns_width n = (if n \<le> 3 then 256 ^ 31 else if n = 6 \<or> n = 7 then 256 ^ 11
     else if n = 11 then 256 ^ 3 else if n = 12 then 256 ^ 2 else if n = 10 then 256 ^ 15
     else 256 ^ 23)"

definition pay_va :: "u64 \<Rightarrow> address \<Rightarrow> nat" where
  "pay_va v a = unat v * 256 ^ 20 + unat a"

definition pay_vaw :: "u64 \<Rightarrow> address \<Rightarrow> u8 \<Rightarrow> nat" where
  "pay_vaw v a w = pay_va v a * 256 + unat w"

definition pay_ev :: "u64 \<Rightarrow> u64 \<Rightarrow> nat" where
  "pay_ev e v = unat e * 256 ^ 8 + unat v"

fun svar_pay :: "svar \<Rightarrow> nat" where
  "svar_pay (ValIdSecp a) = unat a"
| "svar_pay (ValIdBls a) = unat a"
| "svar_pay (ValBitset b) = unat b"
| "svar_pay (VStake v) = unat v"
| "svar_pay (VAcc v) = unat v"
| "svar_pay (VCommission v) = unat v"
| "svar_pay (VKeys v) = unat v"
| "svar_pay (VAddressFlags v) = unat v"
| "svar_pay (VUnclaimed v) = unat v"
| "svar_pay (ConsStake v) = unat v"
| "svar_pay (ConsCommission v) = unat v"
| "svar_pay (SnapStake v) = unat v"
| "svar_pay (SnapCommission v) = unat v"
| "svar_pay (DStake v a) = pay_va v a"
| "svar_pay (DAcc v a) = pay_va v a"
| "svar_pay (DRewards v a) = pay_va v a"
| "svar_pay (DDelta v a) = pay_va v a"
| "svar_pay (DNextDelta v a) = pay_va v a"
| "svar_pay (DEpochs v a) = pay_va v a"
| "svar_pay (DListNode v a) = pay_va v a"
| "svar_pay (Withdrawal v a w) = pay_vaw v a w"
| "svar_pay (Accumulator e v) = pay_ev e v"
| "svar_pay _ = 0"

fun svar_off :: "svar \<Rightarrow> nat" where
  "svar_off Epoch = 1"
| "svar_off InBoundary = 2"
| "svar_off LastValId = 3"
| "svar_off ProposerValId = 4"
| "svar_off (ValsetElem vs i) = 1 + unat i"
| "svar_off (VAcc v) = 1"
| "svar_off (VCommission v) = 2"
| "svar_off (VKeys v) = 3"
| "svar_off (VAddressFlags v) = 6"
| "svar_off (VUnclaimed v) = 7"
| "svar_off (ConsCommission v) = 1"
| "svar_off (SnapCommission v) = 1"
| "svar_off (DAcc v a) = 1"
| "svar_off (DRewards v a) = 2"
| "svar_off (DDelta v a) = 3"
| "svar_off (DNextDelta v a) = 4"
| "svar_off (DEpochs v a) = 5"
| "svar_off (DListNode v a) = 6"
| "svar_off _ = 0"

definition svar_num :: "svar \<Rightarrow> nat" where
  "svar_num x = svar_ns x * 256 ^ 31 + (svar_pay x * ns_width (svar_ns x) + svar_off x)"

lemma unat_bounds:
  "unat (v :: u64) < 256 ^ 8" "unat (a :: address) < 256 ^ 20" "unat (w :: u8) < 256"
  using unsigned_less [of v] unsigned_less [of a] unsigned_less [of w] by simp_all

lemma mult_add_inject:
  fixes a b c d n :: nat
  assumes "b < n" and "d < n"
  shows "a * n + b = c * n + d \<longleftrightarrow> a = c \<and> b = d"
proof
  assume e: "a * n + b = c * n + d"
  have "(a * n + b) div n = a" "(a * n + b) mod n = b" "(c * n + d) div n = c" "(c * n + d) mod n = d"
    using assms by auto
  with e show "a = c \<and> b = d" by simp
qed simp

lemma pay_inject [simp]:
  "pay_va v a = pay_va v' a' \<longleftrightarrow> v = v' \<and> a = a'"
  "pay_vaw v a w = pay_vaw v' a' w' \<longleftrightarrow> v = v' \<and> a = a' \<and> w = w'"
  "pay_ev e u = pay_ev e' u' \<longleftrightarrow> e = e' \<and> u = u'"
proof -
  show va: "pay_va v a = pay_va v' a' \<longleftrightarrow> v = v' \<and> a = a'" for v v' :: u64 and a a' :: address
    unfolding pay_va_def mult_add_inject [OF unat_bounds(2) unat_bounds(2)] word_unat_eq_iff ..
  show "pay_vaw v a w = pay_vaw v' a' w' \<longleftrightarrow> v = v' \<and> a = a' \<and> w = w'"
    unfolding pay_vaw_def mult_add_inject [OF unat_bounds(3) unat_bounds(3)] va
    by (simp add: word_unat_eq_iff)
  show "pay_ev e u = pay_ev e' u' \<longleftrightarrow> e = e' \<and> u = u'"
    unfolding pay_ev_def mult_add_inject [OF unat_bounds(1) unat_bounds(1)] word_unat_eq_iff ..
qed

lemmas of_be_words [simp] =
  of_be_word_bytes [where 'a = 8, simplified] of_be_word_bytes [where 'a = 64, simplified]
  of_be_word_bytes [where 'a = 160, simplified]

lemma unat_pack_key:
  assumes "length fs \<le> 31"
  shows "unat (pack_key ns fs) = unat ns * 256 ^ 31 + of_be fs * 256 ^ (31 - length fs)"
proof -
  define bs where "bs = [ns] @ fs @ replicate (31 - length fs) 0"
  have "of_be bs = unat ns * 256 ^ 31 + of_be fs * 256 ^ (31 - length fs)"
    using assms of_be_snoc [of "[]" ns] unfolding bs_def by (simp only: of_be_append) simp
  moreover have "of_be bs < 2 ^ 256"
    using of_be_less [of bs] assms by (simp add: bs_def)
  then have "unat (word_of_nat (of_be bs) :: u256) = of_be bs"
    by (simp add: unat_of_nat)
  moreover have "pack_key ns fs = word_of_nat (of_be bs)"
    by (simp add: pack_key_def bs_def bytes_word_def)
  ultimately show ?thesis
    by (simp only:)
qed

lemmas key_defs = val_id_key_def val_id_bls_key_def val_bitset_key_def val_execution_key_def
  consensus_view_key_def snapshot_view_key_def delegator_key_def withdrawal_request_key_def
  accumulator_key_def

lemma unat_keys:
  "unat (val_id_key a) = 6 * 256 ^ 31 + unat a * 256 ^ 11"
  "unat (val_id_bls_key a) = 7 * 256 ^ 31 + unat a * 256 ^ 11"
  "unat (val_bitset_key v) = 8 * 256 ^ 31 + unat v * 256 ^ 23"
  "unat (val_execution_key v) = 9 * 256 ^ 31 + unat v * 256 ^ 23"
  "unat (consensus_view_key v) = 4 * 256 ^ 31 + unat v * 256 ^ 23"
  "unat (snapshot_view_key v) = 5 * 256 ^ 31 + unat v * 256 ^ 23"
  "unat (delegator_key v a) = 11 * 256 ^ 31 + pay_va v a * 256 ^ 3"
  "unat (withdrawal_request_key v a w) = 12 * 256 ^ 31 + pay_vaw v a w * 256 ^ 2"
  "unat (accumulator_key e v) = 10 * 256 ^ 31 + pay_ev e v * 256 ^ 15"
  by (simp_all add: key_defs unat_pack_key of_be_append pay_va_def pay_vaw_def pay_ev_def)

lemma pay_less:
  "pay_va v a < 256 ^ 28" "pay_vaw v a w < 256 ^ 29" "pay_ev e u < 256 ^ 16"
  using unat_bounds(1) [of v] unat_bounds(2) [of a] unat_bounds(3) [of w]
    unat_bounds(1) [of e] unat_bounds(1) [of u]
  by (simp_all add: pay_va_def pay_vaw_def pay_ev_def)

lemmas pay_bounds = pay_less [simplified] unat_bounds [simplified]

lemma svar_pay_less: "svar_pay x < 256 ^ 31 div ns_width (svar_ns x)"
  by (cases x) (auto simp: pay_bounds split: valset.splits)

lemma svar_off_less: "svar_off x + 3 < ns_width (svar_ns x)"
proof (cases "\<exists>vs i. x = ValsetElem vs i")
  case True
  then obtain vs i where x: "x = ValsetElem vs i" by blast
  have "unat i < 256 ^ 8" by (rule unat_bounds)
  then show ?thesis
    by (cases vs) (simp_all add: x)
next
  case False
  then show ?thesis
    by (cases x) (auto split: valset.splits)
qed

lemma svar_pay_off_less:
  "svar_pay x * ns_width (svar_ns x) + svar_off x + 3 < 256 ^ 31"
proof -
  define w where "w = ns_width (svar_ns x)"
  have "svar_pay x + 1 \<le> 256 ^ 31 div w"
    using svar_pay_less [of x] by (simp add: w_def)
  then have "(svar_pay x + 1) * w \<le> 256 ^ 31 div w * w"
    by (rule mult_le_mono1)
  also have "\<dots> \<le> 256 ^ 31"
    by simp
  finally have "svar_pay x * w + w \<le> 256 ^ 31"
    by simp
  then show ?thesis
    using svar_off_less [of x] unfolding w_def by linarith
qed

lemma svar_num_less: "svar_num x + 3 < 2 ^ 256"
proof -
  have "svar_ns x \<le> 12"
    by (cases x) (auto split: valset.splits)
  then show ?thesis
    using svar_pay_off_less [of x] by (simp add: svar_num_def del: ns_width.simps)
qed

lemma unat_svar_key: "unat (svar_key x) = svar_num x"
proof -
  have plus: "unat (k + w) = unat k + unat w" if "unat k + unat w < 2 ^ 256" for k w :: u256
    using that by (simp add: unat_word_ariths)
  show ?thesis
    using svar_num_less [of x]
    by (cases x) (auto simp: svar_num_def unat_keys plus sa_get_def split: valset.splits)
qed

lemma svar_slots_le: "svar_slots x \<le> 3"
  by (cases x) auto

lemma svar_pay_off_inject:
  assumes "svar_ns x = svar_ns y" and "svar_pay x = svar_pay y" and "svar_off x + i = svar_off y + j"
    and "i < svar_slots x" and "j < svar_slots y"
  shows "x = y"
  using assms by (cases x; cases y) (auto simp: word_unat_eq_iff split: valset.splits)

lemma svar_num_inject:
  assumes "svar_num x + i = svar_num y + j" and "i < svar_slots x" and "j < svar_slots y"
  shows "x = y"
proof -
  define p where "p z = svar_pay z * ns_width (svar_ns z) + svar_off z" for z
  have ij: "i < 3" "j < 3"
    using assms svar_slots_le [of x] svar_slots_le [of y] by simp_all
  have p: "p x + i < 256 ^ 31" "p y + j < 256 ^ 31"
    using svar_pay_off_less [of x] svar_pay_off_less [of y] ij unfolding p_def by linarith+
  have "svar_ns x * 256 ^ 31 + (p x + i) = svar_ns y * 256 ^ 31 + (p y + j)"
    using assms(1) unfolding svar_num_def p_def by linarith
  then have ns: "svar_ns x = svar_ns y" and "p x + i = p y + j"
    unfolding mult_add_inject [OF p] by simp_all
  moreover define w where "w = ns_width (svar_ns y)"
  ultimately have "svar_pay x * w + (svar_off x + i) = svar_pay y * w + (svar_off y + j)"
    unfolding p_def by simp
  moreover have "svar_off x + i < w" "svar_off y + j < w"
    using svar_off_less [of x] svar_off_less [of y] ij ns
    by (auto simp: w_def simp del: ns_width.simps)
  ultimately have "svar_pay x = svar_pay y" "svar_off x + i = svar_off y + j"
    by (simp_all add: mult_add_inject)
  with ns assms show ?thesis
    by (intro svar_pay_off_inject)
qed

lemma svar_apart:
  assumes "x \<noteq> y"
  shows "slots_apart (svar_key x) (svar_slots x) (svar_key y) (svar_slots y)"
  unfolding slots_apart_def
proof (intro allI impI notI)
  fix i j
  assume ij: "i < svar_slots x" "j < svar_slots y"
    and e: "svar_key x + word_of_nat i = svar_key y + word_of_nat j"
  have *: "unat (svar_key z + word_of_nat k) = svar_num z + k" if "k < svar_slots z" for z k
  proof -
    have k: "k < 3" using that svar_slots_le [of z] by simp
    then have "svar_num z + k < 2 ^ 256" using svar_num_less [of z] by linarith
    moreover have "unat (word_of_nat k :: u256) = k" using k by (simp add: unat_of_nat)
    ultimately show ?thesis by (simp add: unat_word_ariths unat_svar_key)
  qed
  have "svar_num x + i = svar_num y + j"
    using arg_cong [OF e, of unat] * ij by simp
  then have "x = y" using svar_num_inject ij by blast
  with assms show False ..
qed

section \<open>Independent reads and writes\<close>

lemma sv_frame:
  assumes "x \<noteq> y" and "sv_slots c = svar_slots x" and "sv_slots d = svar_slots y"
  shows "sv_load c (svar_key x) (sv_store d (svar_key y) v s) = sv_load c (svar_key x) s"
    and "sv_load_checked c (svar_key x) (sv_store d (svar_key y) v s) = sv_load_checked c (svar_key x) s"
    and "sv_load c (svar_key x) (sv_clear d (svar_key y) s) = sv_load c (svar_key x) s"
    and "sv_load_checked c (svar_key x) (sv_clear d (svar_key y) s) = sv_load_checked c (svar_key x) s"
proof -
  have apart: "slots_apart (svar_key x) (sv_slots c) (svar_key y) (sv_slots d)"
    using svar_apart [OF assms(1)] by (simp add: assms)
  then have *: "load_slots c (svar_key x) (store_slots (svar_key y) ws s) = load_slots c (svar_key x) s"
    if "length ws = sv_slots d" for ws
    using that by (intro load_slots_store_slots_apart) simp
  show "sv_load c (svar_key x) (sv_store d (svar_key y) v s) = sv_load c (svar_key x) s"
    and "sv_load_checked c (svar_key x) (sv_store d (svar_key y) v s) = sv_load_checked c (svar_key x) s"
    and "sv_load c (svar_key x) (sv_clear d (svar_key y) s) = sv_load c (svar_key x) s"
    and "sv_load_checked c (svar_key x) (sv_clear d (svar_key y) s) = sv_load_checked c (svar_key x) s"
    by (simp_all add: sv_load_def sv_load_checked_def sv_store_def sv_clear_def *)
qed

lemma valset_slot_keys:
  "valset_slot vs = svar_key (ValsetLen vs)"
  "sa_get u64_be (svar_key (ValsetLen vs)) i = svar_key (ValsetElem vs i)"
  by simp_all

declare svar_key.simps [simp del] valset_slot.simps [simp del]

text \<open>C23. The storage variables of the contract never overlap: two different variables, for any validators,
  accounts, epochs and withdrawal ids, have no storage slot in common, although a slot is computed by packing
  the arguments into a key and adding an offset.\<close>

theorem variables_never_overlap:
  assumes "x \<noteq> y" and "i < svar_slots x" and "j < svar_slots y"
  shows "svar_key x + word_of_nat i \<noteq> svar_key y + word_of_nat j"
  using svar_apart [OF assms(1)] assms(2,3) by (auto simp: slots_apart_def)

end
