(* ===== verification/Uint256.thy ===== *)
theory Uint256
  imports Prelude
begin

text \<open>
  The multi-word arithmetic of \<open>category/core/runtime/uint256.hpp\<close> and
  \<open>category/core/runtime/uint256/portable.hpp\<close>. A \<open>uint256_t\<close> is an array of four 64-bit words,
  least significant first; \<open>words\<close> is such an array of any length and \<open>val\<close> the number it stands
  for. The operations are the word-level ones of the source; the lemmas show that they compute
  addition, subtraction, comparison, multiplication and shifts of the numbers.
\<close>

type_synonym words = "u64 list"

fun val :: "words \<Rightarrow> nat" where
  "val [] = 0"
| "val (w # ws) = unat w + 2 ^ 64 * val ws"

section \<open>Word primitives\<close>

definition addc :: "u64 \<Rightarrow> u64 \<Rightarrow> bool \<Rightarrow> u64 \<times> bool" where
  "addc lhs rhs carry_in =
     (let sum = lhs + rhs;
          carry_out = sum < lhs;
          sum_carry = sum + of_bool carry_in
      in (sum_carry, carry_out \<or> sum_carry < sum))"

definition subb :: "u64 \<Rightarrow> u64 \<Rightarrow> bool \<Rightarrow> u64 \<times> bool" where
  "subb lhs rhs borrow_in =
     (let sub = lhs - rhs;
          borrow_out = rhs > lhs;
          sub_borrow = sub - of_bool borrow_in
      in (sub_borrow, borrow_out \<or> of_bool borrow_in > sub))"

definition shld :: "u64 \<Rightarrow> u64 \<Rightarrow> nat \<Rightarrow> u64" where
  "shld high low shift = push_bit shift high OR drop_bit (63 - shift) (drop_bit 1 low)"

definition shrd :: "u64 \<Rightarrow> u64 \<Rightarrow> nat \<Rightarrow> u64" where
  "shrd high low shift = drop_bit shift low OR push_bit (63 - shift) (push_bit 1 high)"

definition mulx :: "u64 \<Rightarrow> u64 \<Rightarrow> u64 \<times> u64" where
  "mulx x y =
     (let prod = (ucast x * ucast y :: u128)
      in (ucast (drop_bit 64 prod), ucast prod))"

definition div_word :: "u64 \<Rightarrow> u64 \<Rightarrow> u64 \<Rightarrow> u64 \<times> u64" where
  "div_word u_hi u_lo v =
     (let u = (push_bit 64 (ucast u_hi) OR ucast u_lo :: u128)
      in (ucast (u div ucast v), ucast (u mod ucast v)))"

section \<open>Four-word operations\<close>

definition addc256 :: "words \<Rightarrow> words \<Rightarrow> words \<times> bool" where
  "addc256 lhs rhs =
     (let (w0, c0) = addc (lhs ! 0) (rhs ! 0) False;
          (w1, c1) = addc (lhs ! 1) (rhs ! 1) c0;
          (w2, c2) = addc (lhs ! 2) (rhs ! 2) c1;
          (w3, c3) = addc (lhs ! 3) (rhs ! 3) c2
      in ([w0, w1, w2, w3], c3))"

definition subb256 :: "words \<Rightarrow> words \<Rightarrow> words \<times> bool" where
  "subb256 lhs rhs =
     (let (w0, b0) = subb (lhs ! 0) (rhs ! 0) False;
          (w1, b1) = subb (lhs ! 1) (rhs ! 1) b0;
          (w2, b2) = subb (lhs ! 2) (rhs ! 2) b1;
          (w3, b3) = subb (lhs ! 3) (rhs ! 3) b2
      in ([w0, w1, w2, w3], b3))"

definition less256 :: "words \<Rightarrow> words \<Rightarrow> bool" where
  "less256 lhs rhs = snd (subb256 lhs rhs)"

section \<open>Truncating multiplication\<close>

fun mul_row :: "nat \<Rightarrow> u64 \<Rightarrow> words \<Rightarrow> nat \<Rightarrow> u64 \<Rightarrow> words \<Rightarrow> words \<times> u64" where
  "mul_row R yj [] k carry result = (result, carry)"
| "mul_row R yj (xi # xs) k carry result =
     (if k < R then
        (let (hi, lo) = mulx xi yj;
             (s0, c0) = addc lo (result ! k) False;
             (s1, c1) = addc s0 carry False;
             (s2, c2) = addc hi (of_bool c0) c1
         in mul_row R yj xs (Suc k) s2 (result[k := s1]))
      else (result, carry))"

fun mul_rows :: "nat \<Rightarrow> words \<Rightarrow> words \<Rightarrow> nat \<Rightarrow> words \<Rightarrow> words" where
  "mul_rows R x [] j result = result"
| "mul_rows R x (yj # ys) j result =
     (let (row, carry) = mul_row R yj x j 0 result
      in mul_rows R x ys (Suc j)
           (if j + length x < R then row[j + length x := carry] else row))"

definition truncating_mul :: "nat \<Rightarrow> words \<Rightarrow> words \<Rightarrow> words" where
  "truncating_mul R x y = mul_rows R x y 0 (replicate R 0)"

section \<open>Values\<close>

lemma val_append: "val (xs @ ys) = val xs + 2 ^ (64 * length xs) * val ys"
  by (induction xs) (simp_all add: algebra_simps power_add)

lemma val_replicate_0 [simp]: "val (replicate n 0) = 0"
  by (induction n) auto

lemma val_less: "val ws < 2 ^ (64 * length ws)"
proof (induction ws)
  case Nil
  then show ?case by simp
next
  case (Cons w ws)
  have "unat w < 2 ^ 64"
    by (rule unat_u64_less)
  moreover from Cons have "val ws + 1 \<le> 2 ^ (64 * length ws)"
    by simp
  then have "2 ^ 64 * (val ws + 1) \<le> 2 ^ 64 * 2 ^ (64 * length ws)"
    by (rule mult_le_mono2)
  ultimately show ?case
    by (simp add: power_add)
qed

lemma val_update:
  assumes "k < length ws"
  shows "val (ws[k := v]) + 2 ^ (64 * k) * unat (ws ! k) = val ws + 2 ^ (64 * k) * unat v"
  using assms
proof (induction ws arbitrary: k)
  case Nil
  then show ?case by simp
next
  case (Cons w ws)
  show ?case
  proof (cases k)
    case 0
    then show ?thesis by simp
  next
    case (Suc m)
    with Cons.prems have "m < length ws" by simp
    from Cons.IH [OF this]
    have "2 ^ 64 * (val (ws[m := v]) + 2 ^ (64 * m) * unat (ws ! m)) =
          2 ^ 64 * (val ws + 2 ^ (64 * m) * unat v)"
      by simp
    with Suc show ?thesis
      by (simp add: power_add algebra_simps)
  qed
qed

lemma val_inject: "length xs = length ys \<Longrightarrow> val xs = val ys \<Longrightarrow> xs = ys"
proof (induction xs ys rule: list_induct2)
  case Nil
  then show ?case by simp
next
  case (Cons x xs y ys)
  have x: "unat x < 2 ^ 64" and y: "unat y < 2 ^ 64"
    by (rule unat_u64_less)+
  have "(unat x + 2 ^ 64 * val xs) mod 2 ^ 64 = (unat y + 2 ^ 64 * val ys) mod 2 ^ 64"
    using Cons.prems by simp
  then have "unat x = unat y"
    using x y by simp
  then show ?case
    using Cons by (simp add: word_unat_eq_iff)
qed

section \<open>The word primitives compute what they stand for\<close>

lemma addc_correct:
  assumes "addc a b c = (s, k)"
  shows "unat s + 2 ^ 64 * of_bool k = unat a + unat b + of_bool c"
proof -
  have a: "unat a < 2 ^ 64" and b: "unat b < 2 ^ 64"
    by (rule unat_u64_less)+
  from assms have s: "s = a + b + of_bool c" and k: "k \<longleftrightarrow> a + b < a \<or> a + b + of_bool c < a + b"
    by (auto simp: addc_def Let_def)
  have ab: "unat (a + b) = (unat a + unat b) mod 2 ^ 64"
    by (simp add: unat_word_ariths)
  have abc: "unat s = (unat (a + b) + of_bool c) mod 2 ^ 64"
    by (cases c) (simp_all add: s unat_word_ariths)
  have k': "k \<longleftrightarrow> unat (a + b) < unat a \<or> unat s < unat (a + b)"
    by (simp add: k s word_less_nat_alt)
  show ?thesis
  proof (cases "unat a + unat b < 2 ^ 64")
    case True
    with ab have "unat (a + b) = unat a + unat b" by simp
    with True k' abc a show ?thesis
      by (cases c; cases "unat a + unat b + 1 = 2 ^ 64") auto
  next
    case False
    with ab a b have "unat (a + b) = unat a + unat b - 2 ^ 64"
      by (simp add: mod_if)
    with False k' abc a b show ?thesis
      by (cases c) auto
  qed
qed

lemma subb_correct:
  assumes "subb a b c = (s, k)"
  shows "unat s + unat b + of_bool c = unat a + 2 ^ 64 * of_bool k"
proof -
  have a: "unat a < 2 ^ 64" and b: "unat b < 2 ^ 64"
    by (rule unat_u64_less)+
  from assms have s: "s = a - b - of_bool c" and k: "k \<longleftrightarrow> a < b \<or> a - b < of_bool c"
    by (auto simp: subb_def Let_def)
  have ab: "unat (a - b) = (if b \<le> a then unat a - unat b else unat a + 2 ^ 64 - unat b)"
    by (simp add: unat_sub_if' word_le_nat_alt)
  have abc: "unat s = (if of_bool c \<le> a - b then unat (a - b) - of_bool c
                       else unat (a - b) + 2 ^ 64 - of_bool c)"
    by (cases c) (simp_all add: s unat_sub_if' word_le_nat_alt)
  have le: "of_bool c \<le> a - b \<longleftrightarrow> (of_bool c :: nat) \<le> unat (a - b)"
    by (cases c) (simp_all add: word_le_nat_alt)
  have lt: "a - b < of_bool c \<longleftrightarrow> unat (a - b) < (of_bool c :: nat)"
    by (cases c) (simp_all add: word_less_nat_alt)
  show ?thesis
    using a b ab abc le lt
    by (cases c; cases "b \<le> a") (auto simp: k word_le_nat_alt word_less_nat_alt)
qed

lemma mulx_correct:
  assumes "mulx x y = (hi, lo)"
  shows "unat lo + 2 ^ 64 * unat hi = unat x * unat y"
proof -
  have "unat x * unat y \<le> (2 ^ 64 - 1) * (2 ^ 64 - 1)"
    using unat_u64_less [of x] unat_u64_less [of y] by (intro mult_le_mono) auto
  then have lt: "unat x * unat y < 2 ^ 128"
    by simp
  have up: "unat (ucast w :: u128) = unat w" for w :: u64
    using unat_u64_less [of w] by (simp add: unsigned_ucast_eq take_bit_nat_eq_self)
  have p: "unat (ucast x * ucast y :: u128) = unat x * unat y"
    using lt by (simp add: unat_word_ariths up)
  have "unat lo = unat x * unat y mod 2 ^ 64"
    using assms p by (auto simp: mulx_def Let_def unsigned_ucast_eq take_bit_eq_mod)
  moreover have "unat hi = unat x * unat y div 2 ^ 64"
    using assms p lt
    by (auto simp: mulx_def Let_def unsigned_ucast_eq take_bit_eq_mod drop_bit_eq_div unat_div
        less_mult_imp_div_less)
  ultimately show ?thesis by simp
qed

section \<open>Four-word addition, subtraction and comparison\<close>

lemma val_nth4:
  assumes "length x = 4"
  shows "val x = unat (x ! 0) + 2 ^ 64 * (unat (x ! 1) + 2 ^ 64 * (unat (x ! 2) + 2 ^ 64 * unat (x ! 3)))"
proof -
  from assms obtain a b c d where "x = [a, b, c, d]"
    by (auto simp: length_Suc_conv eval_nat_numeral)
  then show ?thesis by simp
qed

lemma addc256_correct:
  assumes "length x = 4" and "length y = 4" and "addc256 x y = (s, k)"
  shows "val s + 2 ^ 256 * of_bool k = val x + val y" and "length s = 4"
proof -
  obtain w0 c0 where a0: "addc (x ! 0) (y ! 0) False = (w0, c0)" by fastforce
  obtain w1 c1 where a1: "addc (x ! 1) (y ! 1) c0 = (w1, c1)" by fastforce
  obtain w2 c2 where a2: "addc (x ! 2) (y ! 2) c1 = (w2, c2)" by fastforce
  obtain w3 c3 where a3: "addc (x ! 3) (y ! 3) c2 = (w3, c3)" by fastforce
  from assms(3) a0 a1 a2 a3 have s: "s = [w0, w1, w2, w3]" and k: "k = c3"
    by (simp_all add: addc256_def)
  show "val s + 2 ^ 256 * of_bool k = val x + val y"
    using addc_correct [OF a0] addc_correct [OF a1] addc_correct [OF a2] addc_correct [OF a3]
    by (simp add: s k val_nth4 assms)
  show "length s = 4"
    by (simp add: s)
qed

lemma subb256_correct:
  assumes "length x = 4" and "length y = 4" and "subb256 x y = (d, k)"
  shows "val d + val y = val x + 2 ^ 256 * of_bool k" and "length d = 4"
proof -
  obtain w0 c0 where a0: "subb (x ! 0) (y ! 0) False = (w0, c0)" by fastforce
  obtain w1 c1 where a1: "subb (x ! 1) (y ! 1) c0 = (w1, c1)" by fastforce
  obtain w2 c2 where a2: "subb (x ! 2) (y ! 2) c1 = (w2, c2)" by fastforce
  obtain w3 c3 where a3: "subb (x ! 3) (y ! 3) c2 = (w3, c3)" by fastforce
  from assms(3) a0 a1 a2 a3 have d: "d = [w0, w1, w2, w3]" and k: "k = c3"
    by (simp_all add: subb256_def)
  show "val d + val y = val x + 2 ^ 256 * of_bool k"
    using subb_correct [OF a0] subb_correct [OF a1] subb_correct [OF a2] subb_correct [OF a3]
    by (simp add: d k val_nth4 assms)
  show "length d = 4"
    by (simp add: d)
qed

lemma less256_correct:
  assumes "length x = 4" and "length y = 4"
  shows "less256 x y \<longleftrightarrow> val x < val y"
proof -
  obtain d k where dk: "subb256 x y = (d, k)" by fastforce
  have "val d < 2 ^ 256" "val x < 2 ^ 256" "val y < 2 ^ 256"
    using val_less [of d] val_less [of x] val_less [of y] subb256_correct(2) [OF assms dk] assms
    by simp_all
  then show ?thesis
    using subb256_correct(1) [OF assms dk] by (cases k) (auto simp: less256_def dk)
qed

section \<open>Multiplication\<close>

lemma mul_step:
  assumes "mulx x y = (hi, lo)" and "addc lo r False = (s0, c0)" and "addc s0 c False = (s1, c1)"
    and "addc hi (of_bool c0) c1 = (s2, c2)"
  shows "unat s1 + 2 ^ 64 * unat s2 = unat x * unat y + unat r + unat c"
proof -
  have xy: "unat x * unat y \<le> (2 ^ 64 - 1) * (2 ^ 64 - 1)"
    using unat_u64_less [of x] unat_u64_less [of y] by (intro mult_le_mono) auto
  have m: "unat lo + 2 ^ 64 * unat hi = unat x * unat y"
    by (rule mulx_correct [OF assms(1)])
  have e0: "unat s0 + 2 ^ 64 * of_bool c0 = unat lo + unat r"
    and e1: "unat s1 + 2 ^ 64 * of_bool c1 = unat s0 + unat c"
    and e2: "unat s2 + 2 ^ 64 * of_bool c2 = unat hi + of_bool c0 + of_bool c1"
    using addc_correct [OF assms(2)] addc_correct [OF assms(3)] addc_correct [OF assms(4)]
    by (auto simp: of_bool_def)
  have "\<not> c2"
  proof
    assume c2
    with m e0 e1 e2 xy unat_u64_less [of r] unat_u64_less [of c] show False
      by simp
  qed
  with m e0 e1 e2 show ?thesis by simp
qed

lemma mul_row_correct:
  assumes "mul_row R y xs k c res = (res', c')" and "length res = R" and "k \<le> R"
  shows "length res' = R"
    and "\<exists>q. val res' + 2 ^ (64 * min R (k + length xs)) * unat c' + 2 ^ (64 * R) * q =
             val res + 2 ^ (64 * k) * (unat c + unat y * val xs)"
    and "\<forall>i. k + length xs \<le> i \<longrightarrow> res' ! i = res ! i"
  using assms
proof (induction R y xs k c res arbitrary: res' c' rule: mul_row.induct)
  case (1 R yj k carry result)
  {
    case 1
    then show ?case by simp
  next
    case 2
    then show ?case by (auto simp: min_absorb2)
  next
    case 3
    then show ?case by simp
  }
next
  case (2 R yj xi xs k carry result)
  obtain hi lo where m: "mulx xi yj = (hi, lo)" by fastforce
  obtain s0 c0 where a0: "addc lo (result ! k) False = (s0, c0)" by fastforce
  obtain s1 c1 where a1: "addc s0 carry False = (s1, c1)" by fastforce
  obtain s2 c2 where a2: "addc hi (of_bool c0) c1 = (s2, c2)" by fastforce
  note step = mul_step [OF m a0 a1 a2]
  note IH = "2.IH" [OF _ m [symmetric] refl a0 [symmetric] refl a1 [symmetric] refl a2 [symmetric] refl]
  {
    case 1
    then show ?case
      using IH(1) by (cases "k < R") (auto simp: m a0 a1 a2)
  next
    case 2
    show ?case
    proof (cases "k < R")
      case True
      with 2 have rec: "mul_row R yj xs (Suc k) s2 (result[k := s1]) = (res', c')"
        by (simp add: m a0 a1 a2)
      have len: "length (result[k := s1]) = R"
        using 2 by simp
      from IH(2) [OF True rec len] True obtain q where
        "val res' + 2 ^ (64 * min R (Suc k + length xs)) * unat c' + 2 ^ (64 * R) * q =
         val (result[k := s1]) + 2 ^ (64 * Suc k) * (unat s2 + unat yj * val xs)"
        by auto
      moreover have "val (result[k := s1]) + 2 ^ (64 * k) * unat (result ! k) =
          val result + 2 ^ (64 * k) * unat s1"
        using True 2 by (intro val_update) simp
      moreover have "2 ^ (64 * k) * (unat s1 + 2 ^ 64 * unat s2) =
          2 ^ (64 * k) * (unat xi * unat yj + unat (result ! k) + unat carry)"
        using step by simp
      ultimately have "val res' + 2 ^ (64 * min R (k + length (xi # xs))) * unat c' + 2 ^ (64 * R) * q =
          val result + 2 ^ (64 * k) * (unat carry + unat yj * val (xi # xs))"
        by (simp add: power_add algebra_simps)
      then show ?thesis by blast
    next
      case False
      with 2 have "res' = result" "c' = carry" "k = R" by auto
      then show ?thesis
        by (auto intro: exI [of _ "unat yj * val (xi # xs)"] simp: algebra_simps)
    qed
  next
    case 3
    show ?case
    proof (cases "k < R")
      case True
      with 3 have rec: "mul_row R yj xs (Suc k) s2 (result[k := s1]) = (res', c')"
        by (simp add: m a0 a1 a2)
      from IH(3) [OF True rec] True 3 show ?thesis by simp
    next
      case False
      with 3 show ?thesis by simp
    qed
  }
qed

lemma val_zero_above:
  assumes "\<forall>i. n \<le> i \<longrightarrow> i < length ws \<longrightarrow> ws ! i = 0" and "n \<le> length ws"
  shows "val ws = val (take n ws)"
proof -
  have "drop n ws = replicate (length ws - n) 0"
    using assms by (intro nth_equalityI) auto
  then have "val (drop n ws) = 0" by simp
  then show ?thesis
    using val_append [of "take n ws" "drop n ws"] by simp
qed

lemma mul_rows_correct:
  assumes "length res = R" and "j + length ys \<le> R"
    and "\<forall>i. j + length x \<le> i \<longrightarrow> i < R \<longrightarrow> res ! i = 0"
  shows "length (mul_rows R x ys j res) = R \<and>
         (\<exists>q. val (mul_rows R x ys j res) + 2 ^ (64 * R) * q =
              val res + 2 ^ (64 * j) * (val x * val ys))"
  using assms
proof (induction ys arbitrary: j res)
  case Nil
  then show ?case by (auto intro: exI [of _ 0])
next
  case (Cons y ys)
  obtain row c where rc: "mul_row R y x j 0 res = (row, c)" by fastforce
  define res' where "res' = (if j + length x < R then row[j + length x := c] else row)"
  have j: "j \<le> R" using Cons.prems by simp
  note row = mul_row_correct [OF rc Cons.prems(1) j]
  from row(2) obtain q where
    q: "val row + 2 ^ (64 * min R (j + length x)) * unat c + 2 ^ (64 * R) * q =
        val res + 2 ^ (64 * j) * (unat y * val x)"
    by auto
  have "\<exists>q'. val res' + 2 ^ (64 * R) * q' = val res + 2 ^ (64 * j) * (unat y * val x)"
  proof (cases "j + length x < R")
    case True
    then have "row ! (j + length x) = 0"
      using row(3) Cons.prems(3) by simp
    with True have "val res' = val row + 2 ^ (64 * (j + length x)) * unat c"
      using val_update [of "j + length x" row c] row(1) by (simp add: res'_def)
    with q True show ?thesis by (intro exI [of _ q]) simp
  next
    case False
    then have "val res' + 2 ^ (64 * R) * (unat c + q) = val res + 2 ^ (64 * j) * (unat y * val x)"
      using q by (simp add: res'_def algebra_simps)
    then show ?thesis by blast
  qed
  then obtain q' where q': "val res' + 2 ^ (64 * R) * q' = val res + 2 ^ (64 * j) * (unat y * val x)"
    by blast
  have len: "length res' = R"
    using row(1) by (simp add: res'_def)
  have zero: "\<forall>i. Suc j + length x \<le> i \<longrightarrow> i < R \<longrightarrow> res' ! i = 0"
    using row(3) Cons.prems(3) by (auto simp: res'_def)
  have "Suc j + length ys \<le> R" using Cons.prems by simp
  from Cons.IH [OF len this zero] obtain r where
    len': "length (mul_rows R x ys (Suc j) res') = R" and
    r: "val (mul_rows R x ys (Suc j) res') + 2 ^ (64 * R) * r =
        val res' + 2 ^ (64 * Suc j) * (val x * val ys)"
    by blast
  have "val (mul_rows R x ys (Suc j) res') + 2 ^ (64 * R) * (r + q') =
        val res + 2 ^ (64 * j) * (val x * val (y # ys))"
    using q' r by (simp add: power_add algebra_simps)
  moreover have "mul_rows R x (y # ys) j res = mul_rows R x ys (Suc j) res'"
    by (simp add: rc res'_def)
  ultimately show ?case using len' by metis
qed

text \<open>The schoolbook loop, with rows beyond the result length cut off, computes the product modulo
  the result's width. The loop writes row \<open>j\<close> only below word \<open>R\<close>, so \<open>N \<le> R\<close> is needed for every row
  to start inside the result.\<close>

lemma truncating_mul_correct:
  assumes "length y \<le> R"
  shows "val (truncating_mul R x y) = (val x * val y) mod 2 ^ (64 * R)"
    and "length (truncating_mul R x y) = R"
proof -
  obtain q where len: "length (truncating_mul R x y) = R" and
    q: "val (truncating_mul R x y) + 2 ^ (64 * R) * q = val x * val y"
    using mul_rows_correct [of "replicate R 0" R 0 y x] assms
    by (auto simp: truncating_mul_def)
  have "val (truncating_mul R x y) < 2 ^ (64 * R)"
    using val_less [of "truncating_mul R x y"] len by simp
  then have "(val (truncating_mul R x y) + 2 ^ (64 * R) * q) mod 2 ^ (64 * R) =
      val (truncating_mul R x y)"
    by simp
  then show "val (truncating_mul R x y) = (val x * val y) mod 2 ^ (64 * R)"
    using q by simp
  show "length (truncating_mul R x y) = R" by (rule len)
qed

section \<open>256-bit words and their four limbs\<close>

definition as_words :: "u256 \<Rightarrow> words" where
  "as_words x = [ucast x, ucast (drop_bit 64 x), ucast (drop_bit 128 x), ucast (drop_bit 192 x)]"

definition of_words :: "words \<Rightarrow> u256" where
  "of_words ws = word_of_nat (val ws)"

lemma length_as_words [simp]: "length (as_words x) = 4"
  by (simp add: as_words_def)

lemma unat_ucast_u64: "unat (ucast (x :: u256) :: u64) = unat x mod 2 ^ 64"
  by (simp add: unsigned_ucast_eq take_bit_eq_mod)

lemma unat_drop_bit_u256: "unat (drop_bit n (x :: u256)) = unat x div 2 ^ n"
  by (simp only: unat_drop_bit_eq) (simp add: drop_bit_eq_div)

lemma split_limbs:
  fixes n :: nat
  shows "n mod B + B * (n div B mod B + B * (n div (B * B) mod B + B * (n div (B * B * B)))) = n"
proof -
  define m1 m2 m3 where "m1 = n div B" and "m2 = m1 div B" and "m3 = m2 div B"
  have "m2 mod B + B * m3 = m2" "m1 mod B + B * m2 = m1" "n mod B + B * m1 = n"
    by (simp_all add: m1_def m2_def m3_def)
  moreover have "n div (B * B) = m2" "n div (B * B * B) = m3"
    by (simp_all add: m1_def m2_def m3_def div_mult2_eq)
  ultimately show ?thesis
    by (simp add: m1_def [symmetric])
qed

lemma val_as_words [simp]: "val (as_words x) = unat x"
proof -
  have "unat x < 2 ^ 192 * 2 ^ 64"
    using unat_u256_less [of x] by simp
  then have "unat x div 2 ^ 192 mod 2 ^ 64 = unat x div 2 ^ 192"
    by (intro mod_less) (simp add: less_mult_imp_div_less)
  with split_limbs [of "unat x" "2 ^ 64"] show ?thesis
    unfolding as_words_def val.simps unat_ucast_u64 unat_drop_bit_u256 by simp
qed

lemma of_words_as_words [simp]: "of_words (as_words x) = x"
  by (simp add: of_words_def)

lemma unat_of_words: "length ws = 4 \<Longrightarrow> unat (of_words ws) = val ws"
  using val_less [of ws] by (simp add: of_words_def unat_of_nat)

lemma as_words_of_words: "length ws = 4 \<Longrightarrow> as_words (of_words ws) = ws"
  by (rule val_inject) (simp_all add: unat_of_words)

end
