(* ===== verification/CheckedMath.thy ===== *)
theory CheckedMath
  imports Uint256 Errors
begin

text \<open>
  \<open>category/execution/ethereum/core/contract/checked_math.cpp\<close>: 256-bit arithmetic that reports
  overflow, underflow and division by zero, computed on the four 64-bit limbs. The lemmas
  \<open>checked_*_eq\<close> relate each operation to arithmetic on natural numbers; everything above this
  theory reasons with those alone.
\<close>

definition checked_add :: "u256 \<Rightarrow> u256 \<Rightarrow> u256 result" where
  "checked_add x y =
     (let (sum, carry) = addc256 (as_words x) (as_words y)
      in if carry then Inl (MathE Overflow) else Inr (of_words sum))"

definition checked_sub :: "u256 \<Rightarrow> u256 \<Rightarrow> u256 result" where
  "checked_sub x y =
     (let (diff, borrow) = subb256 (as_words x) (as_words y)
      in if borrow then Inl (MathE Underflow) else Inr (of_words diff))"

definition checked_mul :: "u256 \<Rightarrow> u256 \<Rightarrow> u256 result" where
  "checked_mul x y =
     (let prod = truncating_mul 8 (as_words x) (as_words y)
      in if prod ! 4 OR prod ! 5 OR prod ! 6 OR prod ! 7 \<noteq> 0 then Inl (MathE Overflow)
         else Inr (of_words [prod ! 0, prod ! 1, prod ! 2, prod ! 3]))"

definition checked_div :: "u256 \<Rightarrow> u256 \<Rightarrow> u256 result" where
  "checked_div x y = (if y = 0 then Inl (MathE DivisionByZero) else Inr (x div y))"

definition checked_mul_div :: "u256 \<Rightarrow> u256 \<Rightarrow> u256 \<Rightarrow> u256 result" where
  "checked_mul_div x y z = tryR (checked_mul x y) (\<lambda>p. checked_div p z)"

section \<open>What the checked operations compute\<close>

lemma checked_add_eq:
  "checked_add x y = (if unat x + unat y < 2 ^ 256 then Inr (x + y) else Inl (MathE Overflow))"
proof -
  obtain s k where sk: "addc256 (as_words x) (as_words y) = (s, k)" by fastforce
  note c = addc256_correct [OF length_as_words length_as_words sk]
  have s: "val s < 2 ^ 256"
    using val_less [of s] c(2) by simp
  have "of_words s = x + y" if "\<not> k"
    unfolding word_unat_eq_iff unat_of_words [OF c(2)]
    using that c(1) s by (simp add: unat_word_ariths)
  moreover have "k \<longleftrightarrow> \<not> unat x + unat y < 2 ^ 256"
    using c(1) s by (cases k) auto
  ultimately show ?thesis
    by (auto simp: checked_add_def sk)
qed

lemma checked_sub_eq:
  "checked_sub x y = (if unat y \<le> unat x then Inr (x - y) else Inl (MathE Underflow))"
proof -
  obtain d k where dk: "subb256 (as_words x) (as_words y) = (d, k)" by fastforce
  note c = subb256_correct [OF length_as_words length_as_words dk]
  have d: "val d < 2 ^ 256"
    using val_less [of d] c(2) by simp
  have k: "k \<longleftrightarrow> \<not> unat y \<le> unat x"
    using c(1) d unat_u256_less [of x] unat_u256_less [of y] by (cases k) auto
  have "of_words d = x - y" if "\<not> k"
    unfolding word_unat_eq_iff unat_of_words [OF c(2)]
    using that c(1) k by (simp add: unat_sub word_le_nat_alt)
  with k show ?thesis
    by (auto simp: checked_sub_def dk)
qed

lemma or4_eq_0: "(a OR b OR c OR d = (0 :: u64)) \<longleftrightarrow> a = 0 \<and> b = 0 \<and> c = 0 \<and> d = 0"
  by (auto simp: or_eq_0_iff)

lemma checked_mul_eq:
  "checked_mul x y = (if unat x * unat y < 2 ^ 256 then Inr (x * y) else Inl (MathE Overflow))"
proof -
  define prod where "prod = truncating_mul 8 (as_words x) (as_words y)"
  have "unat x * unat y < 2 ^ 256 * 2 ^ 256"
    using unat_u256_less [of x] unat_u256_less [of y] by (intro mult_strict_mono) auto
  then have v: "val prod = unat x * unat y"
    using truncating_mul_correct(1) [of "as_words y" 8 "as_words x"]
    by (simp add: prod_def)
  have len: "length prod = 8"
    using truncating_mul_correct(2) [of "as_words y" 8 "as_words x"] by (simp add: prod_def)
  define lo hi where "lo = take 4 prod" and "hi = drop 4 prod"
  have lo: "lo = [prod ! 0, prod ! 1, prod ! 2, prod ! 3]"
    using len by (simp add: lo_def list_eq_iff_nth_eq less_Suc_eq eval_nat_numeral)
  have hi: "hi = [prod ! 4, prod ! 5, prod ! 6, prod ! 7]"
    using len by (simp add: hi_def list_eq_iff_nth_eq less_Suc_eq eval_nat_numeral)
  have vv: "val prod = val lo + 2 ^ 256 * val hi"
    using val_append [of lo hi] len by (simp add: lo_def hi_def)
  have l4: "length lo = 4" using lo by simp
  have "val lo < 2 ^ 256" using val_less [of lo] l4 by simp
  then have small: "unat x * unat y < 2 ^ 256 \<longleftrightarrow> val hi = 0"
    using v vv by (cases "val hi") auto
  have zero: "val hi = 0 \<longleftrightarrow> prod ! 4 OR prod ! 5 OR prod ! 6 OR prod ! 7 = 0"
    unfolding or4_eq_0 hi by (auto simp: unat_eq_0)
  have "of_words lo = x * y" if "val hi = 0"
    unfolding word_unat_eq_iff unat_of_words [OF l4]
    using that v vv small by (simp add: unat_word_ariths)
  then show ?thesis
    unfolding checked_mul_def Let_def prod_def [symmetric] small zero lo [symmetric] by auto
qed

lemma checked_div_eq:
  "checked_div x y = (if y = 0 then Inl (MathE DivisionByZero) else Inr (x div y))"
  by (simp add: checked_div_def)

lemma checked_add_Inr: "checked_add x y = Inr z \<longleftrightarrow> unat z = unat x + unat y"
  using unat_u256_less [of z]
  by (auto simp: checked_add_eq word_unat_eq_iff unat_word_ariths)

lemma checked_sub_Inr: "checked_sub x y = Inr z \<longleftrightarrow> unat x = unat z + unat y"
  by (auto simp: checked_sub_eq word_unat_eq_iff unat_sub word_le_nat_alt)

lemma checked_mul_div_Inr:
  "checked_mul_div x y z = Inr r \<longleftrightarrow>
   z \<noteq> 0 \<and> unat x * unat y < 2 ^ 256 \<and> unat r = unat x * unat y div unat z"
proof (cases "unat x * unat y < 2 ^ 256 \<and> z \<noteq> 0")
  case True
  then have "unat (x * y div z) = unat x * unat y div unat z"
    by (simp add: unat_div unat_word_ariths)
  moreover have "checked_mul_div x y z = Inr (x * y div z)"
    using True by (simp add: checked_mul_div_def checked_mul_eq checked_div_eq)
  ultimately show ?thesis
    using True by (auto simp: word_unat_eq_iff)
next
  case False
  then show ?thesis
    by (auto simp: checked_mul_div_def checked_mul_eq checked_div_eq)
qed


end
