(* ===== verification/Abi.thy ===== *)
theory Abi
  imports Errors
begin

text \<open>
  The Solidity ABI codec of \<open>category/execution/ethereum/core/contract/abi_decode.hpp\<close> and
  \<open>abi_encode.hpp\<close>. Decoders consume a \<open>byte_string_view &\<close>, so the model returns the value with the
  rest of the input. \<open>AbiEncoder\<close> collects a head and a tail and patches the offsets of dynamic values
  at the end; \<open>abi_spec\<close> states the layout of the ABI specification directly, and
  \<open>encode_final_spec\<close> shows that the encoder produces it.
\<close>

section \<open>Decoding\<close>

definition abi_decode_fixed :: "bytes \<Rightarrow> ('a::len word \<times> bytes) result" where
  "abi_decode_fixed enc =
     (if length enc < 32 then Inl (AbiE InputTooShort)
      else let offset = 32 - LENGTH('a) div 8
           in Inr (bytes_word (take (LENGTH('a) div 8) (drop offset enc)), drop 32 enc))"

definition round_up :: "nat \<Rightarrow> nat \<Rightarrow> nat" where
  "round_up x y = (x + (y - 1)) div y * y"

definition abi_decode_dynamic_bytes_tail :: "nat \<Rightarrow> bytes \<Rightarrow> (bytes \<times> bytes) result" where
  "abi_decode_dynamic_bytes_tail N enc =
     tryR (abi_decode_fixed enc) (\<lambda>(len :: u256, enc).
       if len \<noteq> word_of_nat N then Inl (AbiE LengthMismatch)
       else let padded = round_up N 32
            in if length enc < padded then Inl (AbiE InputTooShort)
               else Inr (take N enc, drop padded enc))"

definition abi_decode_bytes_tail :: "nat \<Rightarrow> bytes \<Rightarrow> (bytes \<times> bytes) result" where
  "abi_decode_bytes_tail N enc = abi_decode_dynamic_bytes_tail N enc"

section \<open>Encoding\<close>

definition abi_encode_address :: "address \<Rightarrow> bytes" where
  "abi_encode_address a = replicate 12 0 @ word_bytes a"

definition abi_encode_uint :: "'a::len word \<Rightarrow> bytes" where
  "abi_encode_uint i = replicate (32 - LENGTH('a) div 8) 0 @ word_bytes i"

definition abi_encode_bool :: "bool \<Rightarrow> bytes" where
  "abi_encode_bool b = abi_encode_uint (if b then 1 else 0 :: u64)"

definition abi_encode_bytes :: "bytes \<Rightarrow> bytes" where
  "abi_encode_bytes input =
     (let padding = round_up (length input) 32 - length input
      in abi_encode_uint (word_of_nat (length input) :: u256) @ input @ replicate padding 0)"

definition abi_encode_uint_array :: "'a::len word list \<Rightarrow> bytes" where
  "abi_encode_uint_array arr =
     abi_encode_uint (word_of_nat (length arr) :: u64) @ concat (map abi_encode_uint arr)"

definition abi_encode_address_array :: "address list \<Rightarrow> bytes" where
  "abi_encode_address_array arr =
     abi_encode_uint (word_of_nat (length arr) :: u64) @ concat (map abi_encode_address arr)"

record AbiEncoder =
  enc_head :: bytes
  enc_tail :: bytes
  unresolved_offsets :: "(nat \<times> nat) list"

definition empty_encoder :: AbiEncoder where
  "empty_encoder = \<lparr>enc_head = [], enc_tail = [], unresolved_offsets = []\<rparr>"

definition add_static :: "bytes \<Rightarrow> AbiEncoder \<Rightarrow> AbiEncoder" where
  "add_static data e = e\<lparr>enc_head := enc_head e @ data\<rparr>"

definition add_dynamic :: "bytes \<Rightarrow> AbiEncoder \<Rightarrow> AbiEncoder" where
  "add_dynamic data e =
     e\<lparr>unresolved_offsets := unresolved_offsets e @ [(length (enc_head e), length (enc_tail e))],
       enc_head := enc_head e @ replicate 32 0,
       enc_tail := enc_tail e @ data\<rparr>"

definition add_address :: "address \<Rightarrow> AbiEncoder \<Rightarrow> AbiEncoder" where
  "add_address a = add_static (abi_encode_address a)"

definition add_uint :: "'a::len word \<Rightarrow> AbiEncoder \<Rightarrow> AbiEncoder" where
  "add_uint i = add_static (abi_encode_uint i)"

definition add_bool :: "bool \<Rightarrow> AbiEncoder \<Rightarrow> AbiEncoder" where
  "add_bool b = add_static (abi_encode_bool b)"

definition add_uint_array :: "'a::len word list \<Rightarrow> AbiEncoder \<Rightarrow> AbiEncoder" where
  "add_uint_array arr = add_dynamic (abi_encode_uint_array arr)"

definition add_address_array :: "address list \<Rightarrow> AbiEncoder \<Rightarrow> AbiEncoder" where
  "add_address_array arr = add_dynamic (abi_encode_address_array arr)"

definition add_bytes :: "bytes \<Rightarrow> AbiEncoder \<Rightarrow> AbiEncoder" where
  "add_bytes data = add_dynamic (abi_encode_bytes data)"

text \<open>\<open>std::memcpy\<close> of \<open>data\<close> over the bytes of \<open>buf\<close> from position \<open>pos\<close> on.\<close>

definition overwrite :: "bytes \<Rightarrow> nat \<Rightarrow> bytes \<Rightarrow> bytes" where
  "overwrite buf pos data = take pos buf @ data @ drop (pos + length data) buf"

definition resolve_offset :: "nat \<times> nat \<Rightarrow> bytes \<Rightarrow> bytes" where
  "resolve_offset u head =
     (let (unresolved, tail_cumsum) = u;
          offset = (word_of_nat (length head) + word_of_nat tail_cumsum :: u256)
      in overwrite head unresolved (abi_encode_uint offset))"

definition encode_final :: "AbiEncoder \<Rightarrow> bytes" where
  "encode_final e = fold resolve_offset (unresolved_offsets e) (enc_head e) @ enc_tail e"

section \<open>Round trips of fixed-size values\<close>

lemma length_abi_encode_uint [simp]:
  "LENGTH('a) div 8 \<le> 32 \<Longrightarrow> length (abi_encode_uint (i :: 'a::len word)) = 32"
  by (simp add: abi_encode_uint_def)

lemma length_abi_encode_address [simp]: "length (abi_encode_address a) = 32"
  by (simp add: abi_encode_address_def)

lemma length_abi_encode_bool [simp]: "length (abi_encode_bool b) = 32"
  by (simp add: abi_encode_bool_def)

lemma abi_encode_address_uint: "abi_encode_address a = abi_encode_uint a"
  by (simp add: abi_encode_address_def abi_encode_uint_def)

text \<open>An unsigned integer of any whole number of bytes up to 32 survives encoding and decoding, and
  the decoder consumes exactly one 32 byte slot.\<close>

lemma abi_roundtrip:
  assumes "8 dvd LENGTH('a)" and "LENGTH('a) \<le> 256"
  shows "abi_decode_fixed (abi_encode_uint (i :: 'a::len word) @ rest) = Inr (i, rest)"
proof -
  define n where "n = LENGTH('a) div 8"
  have n: "n \<le> 32" "length (word_bytes i) = n"
    using assms by (auto simp: n_def)
  show ?thesis
    unfolding abi_decode_fixed_def abi_encode_uint_def n_def [symmetric]
    using n bytes_word_word_bytes [OF assms(1), of i] by simp
qed

lemma abi_decode_fixed_short:
  "abi_decode_fixed enc = Inl e \<longleftrightarrow> length enc < 32 \<and> e = AbiE InputTooShort"
  by (auto simp: abi_decode_fixed_def Let_def)

lemma abi_decode_fixed_rest:
  "abi_decode_fixed enc = Inr (x, rest) \<Longrightarrow> rest = drop 32 enc \<and> 32 \<le> length enc"
  by (auto simp: abi_decode_fixed_def Let_def split: if_splits)

lemmas abi_roundtrips [simp] =
  abi_roundtrip [where 'a = 8, simplified]
  abi_roundtrip [where 'a = 32, simplified]
  abi_roundtrip [where 'a = 64, simplified]
  abi_roundtrip [where 'a = 160, simplified]
  abi_roundtrip [where 'a = 256, simplified]

lemma abi_address_roundtrip [simp]:
  "abi_decode_fixed (abi_encode_address a @ rest) = Inr (a, rest)"
  by (simp add: abi_encode_address_uint)

section \<open>Dynamic byte strings\<close>

lemma round_up_least:
  assumes "0 < y"
  shows "y dvd round_up x y" and "x \<le> round_up x y" and "round_up x y < x + y"
proof -
  show "y dvd round_up x y"
    by (simp add: round_up_def)
  define z where "z = x + (y - 1)"
  have "z div y * y + z mod y = z" and "z mod y < y"
    using assms by simp_all
  then have "z < z div y * y + y" and "z div y * y \<le> z"
    by linarith+
  moreover have "z + 1 = x + y"
    using assms by (simp add: z_def)
  ultimately show "x \<le> round_up x y" "round_up x y < x + y"
    unfolding round_up_def z_def [symmetric] by linarith+
qed

lemma length_abi_encode_bytes: "length (abi_encode_bytes bs) = 32 + round_up (length bs) 32"
  using round_up_least(2) [of 32 "length bs"] by (simp add: abi_encode_bytes_def Let_def)

lemma abi_bytes_roundtrip:
  "abi_decode_dynamic_bytes_tail (length bs) (abi_encode_bytes bs @ rest) = Inr (bs, rest)"
proof -
  define pad where "pad = round_up (length bs) 32 - length bs"
  have "length bs \<le> round_up (length bs) 32"
    using round_up_least(2) by simp
  then have padded: "round_up (length bs) 32 = length bs + pad"
    by (simp add: pad_def)
  have "abi_decode_fixed (abi_encode_bytes bs @ rest) =
      (Inr (word_of_nat (length bs), bs @ replicate pad 0 @ rest) :: (u256 \<times> bytes) result)"
    unfolding abi_encode_bytes_def Let_def pad_def [symmetric] by simp
  then show ?thesis
    by (simp add: abi_decode_dynamic_bytes_tail_def padded)
qed

section \<open>The encoder produces the layout of the ABI specification\<close>

datatype abi_item = Static bytes | Dynamic bytes

fun add_item :: "abi_item \<Rightarrow> AbiEncoder \<Rightarrow> AbiEncoder" where
  "add_item (Static d) e = add_static d e"
| "add_item (Dynamic d) e = add_dynamic d e"

fun item_tail :: "abi_item \<Rightarrow> bytes" where
  "item_tail (Static d) = []"
| "item_tail (Dynamic d) = d"

text \<open>\<open>abi_heads H t items\<close>: the head slots, where \<open>H\<close> is the length of the whole head and \<open>t\<close> the
  length of the tails before the first item.\<close>

fun abi_heads :: "nat \<Rightarrow> nat \<Rightarrow> abi_item list \<Rightarrow> bytes" where
  "abi_heads H t [] = []"
| "abi_heads H t (Static d # is) = d @ abi_heads H t is"
| "abi_heads H t (Dynamic d # is) =
     abi_encode_uint (word_of_nat (H + t) :: u256) @ abi_heads H (t + length d) is"

definition abi_spec :: "abi_item list \<Rightarrow> bytes" where
  "abi_spec items = abi_heads (32 * length items) 0 items @ concat (map item_tail items)"

fun raw_head :: "abi_item \<Rightarrow> bytes" where
  "raw_head (Static d) = d"
| "raw_head (Dynamic d) = replicate 32 0"

fun item_ok :: "abi_item \<Rightarrow> bool" where
  "item_ok (Static d) = (length d = 32)"
| "item_ok (Dynamic d) = True"

fun item_offsets :: "nat \<Rightarrow> nat \<Rightarrow> abi_item list \<Rightarrow> (nat \<times> nat) list" where
  "item_offsets h t [] = []"
| "item_offsets h t (Static d # is) = item_offsets (h + length d) t is"
| "item_offsets h t (Dynamic d # is) = (h, t) # item_offsets (h + 32) (t + length d) is"

lemma fold_add_item:
  "enc_head (fold add_item items e) = enc_head e @ concat (map raw_head items)"
  "enc_tail (fold add_item items e) = enc_tail e @ concat (map item_tail items)"
  "unresolved_offsets (fold add_item items e) =
     unresolved_offsets e @ item_offsets (length (enc_head e)) (length (enc_tail e)) items"
proof (induction items arbitrary: e)
  case (Cons i items)
  {
    case 1
    show ?case using Cons(1) by (cases i) (simp_all add: add_static_def add_dynamic_def)
  next
    case 2
    show ?case using Cons(2) by (cases i) (simp_all add: add_static_def add_dynamic_def)
  next
    case 3
    show ?case using Cons(3) by (cases i) (simp_all add: add_static_def add_dynamic_def)
  }
qed simp_all

lemma length_raw_head: "item_ok i \<Longrightarrow> length (raw_head i) = 32"
  by (cases i) auto

lemma length_concat_raw_head:
  "list_all item_ok items \<Longrightarrow> length (concat (map raw_head items)) = 32 * length items"
  by (induction items) (auto simp: length_raw_head)

lemma resolve_all:
  assumes "list_all item_ok items"
    and "length pre + length (concat (map raw_head items)) = H"
  shows "fold resolve_offset (item_offsets (length pre) t items) (pre @ concat (map raw_head items)) =
         pre @ abi_heads H t items"
  using assms
proof (induction items arbitrary: pre t)
  case Nil
  then show ?case by simp
next
  case (Cons i items)
  show ?case
  proof (cases i)
    case (Static d)
    with Cons.prems Cons.IH [of "pre @ d" t] show ?thesis by simp
  next
    case (Dynamic d)
    define raw where "raw = concat (map raw_head items)"
    have H: "length pre + (32 + length raw) = H"
      using Cons.prems Dynamic by (simp add: raw_def)
    have "resolve_offset (length pre, t) (pre @ replicate 32 0 @ raw) =
        pre @ abi_encode_uint (word_of_nat (H + t) :: u256) @ raw"
      using H by (simp add: resolve_offset_def overwrite_def)
    with Cons.prems Cons.IH [of "pre @ abi_encode_uint (word_of_nat (H + t) :: u256)" "t + length d"]
    show ?thesis
      using Dynamic H by (simp add: raw_def)
  qed
qed

lemma encode_final_spec:
  assumes "list_all item_ok items"
  shows "encode_final (fold add_item items empty_encoder) = abi_spec items"
  using resolve_all [OF assms, of "[]" _ 0] length_concat_raw_head [OF assms]
  by (simp add: encode_final_def fold_add_item empty_encoder_def abi_spec_def)

text \<open>C27. What is encoded can be decoded: an unsigned integer or an address followed by any bytes, and a byte string
  in its padded encoding, are read back together with the remaining input.\<close>

theorem abi_decodes_what_it_encodes:
  "abi_decode_fixed (abi_encode_uint (n :: u64) @ rest) = Inr (n, rest) \<and>
   abi_decode_fixed (abi_encode_uint (m :: u256) @ rest) = Inr (m, rest) \<and>
   abi_decode_fixed (abi_encode_address a @ rest) = Inr (a, rest) \<and>
   abi_decode_dynamic_bytes_tail (length bs) (abi_encode_bytes bs @ rest) = Inr (bs, rest)"
  by (simp add: abi_bytes_roundtrip)

text \<open>C26. The encoder, which appends heads and tails in one pass and fills in the offsets of the dynamic
  arguments at the end, produces the encoding that the specification of the ABI defines: the heads of all
  arguments, with the position of each dynamic argument, followed by the tails.\<close>

theorem encoder_meets_abi_spec:
  assumes "list_all item_ok items"
  shows "encode_final (fold add_item items empty_encoder) = abi_spec items"
  by (rule encode_final_spec [OF assms])

end
