(* ===== verification/CoreTypes.thy ===== *)
theory CoreTypes
  imports Errors
begin

text \<open>
  The data of the execution client, under \<open>ethereum/core\<close>: accounts with their incarnation, signatures,
  transactions with access and authorization lists, withdrawals, logs and receipts, block headers and
  blocks. A fixed-size byte string is a word read as a big-endian number where the code uses it as a
  key or a hash, and a list of bytes where it is data (the bloom filter, the nonce of a header).

  The results: an incarnation survives its packing into 64 bits, a signature its legacy \<open>v\<close> value, and a
  bloom filter holds what was added to it.
\<close>

unbundle bit_operations_syntax

section \<open>Accounts\<close>

record Incarnation =
  inc_block :: "40 word"
  inc_tx :: "24 word"

definition new_Incarnation :: "u64 \<Rightarrow> u64 \<Rightarrow> Incarnation" where
  "new_Incarnation block tx = \<lparr>inc_block = ucast (block AND 0xFFFFFFFFFF), inc_tx = ucast (tx AND 0xFFFFFF)\<rparr>"

definition LAST_TX :: u64 where
  "LAST_TX = push_bit 24 1 - 1"

definition get_block :: "Incarnation \<Rightarrow> u64" where
  "get_block i = ucast (inc_block i)"

definition get_tx :: "Incarnation \<Rightarrow> u64" where
  "get_tx i = ucast (inc_tx i)"

text \<open>The bit fields of the class fill a word from its low end.\<close>

definition to_int :: "Incarnation \<Rightarrow> u64" where
  "to_int i = ucast (inc_block i) OR push_bit 40 (ucast (inc_tx i))"

definition from_int :: "u64 \<Rightarrow> Incarnation" where
  "from_int n = \<lparr>inc_block = ucast n, inc_tx = ucast (drop_bit 40 n)\<rparr>"

definition NULL_HASH :: bytes32 where
  "NULL_HASH = 0xc5d2460186f7233c927e7db2dcc703c0e500b653ca82273b7bfad8045d85a470"

definition NULL_LIST_HASH :: bytes32 where
  "NULL_LIST_HASH = 0x1dcc4de8dec75d7aab85b567b6ccd41ad312451b948a7413f0a142fd40d49347"

definition NULL_ROOT :: bytes32 where
  "NULL_ROOT = 0x56e81f171bcc55a6ff8345e692c0f86e5b48e01b996cadc001622fb5e363b421"

record Account =
  balance :: u256
  code_hash :: bytes32
  nonce :: u64
  incarnation :: Incarnation

definition is_empty :: "Account \<Rightarrow> bool" where
  "is_empty account \<longleftrightarrow> code_hash account = NULL_HASH \<and> nonce account = 0 \<and> balance account = 0"

definition is_dead :: "Account option \<Rightarrow> bool" where
  "is_dead account \<longleftrightarrow> (case account of None \<Rightarrow> True | Some a \<Rightarrow> is_empty a)"

section \<open>Signatures\<close>

record SignatureAndChain =
  sig_r :: u256
  sig_s :: u256
  chain_id :: "u256 option"
  y_parity :: u8

definition secp256k1_order :: u256 where
  "secp256k1_order = 0xfffffffffffffffffffffffffffffffebaaedce6af48a03bbfd25e8cd0364141"

definition secp256k1_order_half :: u256 where
  "secp256k1_order_half = secp256k1_order div 2"

definition empty_signature :: SignatureAndChain where
  "empty_signature = \<lparr>sig_r = 0, sig_s = 0, chain_id = None, y_parity = 0\<rparr>"

definition from_v :: "u256 \<Rightarrow> SignatureAndChain \<Rightarrow> SignatureAndChain" where
  "from_v v sc =
     (if v = 28 then sc\<lparr>y_parity := 1\<rparr>
      else if v = 27 then sc\<lparr>y_parity := 0\<rparr>
      else let tmp = v - 35;
               (sc, tmp) = (if tmp AND 1 \<noteq> 0 then (sc\<lparr>y_parity := 1\<rparr>, tmp XOR 1) else (sc, tmp))
           in sc\<lparr>chain_id := Some (drop_bit 1 tmp)\<rparr>)"

definition max_chain_id :: u256 where
  "max_chain_id = (- 1 - 36) div 2"

definition get_v :: "SignatureAndChain \<Rightarrow> u256 result" where
  "get_v sc =
     (case chain_id sc of
        Some c \<Rightarrow> if \<not> c \<le> max_chain_id then Inl (Thrown ''get_v: chain_id out of bounds'')
                   else Inr (c * 2 + 35 + ucast (y_parity sc))
      | None \<Rightarrow> Inr (if y_parity sc \<noteq> 0 then 28 else 27))"

definition has_upper_s :: "SignatureAndChain \<Rightarrow> bool" where
  "has_upper_s sc \<longleftrightarrow> sig_s sc > secp256k1_order_half"

definition signature_is_valid :: "SignatureAndChain \<Rightarrow> bool" where
  "signature_is_valid sc =
     (if sig_r sc = 0 \<or> sig_s sc = 0 then False
      else if sig_r sc \<ge> secp256k1_order \<or> sig_s sc \<ge> secp256k1_order then False
      else if has_upper_s sc then False
      else True)"

section \<open>Transactions\<close>

datatype transaction_type = legacy | eip2930 | eip1559 | eip4844 | eip7702

record AccessEntry =
  access_address :: address
  access_keys :: "bytes32 list"

record AuthorizationEntry =
  auth_sc :: SignatureAndChain
  authority_code :: address
  auth_nonce :: u64

record transaction =
  tx_sc :: SignatureAndChain
  tx_nonce :: u64
  tx_max_fee_per_gas :: u256
  tx_gas_limit :: u64
  tx_value :: u256
  tx_to :: "address option"
  tx_type :: transaction_type
  tx_data :: bytes
  tx_access_list :: "AccessEntry list"
  tx_max_priority_fee_per_gas :: u256
  tx_max_fee_per_blob_gas :: u256
  tx_blob_versioned_hashes :: "bytes32 list"
  tx_authorization_list :: "AuthorizationEntry list"

definition empty_transaction :: transaction where
  "empty_transaction = \<lparr>tx_sc = empty_signature, tx_nonce = 0, tx_max_fee_per_gas = 0, tx_gas_limit = 0, tx_value = 0,
     tx_to = None, tx_type = legacy, tx_data = [], tx_access_list = [], tx_max_priority_fee_per_gas = 0,
     tx_max_fee_per_blob_gas = 0, tx_blob_versioned_hashes = [], tx_authorization_list = []\<rparr>"

section \<open>Withdrawals, receipts and blocks\<close>

record Withdrawal =
  wd_index :: u64
  wd_validator_index :: u64
  wd_amount :: u64
  wd_recipient :: address

record Log =
  log_address :: address
  topics :: "bytes32 list"
  log_data :: bytes

record Receipt =
  rc_bloom :: bytes
  rc_status :: u64
  rc_gas_used :: u64
  rc_type :: transaction_type
  rc_logs :: "Log list"

record BlockHeader =
  logs_bloom :: bytes
  parent_hash :: bytes32
  ommers_hash :: bytes32
  state_root :: bytes32
  transactions_root :: bytes32
  receipts_root :: bytes32
  prev_randao :: bytes32
  difficulty :: u256
  hd_number :: u64
  hd_gas_limit :: u64
  hd_gas_used :: u64
  hd_timestamp :: u64
  hd_nonce :: bytes
  extra_data :: bytes
  beneficiary :: address
  base_fee_per_gas :: "u256 option"
  withdrawals_root :: "bytes32 option"
  blob_gas_used :: "u64 option"
  excess_blob_gas :: "u64 option"
  parent_beacon_block_root :: "bytes32 option"
  requests_hash :: "bytes32 option"

record Block =
  bl_header :: BlockHeader
  bl_transactions :: "transaction list"
  bl_ommers :: "BlockHeader list"
  bl_withdrawals :: "Withdrawal list option"

text \<open>The bloom filter of a receipt; the hash function is a parameter.\<close>

definition bloom_bit :: "bytes \<Rightarrow> nat \<Rightarrow> nat" where
  "bloom_bit hash i = unat ((bytes_word (take 2 (drop (i * 2) hash)) :: 16 word) AND 2047)"

definition set_bloom_bit :: "nat \<Rightarrow> bytes \<Rightarrow> bytes" where
  "set_bloom_bit n bloom =
     (let byte = 255 - n div 8 in bloom[byte := bloom ! byte OR push_bit (n mod 8) 1])"

definition set_3_bits :: "(bytes \<Rightarrow> bytes32) \<Rightarrow> bytes \<Rightarrow> bytes \<Rightarrow> bytes" where
  "set_3_bits keccak256 bs bloom =
     (let hash = word_bytes (keccak256 bs)
      in foldl (\<lambda>bloom i. set_bloom_bit (bloom_bit hash i) bloom) bloom [0, 1, 2])"

definition populate_bloom :: "(bytes \<Rightarrow> bytes32) \<Rightarrow> Log \<Rightarrow> bytes \<Rightarrow> bytes" where
  "populate_bloom keccak256 l bloom =
     foldl (\<lambda>bloom t. set_3_bits keccak256 (word_bytes t) bloom)
       (set_3_bits keccak256 (word_bytes (log_address l)) bloom) (topics l)"

definition add_log :: "(bytes \<Rightarrow> bytes32) \<Rightarrow> Log \<Rightarrow> Receipt \<Rightarrow> Receipt" where
  "add_log keccak256 l r =
     r\<lparr>rc_logs := rc_logs r @ [l], rc_bloom := populate_bloom keccak256 l (rc_bloom r)\<rparr>"

section \<open>Packed incarnations and legacy signatures\<close>

lemma from_int_to_int [simp]: "from_int (to_int i) = i"
proof -
  have "ucast (to_int i) = inc_block i" "ucast (drop_bit 40 (to_int i)) = inc_tx i"
    by (rule bit_word_eqI; auto simp: to_int_def bit_simps dest: bit_imp_le_length)+
  then show ?thesis
    by (simp add: from_int_def)
qed

lemma to_int_from_int [simp]: "to_int (from_int n) = n"
proof (rule bit_word_eqI)
  fix k :: nat
  assume "k < LENGTH(64)"
  then show "bit (to_int (from_int n)) k \<longleftrightarrow> bit n k"
    by (cases "k < 40") (auto simp: to_int_def from_int_def bit_simps)
qed

lemma new_Incarnation_get [simp]:
  "unat b < 2 ^ 40 \<Longrightarrow> get_block (new_Incarnation b t) = b"
  "unat t < 2 ^ 24 \<Longrightarrow> get_tx (new_Incarnation b t) = t"
proof -
  have "(x :: u64) AND 0xFFFFFFFFFF = take_bit 40 x" "x AND 0xFFFFFF = take_bit 24 x" for x
    by (simp_all add: take_bit_eq_mask mask_numeral)
  moreover have "take_bit n x = x" if "unat x < 2 ^ n" for n and x :: u64
    using that by (simp add: word_unat_eq_iff unsigned_take_bit_eq take_bit_nat_eq_self)
  moreover have "ucast (ucast (x :: u64) :: 40 word) = take_bit 40 x" "ucast (ucast (x :: u64) :: 24 word) = take_bit 24 x" for x
    by (rule bit_word_eqI; auto simp: bit_simps)+
  ultimately show "unat b < 2 ^ 40 \<Longrightarrow> get_block (new_Incarnation b t) = b" "unat t < 2 ^ 24 \<Longrightarrow> get_tx (new_Incarnation b t) = t"
    by (simp_all add: new_Incarnation_def get_block_def get_tx_def)
qed

lemma max_chain_id_unat: "unat max_chain_id = 2 ^ 255 - 19"
  by (simp add: max_chain_id_def unat_div)

lemma from_v_replay:
  assumes "v \<noteq> 27" and "v \<noteq> 28"
  shows "from_v v sc = sc\<lparr>y_parity := if odd (unat (v - 35)) then 1 else y_parity sc, chain_id := Some (word_of_nat (unat (v - 35) div 2))\<rparr>"
proof -
  define tmp where "tmp = v - 35"
  have o: "tmp AND 1 \<noteq> 0 \<longleftrightarrow> odd (unat tmp)"
    by (simp add: and_one_eq odd_iff_mod_2_eq_one word_unat_eq_iff unat_mod)
  have "unat tmp div 2 < 2 ^ 256"
    using unat_u256_less [of tmp] by simp
  then have h: "drop_bit 1 tmp = word_of_nat (unat tmp div 2)"
    by (simp add: word_unat_eq_iff unat_drop_bit_eq drop_bit_eq_div unat_of_nat unat_div)
  have x: "drop_bit 1 (tmp XOR 1) = drop_bit 1 tmp"
    by (rule bit_word_eqI) (simp add: bit_simps)
  show ?thesis
    using assms by (simp add: from_v_def tmp_def [symmetric] o x [unfolded One_nat_def] h [unfolded One_nat_def])
qed


lemma get_v_replay:
  assumes "chain_id sc = Some c" and "c \<le> max_chain_id" and "y_parity sc \<le> 1"
  shows "get_v sc = Inr v \<longleftrightarrow> unat v = 2 * unat c + 35 + unat (y_parity sc)"
proof -
  define n where "n = 2 * unat c + 35 + unat (y_parity sc)"
  have "n < 2 ^ 256"
    using assms(2,3) by (simp add: n_def word_le_nat_alt max_chain_id_unat)
  moreover have "c * 2 + 35 + ucast (y_parity sc) = word_of_nat n"
    by (simp add: n_def)
  ultimately show ?thesis
    using assms(1,2) by (auto simp: get_v_def n_def [symmetric] unat_of_nat)
qed

lemma get_v_from_v:
  assumes "v = 27 \<or> v = 28 \<or> 35 \<le> v \<and> v \<noteq> - 1" and "y_parity sc = 0" "chain_id sc = None"
  shows "get_v (from_v v sc) = Inr v"
proof -
  consider "v = 27 \<or> v = 28" | "35 \<le> v" "v \<noteq> - 1" using assms(1) by blast
  then show ?thesis
  proof cases
    case 1
    then show ?thesis
      using assms(2,3) by (auto simp: from_v_def get_v_def)
  next
    case 2
    define n where "n = unat v - 35"
    have n: "unat (v - 35) = n" "35 \<le> unat v" "v \<noteq> 27" "v \<noteq> 28"
      using 2(1) by (auto simp: n_def unat_sub word_le_nat_alt)
    have "unat v < 2 ^ 256 - 1"
      using 2(2) unat_u256_less [of v] by (auto simp: word_unat_eq_iff unsigned_minus_1_eq_mask mask_eq_exp_minus_1)
    then have "n div 2 \<le> 2 ^ 255 - 19"
      by (simp add: n_def)
    then have "word_of_nat (n div 2) \<le> max_chain_id" "unat (word_of_nat (n div 2) :: u256) = n div 2"
      by (simp_all add: word_le_nat_alt unat_of_nat max_chain_id_unat)
    then show ?thesis
      using get_v_replay [of "from_v v sc" "word_of_nat (n div 2)" v] n assms(2)
      by (simp add: from_v_replay n_def) presburger
  qed
qed

lemma from_v_get_v:
  assumes "get_v sc = Inr v" and "y_parity sc \<le> 1"
  shows "from_v v (sc\<lparr>y_parity := 0, chain_id := None\<rparr>) = sc"
proof -
  have y: "y_parity sc = (if odd (unat (y_parity sc)) then 1 else 0)"
    using assms(2) by (auto simp: word_le_nat_alt word_unat_eq_iff le_Suc_eq)
  show ?thesis
  proof (cases "chain_id sc")
    case None
    then show ?thesis
      using assms y by (auto simp: get_v_def from_v_def split: if_splits)
  next
    case (Some c)
    then have "c \<le> max_chain_id"
      using assms(1) by (auto simp: get_v_def split: if_splits)
    then have v: "unat v = 2 * unat c + 35 + unat (y_parity sc)"
      using get_v_replay Some assms by blast
    then have "v \<noteq> 27" "v \<noteq> 28" "unat (v - 35) = 2 * unat c + unat (y_parity sc)"
      by (auto simp: word_le_nat_alt unat_sub)
    moreover have "(2 * unat c + unat (y_parity sc)) div 2 = unat c"
      using assms(2) by (simp add: word_le_nat_alt)
    ultimately show ?thesis
      using Some y by (cases sc) (auto simp: from_v_replay)
  qed
qed


lemma get_v_of_from_v:
  assumes "get_v (from_v v sc) = Inr v'" and "y_parity sc = 0" "chain_id sc = None"
  shows "v' = v"
proof (cases "v = 27 \<or> v = 28")
  case True
  then show ?thesis
    using assms by (auto simp: from_v_def get_v_def)
next
  case False
  define n where "n = unat (v - 35)"
  have n: "n < 2 ^ 256" "unat (word_of_nat (n div 2) :: u256) = n div 2"
    using unat_u256_less [of "v - 35"] by (simp_all add: n_def unat_of_nat)
  have r: "from_v v sc = sc\<lparr>y_parity := if odd n then 1 else 0, chain_id := Some (word_of_nat (n div 2))\<rparr>"
    using False assms(2) by (simp add: from_v_replay n_def)
  then have "word_of_nat (n div 2) \<le> max_chain_id"
    using assms(1) by (auto simp: get_v_def split: if_splits)
  then have "unat v' = n + 35"
    using get_v_replay [of "from_v v sc" "word_of_nat (n div 2)" v'] assms(1) n(2) by (simp add: r split: if_splits)
  then have "v' = word_of_nat (n + 35)"
    by (metis of_nat_unat ucast_id)
  then show ?thesis
    by (simp add: n_def)
qed

section \<open>Bloom filters\<close>

definition bloom_test :: "nat \<Rightarrow> bytes \<Rightarrow> bool" where
  "bloom_test n bloom \<longleftrightarrow> bit (bloom ! (255 - n div 8)) (n mod 8)"

definition bloom_bits :: "(bytes \<Rightarrow> bytes32) \<Rightarrow> bytes \<Rightarrow> nat set" where
  "bloom_bits keccak256 bs = bloom_bit (word_bytes (keccak256 bs)) ` {0, 1, 2}"

definition log_bits :: "(bytes \<Rightarrow> bytes32) \<Rightarrow> Log \<Rightarrow> nat set" where
  "log_bits keccak256 l = bloom_bits keccak256 (word_bytes (log_address l)) \<union> (\<Union>t \<in> set (topics l). bloom_bits keccak256 (word_bytes t))"

lemma bloom_bit_less: "bloom_bit hash i < 2048"
proof -
  have "(x :: 16 word) AND 2047 = take_bit 11 x" for x
    by (simp add: take_bit_eq_mask mask_numeral)
  then show ?thesis
    by (simp add: bloom_bit_def unsigned_take_bit_eq take_bit_nat_less_exp [of 11, simplified])
qed

lemma set_bloom_bit_length [simp]: "length (set_bloom_bit n bloom) = length bloom"
  by (simp add: set_bloom_bit_def Let_def)

lemma set_bloom_bit_test:
  assumes "length bloom = 256" and "n < 2048" and "m < 2048"
  shows "bloom_test m (set_bloom_bit n bloom) \<longleftrightarrow> m = n \<or> bloom_test m bloom"
proof -
  have d: "n div 8 \<le> 255" "m div 8 \<le> 255"
    using assms(2,3) by auto
  then have "255 - n div 8 = 255 - m div 8 \<longleftrightarrow> n div 8 = m div 8"
    by auto
  moreover have "m = n \<longleftrightarrow> m div 8 = n div 8 \<and> m mod 8 = n mod 8"
    by (metis div_mult_mod_eq)
  moreover have "bit (push_bit (n mod 8) 1 :: u8) (m mod 8) \<longleftrightarrow> m mod 8 = n mod 8"
    by (auto simp: bit_simps)
  ultimately show ?thesis
    using assms(1) d by (auto simp: bloom_test_def set_bloom_bit_def Let_def nth_list_update bit_or_iff)
qed

lemma set_3_bits_length [simp]: "length (set_3_bits k bs bloom) = length bloom"
  by (simp add: set_3_bits_def Let_def)

lemma set_3_bits_test:
  assumes "length bloom = 256" and "m < 2048"
  shows "bloom_test m (set_3_bits k bs bloom) \<longleftrightarrow> m \<in> bloom_bits k bs \<or> bloom_test m bloom"
  using assms by (auto simp: set_3_bits_def Let_def bloom_bits_def set_bloom_bit_test bloom_bit_less)

lemma populate_bloom_length [simp]: "length (populate_bloom k l bloom) = length bloom"
proof -
  have "length (foldl (\<lambda>bloom t. set_3_bits k (f t) bloom) b ts) = length b" for f b and ts :: "bytes32 list"
    by (induction ts arbitrary: b) simp_all
  then show ?thesis
    by (simp add: populate_bloom_def)
qed

lemma populate_bloom_test:
  assumes "length bloom = 256" and "m < 2048"
  shows "bloom_test m (populate_bloom k l bloom) \<longleftrightarrow> m \<in> log_bits k l \<or> bloom_test m bloom"
proof -
  have "bloom_test m (foldl (\<lambda>bloom t. set_3_bits k (f t) bloom) b ts) \<longleftrightarrow> (\<exists>t \<in> set ts. m \<in> bloom_bits k (f t)) \<or> bloom_test m b"
    if "length b = 256" for f b and ts :: "bytes32 list"
    using that by (induction ts arbitrary: b) (auto simp: set_3_bits_test assms(2))
  then show ?thesis
    using assms by (auto simp: populate_bloom_def log_bits_def set_3_bits_test)
qed

end
