(* ===== verification/StakingState.thy ===== *)
theory StakingState
  imports StakingLayout CheckedMath Abi CoreTypes
begin

text \<open>
  What the staking contract reads and writes besides its own logic: the constants of
  \<open>util/constants.hpp\<close>, the part of \<open>State\<close> (\<open>state3/state.cpp\<close>) that the contract calls, event logs
  (\<open>events.hpp\<close>), and typed access to the storage variables of \<open>StakingLayout\<close> with the helper methods
  of \<open>Delegator\<close>, \<open>ValExecution\<close> and \<open>Variables\<close>.

  \<open>host\<close> is the state of the execution client as the contract sees it: the storage of \<open>STAKING_CA\<close>, the
  accounts, the logs and the incarnation given to accounts that the transaction creates. The account \<open>STAKING_CA\<close> exists whenever its storage
  is accessed; call and state tracers only observe and are left out. The rules
  collected in \<open>storage_simps\<close> evaluate reads after writes.
\<close>

section \<open>Protocol revisions\<close>

datatype monad_revision =
    MONAD_ZERO | MONAD_ONE | MONAD_TWO | MONAD_THREE | MONAD_FOUR | MONAD_FIVE
  | MONAD_SIX | MONAD_SEVEN | MONAD_EIGHT | MONAD_NINE | MONAD_NEXT

fun rev_num :: "monad_revision \<Rightarrow> nat" where
  "rev_num MONAD_ZERO = 0"
| "rev_num MONAD_ONE = 1"
| "rev_num MONAD_TWO = 2"
| "rev_num MONAD_THREE = 3"
| "rev_num MONAD_FOUR = 4"
| "rev_num MONAD_FIVE = 5"
| "rev_num MONAD_SIX = 6"
| "rev_num MONAD_SEVEN = 7"
| "rev_num MONAD_EIGHT = 8"
| "rev_num MONAD_NINE = 9"
| "rev_num MONAD_NEXT = 10"

lemma rev_num_inject: "rev_num r = rev_num s \<longleftrightarrow> r = s"
  by (cases r; cases s) simp_all

instantiation monad_revision :: linorder
begin

definition less_eq_monad_revision :: "monad_revision \<Rightarrow> monad_revision \<Rightarrow> bool" where
  "less_eq_monad_revision r s \<longleftrightarrow> rev_num r \<le> rev_num s"

definition less_monad_revision :: "monad_revision \<Rightarrow> monad_revision \<Rightarrow> bool" where
  "less_monad_revision r s \<longleftrightarrow> rev_num r < rev_num s"

instance
  by standard (auto simp: less_eq_monad_revision_def less_monad_revision_def rev_num_inject)

end

lemmas rev_order = less_eq_monad_revision_def less_monad_revision_def

section \<open>Constants\<close>

definition STAKING_CA :: address where
  "STAKING_CA = 0x1000"

definition SYSTEM_SENDER :: address where
  "SYSTEM_SENDER = 0x6f49a8F621353f12378d0046E7d7e4b9B249DC9e"

definition MON :: u256 where
  "MON = 1000000000000000000"

definition UNIT_BIAS :: u256 where
  "UNIT_BIAS = 1000000000000000000000000000000000000"

definition dust_threshold :: u256 where
  "dust_threshold = 1000000000"

definition max_commission :: u256 where
  "max_commission = MON"

definition active_validator_stake :: "monad_revision \<Rightarrow> u256" where
  "active_validator_stake traits = (if traits \<ge> MONAD_FIVE then 10000000 * MON else 25000000 * MON)"

definition min_auth_address_stake :: u256 where
  "min_auth_address_stake = 100000 * MON"

definition min_external_reward :: u256 where
  "min_external_reward = dust_threshold"

definition max_external_reward :: u256 where
  "max_external_reward = 10000000000000000000000000"

definition active_valset_size :: nat where
  "active_valset_size = 200"

definition array_pagination :: u32 where
  "array_pagination = 100"

definition linked_list_pagination :: "monad_revision \<Rightarrow> u32" where
  "linked_list_pagination traits = (if traits < MONAD_EIGHT then 100 else 50)"

definition withdrawal_delay :: u64 where
  "withdrawal_delay = 1"

definition ValidatorFlagsOk :: u64 where
  "ValidatorFlagsOk = 0"

definition ValidatorFlagsStakeTooLow :: u64 where
  "ValidatorFlagsStakeTooLow = push_bit 0 1"

definition ValidatorFlagWithdrawn :: u64 where
  "ValidatorFlagWithdrawn = push_bit 1 1"

section \<open>The client state\<close>

record host =
  storage :: storage
  accounts :: "address \<Rightarrow> Account option"
  logs :: "Log list"
  tx_incarnation :: Incarnation

definition new_account :: "Incarnation \<Rightarrow> Account" where
  "new_account i = \<lparr>balance = 0, code_hash = NULL_HASH, nonce = 0, incarnation = i\<rparr>"

definition account_or_new :: "address \<Rightarrow> host \<Rightarrow> Account" where
  "account_or_new a h = (case accounts h a of None \<Rightarrow> new_account (tx_incarnation h) | Some acc \<Rightarrow> acc)"

definition account_exists :: "address \<Rightarrow> host \<Rightarrow> bool" where
  "account_exists a h \<longleftrightarrow> accounts h a \<noteq> None"

definition get_nonce :: "address \<Rightarrow> host \<Rightarrow> u64" where
  "get_nonce a h = (case accounts h a of None \<Rightarrow> 0 | Some acc \<Rightarrow> nonce acc)"

definition get_balance :: "address \<Rightarrow> host \<Rightarrow> u256" where
  "get_balance a h = (case accounts h a of None \<Rightarrow> 0 | Some acc \<Rightarrow> balance acc)"

definition set_nonce :: "address \<Rightarrow> u64 \<Rightarrow> host \<Rightarrow> host" where
  "set_nonce a n h = h\<lparr>accounts := (accounts h)(a := Some ((account_or_new a h)\<lparr>nonce := n\<rparr>))\<rparr>"

definition add_to_balance :: "address \<Rightarrow> u256 \<Rightarrow> host \<Rightarrow> host result" where
  "add_to_balance a delta h =
     (let account = account_or_new a h
      in if \<not> - 1 - delta \<ge> balance account then Inl (Thrown ''balance overflow'')
         else Inr (h\<lparr>accounts := (accounts h)(a := Some (account\<lparr>balance := balance account + delta\<rparr>))\<rparr>))"

definition subtract_from_balance :: "address \<Rightarrow> u256 \<Rightarrow> host \<Rightarrow> host result" where
  "subtract_from_balance a delta h =
     (let account = account_or_new a h
      in if \<not> delta \<le> balance account then Inl (Thrown ''balance underflow'')
         else Inr (h\<lparr>accounts := (accounts h)(a := Some (account\<lparr>balance := balance account - delta\<rparr>))\<rparr>))"

definition store_log :: "Log \<Rightarrow> host \<Rightarrow> host" where
  "store_log l h = h\<lparr>logs := logs h @ [l]\<rparr>"

section \<open>Events\<close>

definition event_builder :: "address \<Rightarrow> bytes32 \<Rightarrow> Log" where
  "event_builder account signature = \<lparr>log_address = account, topics = [signature], log_data = []\<rparr>"

definition add_topic :: "bytes32 \<Rightarrow> Log \<Rightarrow> Log" where
  "add_topic topic e = e\<lparr>topics := topics e @ [topic]\<rparr>"

definition add_data :: "bytes \<Rightarrow> Log \<Rightarrow> Log" where
  "add_data data e = e\<lparr>log_data := log_data e @ data\<rparr>"

text \<open>\<open>emit_log\<close> also hands the log to the call tracer, which only observes.\<close>

definition emit_log :: "Log \<Rightarrow> host \<Rightarrow> host" where
  "emit_log l h = store_log l h"

abbreviation topic_uint :: "'a::len word \<Rightarrow> bytes32" where
  "topic_uint x \<equiv> bytes_word (abi_encode_uint x)"

abbreviation topic_address :: "address \<Rightarrow> bytes32" where
  "topic_address a \<equiv> bytes_word (abi_encode_address a)"

section \<open>Access to storage variables\<close>

definition load :: "'a codec \<Rightarrow> svar \<Rightarrow> host \<Rightarrow> 'a" where
  "load c x h = sv_load c (svar_key x) (storage h)"

definition load_checked :: "'a codec \<Rightarrow> svar \<Rightarrow> host \<Rightarrow> 'a option" where
  "load_checked c x h = sv_load_checked c (svar_key x) (storage h)"

definition store :: "'a codec \<Rightarrow> svar \<Rightarrow> 'a \<Rightarrow> host \<Rightarrow> host" where
  "store c x v h = h\<lparr>storage := sv_store c (svar_key x) v (storage h)\<rparr>"

definition clear :: "'a codec \<Rightarrow> svar \<Rightarrow> host \<Rightarrow> host" where
  "clear c x h = h\<lparr>storage := sv_clear c (svar_key x) (storage h)\<rparr>"

definition array_length :: "valset \<Rightarrow> host \<Rightarrow> u64" where
  "array_length vs h = sa_length (valset_slot vs) (storage h)"

definition array_empty :: "valset \<Rightarrow> host \<Rightarrow> bool" where
  "array_empty vs h = sa_empty (valset_slot vs) (storage h)"

definition array_get :: "valset \<Rightarrow> u64 \<Rightarrow> host \<Rightarrow> u64" where
  "array_get vs i h = sv_load u64_be (sa_get u64_be (valset_slot vs) i) (storage h)"

definition array_set :: "valset \<Rightarrow> u64 \<Rightarrow> u64 \<Rightarrow> host \<Rightarrow> host" where
  "array_set vs i v h =
     h\<lparr>storage := sv_store u64_be (sa_get u64_be (valset_slot vs) i) v (storage h)\<rparr>"

definition array_push :: "valset \<Rightarrow> u64 \<Rightarrow> host \<Rightarrow> host" where
  "array_push vs v h = h\<lparr>storage := sa_push u64_be (valset_slot vs) v (storage h)\<rparr>"

definition array_pop :: "valset \<Rightarrow> host \<Rightarrow> (u64 \<times> host) result" where
  "array_pop vs h =
     tryR (sa_pop u64_be (valset_slot vs) (storage h)) (\<lambda>(v, s). Inr (v, h\<lparr>storage := s\<rparr>))"

definition array_contents :: "valset \<Rightarrow> host \<Rightarrow> u64 list" where
  "array_contents vs h = sa_contents u64_be (valset_slot vs) (storage h)"

section \<open>Variables\<close>

abbreviation epoch :: "host \<Rightarrow> u64" where
  "epoch \<equiv> load u64_be Epoch"

abbreviation in_epoch_delay_period :: "host \<Rightarrow> bool" where
  "in_epoch_delay_period \<equiv> load bool_codec InBoundary"

abbreviation last_val_id :: "host \<Rightarrow> u64" where
  "last_val_id \<equiv> load u64_be LastValId"

abbreviation proposer_val_id :: "host \<Rightarrow> u64" where
  "proposer_val_id \<equiv> load u64_be ProposerValId"

definition this_epoch_valset :: "host \<Rightarrow> valset" where
  "this_epoch_valset h = (if load_checked bool_codec InBoundary h \<noteq> None then Snapshot else Consensus)"

definition val_bitset_bucket :: "u64 \<Rightarrow> svar" where
  "val_bitset_bucket val_id = ValBitset (drop_bit 8 val_id)"

definition this_epoch_view_stake :: "u64 \<Rightarrow> host \<Rightarrow> u256" where
  "this_epoch_view_stake val_id h =
     (if load_checked bool_codec InBoundary h \<noteq> None then load u256_be (SnapStake val_id) h
      else load u256_be (ConsStake val_id) h)"

definition this_epoch_view_commission :: "u64 \<Rightarrow> host \<Rightarrow> u256" where
  "this_epoch_view_commission val_id h =
     (if load_checked bool_codec InBoundary h \<noteq> None then load u256_be (SnapCommission val_id) h
      else load u256_be (ConsCommission val_id) h)"

abbreviation withdrawal_request :: "u64 \<Rightarrow> address \<Rightarrow> u8 \<Rightarrow> host \<Rightarrow> WithdrawalRequest" where
  "withdrawal_request v a w \<equiv> load withdrawal_codec (Withdrawal v a w)"

abbreviation accumulator :: "u64 \<Rightarrow> u64 \<Rightarrow> host \<Rightarrow> RefCountedAccumulator" where
  "accumulator e v \<equiv> load accumulator_codec (Accumulator e v)"

section \<open>Delegator\<close>

abbreviation del_stake :: "u64 \<Rightarrow> address \<Rightarrow> host \<Rightarrow> u256" where
  "del_stake v a \<equiv> load u256_be (DStake v a)"

abbreviation del_acc :: "u64 \<Rightarrow> address \<Rightarrow> host \<Rightarrow> u256" where
  "del_acc v a \<equiv> load u256_be (DAcc v a)"

abbreviation del_rewards :: "u64 \<Rightarrow> address \<Rightarrow> host \<Rightarrow> u256" where
  "del_rewards v a \<equiv> load u256_be (DRewards v a)"

abbreviation delta_stake :: "u64 \<Rightarrow> address \<Rightarrow> host \<Rightarrow> u256" where
  "delta_stake v a \<equiv> load u256_be (DDelta v a)"

abbreviation next_delta_stake :: "u64 \<Rightarrow> address \<Rightarrow> host \<Rightarrow> u256" where
  "next_delta_stake v a \<equiv> load u256_be (DNextDelta v a)"

abbreviation epochs :: "u64 \<Rightarrow> address \<Rightarrow> host \<Rightarrow> Epochs" where
  "epochs v a \<equiv> load epochs_codec (DEpochs v a)"

abbreviation list_node :: "u64 \<Rightarrow> address \<Rightarrow> host \<Rightarrow> ListNode" where
  "list_node v a \<equiv> load list_node_codec (DListNode v a)"

definition get_delta_epoch :: "u64 \<Rightarrow> address \<Rightarrow> host \<Rightarrow> u64" where
  "get_delta_epoch v a h = delta_epoch (epochs v a h)"

definition get_next_delta_epoch :: "u64 \<Rightarrow> address \<Rightarrow> host \<Rightarrow> u64" where
  "get_next_delta_epoch v a h = next_delta_epoch (epochs v a h)"

definition get_next_epoch_stake :: "u64 \<Rightarrow> address \<Rightarrow> host \<Rightarrow> u256" where
  "get_next_epoch_stake v a h = del_stake v a h + delta_stake v a h + next_delta_stake v a h"

definition set_delta_epoch :: "u64 \<Rightarrow> address \<Rightarrow> u64 \<Rightarrow> host \<Rightarrow> host" where
  "set_delta_epoch v a d h = store epochs_codec (DEpochs v a) ((epochs v a h)\<lparr>delta_epoch := d\<rparr>) h"

definition set_next_delta_epoch :: "u64 \<Rightarrow> address \<Rightarrow> u64 \<Rightarrow> host \<Rightarrow> host" where
  "set_next_delta_epoch v a d h =
     store epochs_codec (DEpochs v a) ((epochs v a h)\<lparr>next_delta_epoch := d\<rparr>) h"

section \<open>ValExecution\<close>

abbreviation val_stake :: "u64 \<Rightarrow> host \<Rightarrow> u256" where
  "val_stake v \<equiv> load u256_be (VStake v)"

abbreviation val_acc :: "u64 \<Rightarrow> host \<Rightarrow> u256" where
  "val_acc v \<equiv> load u256_be (VAcc v)"

abbreviation val_commission :: "u64 \<Rightarrow> host \<Rightarrow> u256" where
  "val_commission v \<equiv> load u256_be (VCommission v)"

abbreviation val_keys :: "u64 \<Rightarrow> host \<Rightarrow> KeysPacked" where
  "val_keys v \<equiv> load keys_codec (VKeys v)"

abbreviation address_flags :: "u64 \<Rightarrow> host \<Rightarrow> AddressFlags" where
  "address_flags v \<equiv> load address_flags_codec (VAddressFlags v)"

abbreviation unclaimed_rewards :: "u64 \<Rightarrow> host \<Rightarrow> u256" where
  "unclaimed_rewards v \<equiv> load u256_be (VUnclaimed v)"

definition val_auth_address :: "u64 \<Rightarrow> host \<Rightarrow> address" where
  "val_auth_address v h = auth_address (address_flags v h)"

definition get_flags :: "u64 \<Rightarrow> host \<Rightarrow> u64" where
  "get_flags v h = flags (address_flags v h)"

definition set_flag :: "u64 \<Rightarrow> u64 \<Rightarrow> host \<Rightarrow> host" where
  "set_flag v flag h =
     (let af = address_flags v h
      in store address_flags_codec (VAddressFlags v) (af\<lparr>flags := flags af OR flag\<rparr>) h)"

definition clear_flag :: "u64 \<Rightarrow> u64 \<Rightarrow> host \<Rightarrow> host" where
  "clear_flag v flag h =
     (let af = address_flags v h
      in store address_flags_codec (VAddressFlags v) (af\<lparr>flags := flags af AND NOT flag\<rparr>) h)"

definition val_exists :: "u64 \<Rightarrow> host \<Rightarrow> bool" where
  "val_exists v h \<longleftrightarrow> val_auth_address v h \<noteq> 0"

section \<open>Reads after writes\<close>

lemma host_load_store [simp, storage_simps]:
  "load u64_be x (store u64_be x v1 h) = v1"
  "load u256_be x (store u256_be x v2 h) = v2"
  "load bool_codec x (store bool_codec x v3 h) = v3"
  "load epochs_codec x (store epochs_codec x v4 h) = v4"
  "load list_node_codec x (store list_node_codec x v5 h) = v5"
  "load keys_codec x (store keys_codec x v6 h) = v6"
  "load address_flags_codec x (store address_flags_codec x v7 h) = v7"
  "load withdrawal_codec x (store withdrawal_codec x v8 h) = v8"
  "load accumulator_codec x (store accumulator_codec x v9 h) = v9"
  by (simp_all add: load_def store_def sv_u64.load_store sv_u256.load_store sv_bool.load_store
      sv_epochs.load_store sv_node.load_store sv_keys.load_store sv_flags.load_store
      sv_withdrawal.load_store sv_acc.load_store)

lemma host_clear_store [simp, storage_simps]:
  "clear u64_be x h = store u64_be x 0 h"
  "clear u256_be x h = store u256_be x 0 h"
  "clear bool_codec x h = store bool_codec x False h"
  "clear withdrawal_codec x h = store withdrawal_codec x \<lparr>wr_amount = 0, wr_acc = 0, wr_epoch = 0\<rparr> h"
  "clear accumulator_codec x h = store accumulator_codec x \<lparr>ra_value = 0, refcount = 0\<rparr> h"
  by (simp_all add: clear_def store_def sv_u64.clear_store sv_u256.clear_store sv_bool.clear_store
      sv_withdrawal.clear_store sv_acc.clear_store)

lemma load_checked_load:
  "load_checked c x h = Some y \<Longrightarrow> load c x h = y"
  "load_checked withdrawal_codec x h = None \<Longrightarrow> load withdrawal_codec x h = \<lparr>wr_amount = 0, wr_acc = 0, wr_epoch = 0\<rparr>"
  "load_checked accumulator_codec x h = None \<Longrightarrow> load accumulator_codec x h = \<lparr>ra_value = 0, refcount = 0\<rparr>"
proof -
  show "load_checked c x h = Some y \<Longrightarrow> load c x h = y"
    by (auto simp: load_checked_def load_def sv_load_checked_def sv_load_def Let_def split: if_splits)
qed (simp_all add: load_checked_def load_def sv_withdrawal.load_checked_None sv_acc.load_checked_None)

lemma host_load_checked_store [simp, storage_simps]:
  "load_checked u64_be x (store u64_be x v1 h) = (if v1 = 0 then None else Some v1)"
  "load_checked bool_codec x (store bool_codec x v2 h) = (if v2 then Some True else None)"
  "load_checked withdrawal_codec x (store withdrawal_codec x v3 h) =
     (if v3 = \<lparr>wr_amount = 0, wr_acc = 0, wr_epoch = 0\<rparr> then None else Some v3)"
  "load_checked accumulator_codec x (store accumulator_codec x v4 h) =
     (if v4 = \<lparr>ra_value = 0, refcount = 0\<rparr> then None else Some v4)"
  by (simp_all add: load_checked_def store_def sv_u64.load_checked_store sv_bool.load_checked_store
      sv_withdrawal.load_checked_store sv_acc.load_checked_store)

lemma load_frame [simp, storage_simps]:
  assumes "x \<noteq> y" and "sv_slots c = svar_slots x" and "sv_slots d = svar_slots y"
  shows "load c x (store d y v h) = load c x h"
    and "load_checked c x (store d y v h) = load_checked c x h"
  using assms by (simp_all add: load_def load_checked_def store_def sv_frame)

lemma host_frame [simp]:
  "accounts (store c x v h) = accounts h" "logs (store c x v h) = logs h"
  "load c x (h\<lparr>accounts := f\<rparr>) = load c x h" "load c x (h\<lparr>logs := l\<rparr>) = load c x h"
  "load_checked c x (h\<lparr>accounts := f\<rparr>) = load_checked c x h"
  "load_checked c x (h\<lparr>logs := l\<rparr>) = load_checked c x h"
  by (simp_all add: store_def load_def load_checked_def)

lemma emit_log_frame [simp]:
  "storage (emit_log l h) = storage h" "accounts (emit_log l h) = accounts h"
  "load c x (emit_log l h) = load c x h" "load_checked c x (emit_log l h) = load_checked c x h"
  "logs (emit_log l h) = logs h @ [l]"
  by (simp_all add: emit_log_def store_log_def)

lemma array_access:
  "array_length vs h = load u64_be (ValsetLen vs) h"
  "array_get vs i h = load u64_be (ValsetElem vs i) h"
  "array_set vs i v h = store u64_be (ValsetElem vs i) v h"
  by (simp_all add: array_length_def array_get_def array_set_def sa_length_def load_def store_def
      valset_slot_keys)

lemma array_push_eq:
  "array_push vs v h = (let len = array_length vs h in
     store u64_be (ValsetLen vs) (len + 1) (store u64_be (ValsetElem vs len) v h))"
proof -
  have "svar_key (ValsetLen vs) + 1 + ucast (i * word_of_nat (sv_slots u64_be)) = svar_key (ValsetElem vs i)"
    for i
    unfolding valset_slot_keys(2) [symmetric] sa_get_def ..
  then show ?thesis
    by (simp add: array_push_def sa_push_def Let_def array_length_def store_def valset_slot_keys(1))
qed

lemma array_pop_eq:
  "array_pop vs h = (let len = array_length vs h in
     if len = 0 then Inl Aborted
     else Inr (array_get vs (len - 1) h,
       store u64_be (ValsetLen vs) (len - 1) (store u64_be (ValsetElem vs (len - 1)) 0 h)))"
  by (simp add: array_pop_def sa_pop_def Let_def array_length_def array_get_def store_def word_gt_0
      sv_u64.clear_store valset_slot_keys)

section \<open>Balances\<close>

lemma get_balance_store [simp]:
  "get_balance a (store c x v h) = get_balance a h" "get_balance a (emit_log l h) = get_balance a h"
  by (simp_all add: get_balance_def)

lemma balance_account_or_new [simp]: "balance (account_or_new a h) = get_balance a h"
  by (simp add: account_or_new_def get_balance_def new_account_def split: option.splits)

lemma room_iff: "x \<le> - 1 - d \<longleftrightarrow> unat x + unat d < 2 ^ 256" for x d :: u256
proof -
  have "unat (- 1 - d) = 2 ^ 256 - 1 - unat d"
    using unat_u256_less [of d]
    by (simp add: unat_sub_if' unsigned_minus_1_eq_mask mask_eq_exp_minus_1)
  then show ?thesis
    using unat_u256_less [of d] by (auto simp: word_le_nat_alt)
qed

lemma add_to_balance_Inr:
  assumes "add_to_balance a d h = Inr h'"
  shows "unat (get_balance a h') = unat (get_balance a h) + unat d"
    and "b \<noteq> a \<Longrightarrow> get_balance b h' = get_balance b h"
    and "storage h' = storage h" and "logs h' = logs h"
proof -
  have le: "unat (get_balance a h) + unat d < 2 ^ 256"
    and h': "h' = h\<lparr>accounts := (accounts h)(a := Some ((account_or_new a h)\<lparr>balance := get_balance a h + d\<rparr>))\<rparr>"
    using assms by (auto simp: add_to_balance_def Let_def room_iff split: if_splits)
  show "unat (get_balance a h') = unat (get_balance a h) + unat d"
    using le by (simp add: h') (simp add: get_balance_def unat_word_ariths)
  show "b \<noteq> a \<Longrightarrow> get_balance b h' = get_balance b h" "storage h' = storage h" "logs h' = logs h"
    by (simp_all add: h' get_balance_def)
qed

lemma subtract_from_balance_Inr:
  assumes "subtract_from_balance a d h = Inr h'"
  shows "unat (get_balance a h) = unat (get_balance a h') + unat d"
    and "b \<noteq> a \<Longrightarrow> get_balance b h' = get_balance b h"
    and "storage h' = storage h" and "logs h' = logs h"
proof -
  have le: "d \<le> get_balance a h"
    and h': "h' = h\<lparr>accounts := (accounts h)(a := Some ((account_or_new a h)\<lparr>balance := get_balance a h - d\<rparr>))\<rparr>"
    using assms by (auto simp: subtract_from_balance_def Let_def split: if_splits)
  show "unat (get_balance a h) = unat (get_balance a h') + unat d"
    using le by (simp add: h') (simp add: get_balance_def unat_sub word_le_nat_alt)
  show "b \<noteq> a \<Longrightarrow> get_balance b h' = get_balance b h" "storage h' = storage h" "logs h' = logs h"
    by (simp_all add: h' get_balance_def)
qed

lemma add_to_balance_fails_iff:
  "add_to_balance a d h = Inl e \<longleftrightarrow>
   2 ^ 256 \<le> unat (get_balance a h) + unat d \<and> e = Thrown ''balance overflow''"
  by (auto simp: add_to_balance_def Let_def room_iff)

lemma subtract_from_balance_fails_iff:
  "subtract_from_balance a d h = Inl e \<longleftrightarrow>
   unat (get_balance a h) < unat d \<and> e = Thrown ''balance underflow''"
  by (auto simp: subtract_from_balance_def Let_def word_le_nat_alt)

section \<open>What an operation may write\<close>

text \<open>\<open>modifies X h h'\<close>: the storage of \<open>h'\<close> differs from that of \<open>h\<close> at most in the variables of \<open>X\<close>.\<close>

definition modifies :: "svar set \<Rightarrow> host \<Rightarrow> host \<Rightarrow> bool" where
  "modifies X h h' \<longleftrightarrow> (\<forall>y. y \<notin> X \<longrightarrow> (\<forall>i < svar_slots y.
     storage h' (svar_key y + word_of_nat i) = storage h (svar_key y + word_of_nat i)))"

lemma modifies_load:
  assumes "modifies X h h'" and "y \<notin> X" and "sv_slots c = svar_slots y"
  shows "load c y h' = load c y h" and "load_checked c y h' = load_checked c y h"
proof -
  have "load_slots c (svar_key y) (storage h') = load_slots c (svar_key y) (storage h)"
    using assms by (simp add: modifies_def load_slots_def)
  then show "load c y h' = load c y h" "load_checked c y h' = load_checked c y h"
    by (simp_all add: load_def load_checked_def sv_load_def sv_load_checked_def)
qed

lemma modifies_refl [intro!, simp]: "modifies X h h"
  by (simp add: modifies_def)

lemma modifies_trans: "modifies X h h' \<Longrightarrow> modifies Y h' h'' \<Longrightarrow> X \<union> Y \<subseteq> Z \<Longrightarrow> modifies Z h h''"
  unfolding modifies_def by (metis Un_iff subsetD)

lemma modifies_mono: "modifies X h h' \<Longrightarrow> X \<subseteq> Y \<Longrightarrow> modifies Y h h'"
  by (auto simp: modifies_def)

lemma modifies_store:
  assumes "modifies X h h'" and "x \<in> X" and "sv_slots c = svar_slots x"
  shows "modifies X h (store c x v h')"
  unfolding modifies_def
proof (intro allI impI)
  fix y i
  assume "y \<notin> X" and i: "i < svar_slots y"
  then have "y \<noteq> x" using assms by blast
  then have "svar_key y + word_of_nat i \<noteq> svar_key x + word_of_nat j" if "j < svar_slots x" for j
    using svar_apart i that by (auto simp: slots_apart_def)
  then have "storage (store c x v h') (svar_key y + word_of_nat i) = storage h' (svar_key y + word_of_nat i)"
    using assms(3) by (simp add: store_def sv_store_def store_slots_other)
  then show "storage (store c x v h') (svar_key y + word_of_nat i) = storage h (svar_key y + word_of_nat i)"
    using assms(1) \<open>y \<notin> X\<close> i by (simp add: modifies_def)
qed

lemma modifies_emit_log: "modifies X h h' \<Longrightarrow> modifies X h (emit_log l h')"
  by (simp add: modifies_def)

lemma modifies_storage: "storage h' = storage h \<Longrightarrow> modifies X h h'"
  by (simp add: modifies_def)

lemma modifies_if: "(b \<Longrightarrow> modifies X h h1) \<Longrightarrow> (\<not> b \<Longrightarrow> modifies X h h2) \<Longrightarrow>
    modifies X h (if b then h1 else h2)"
  by simp

lemmas modifies_intros = modifies_refl modifies_store modifies_emit_log modifies_if

end
