(* ===== verification/LinkedList.thy ===== *)
theory LinkedList
  imports StakingState
begin

text \<open>
  The intrusive doubly linked lists of \<open>staking_contract.cpp\<close>: for each validator the list of its
  delegators, and for each delegator the list of its validators. Both are threaded through the
  \<open>list_node\<close> of the \<open>Delegator\<close> entries and start at a sentinel pointer. The C++ templates take a
  \<open>LinkedListTrait\<close>; here the trait is a record of its operations.

  \<open>dll\<close> says that the links of one key represent a list of pointers. Under the laws of the locale
  \<open>list_trait\<close>, insertion, removal and traversal implement adding at the front, removing and taking
  from a position of that list; both traits are interpretations.
\<close>

section \<open>The operations\<close>

record ('k, 'p) LinkedListTrait =
  sentinel :: 'p
  empty_ptr :: 'p
  prev :: "ListNode \<Rightarrow> 'p"
  next_ptr :: "ListNode \<Rightarrow> 'p"
  set_prev :: "'p \<Rightarrow> ListNode \<Rightarrow> ListNode"
  set_next :: "'p \<Rightarrow> ListNode \<Rightarrow> ListNode"
  load_node :: "'k \<Rightarrow> 'p \<Rightarrow> host \<Rightarrow> ListNode"
  store_node :: "'k \<Rightarrow> 'p \<Rightarrow> ListNode \<Rightarrow> host \<Rightarrow> host"

definition validators_of :: "(address, u64) LinkedListTrait" where
  "validators_of = \<lparr>
     sentinel = 0xFFFFFFFFFFFFFFFF,
     empty_ptr = 0,
     prev = iprev,
     next_ptr = inext,
     set_prev = (\<lambda>p n. n\<lparr>iprev := p\<rparr>),
     set_next = (\<lambda>p n. n\<lparr>inext := p\<rparr>),
     load_node = (\<lambda>k p h. list_node p k h),
     store_node = (\<lambda>k p n h. store list_node_codec (DListNode p k) n h)\<rparr>"

definition delegators_of :: "(u64, address) LinkedListTrait" where
  "delegators_of = \<lparr>
     sentinel = 0xFFFFFFFFFFFFFFFFFFFFFFFFFFFFFFFFFFFFFFFF,
     empty_ptr = 0,
     prev = aprev,
     next_ptr = anext,
     set_prev = (\<lambda>p n. n\<lparr>aprev := p\<rparr>),
     set_next = (\<lambda>p n. n\<lparr>anext := p\<rparr>),
     load_node = (\<lambda>k p h. list_node k p h),
     store_node = (\<lambda>k p n h. store list_node_codec (DListNode k p) n h)\<rparr>"

definition linked_list_insert :: "('k, 'p) LinkedListTrait \<Rightarrow> 'k \<Rightarrow> 'p \<Rightarrow> host \<Rightarrow> host result" where
  "linked_list_insert T key this_ptr h =
     (if this_ptr = empty_ptr T \<or> this_ptr = sentinel T then Inl (StakingE InvalidInput)
      else let this_node = load_node T key this_ptr h
        in if prev T this_node \<noteq> empty_ptr T then Inr h
           else let
             sentinel_node = load_node T key (sentinel T) h;
             next = next_ptr T sentinel_node;
             h = (if next \<noteq> empty_ptr T
                  then store_node T key next (set_prev T this_ptr (load_node T key next h)) h
                  else h);
             this_node = set_next T next (set_prev T (sentinel T) this_node);
             sentinel_node = set_next T this_ptr sentinel_node;
             h = store_node T key this_ptr this_node h;
             h = store_node T key (sentinel T) sentinel_node h
           in Inr h)"

definition linked_list_remove :: "('k, 'p) LinkedListTrait \<Rightarrow> 'k \<Rightarrow> 'p \<Rightarrow> host \<Rightarrow> host result" where
  "linked_list_remove T key this_ptr h =
     (if \<not> (this_ptr \<noteq> empty_ptr T \<and> this_ptr \<noteq> sentinel T) then Inl (Thrown ''invalid list entry'')
      else let this_node = load_node T key this_ptr h
        in if prev T this_node = empty_ptr T then Inr h
           else let
             prev_p = prev T this_node;
             next_p = next_ptr T this_node;
             h = store_node T key prev_p (set_next T next_p (load_node T key prev_p h)) h;
             h = (if next_p \<noteq> empty_ptr T
                  then store_node T key next_p (set_prev T prev_p (load_node T key next_p h)) h
                  else h);
             this_node = set_next T (empty_ptr T) (set_prev T (empty_ptr T) this_node)
           in Inr (store_node T key this_ptr this_node h))"

text \<open>The loop of \<open>linked_list_traverse\<close>; its first number counts the reads that are left.\<close>

fun traverse_loop :: "nat \<Rightarrow> ('k, 'p) LinkedListTrait \<Rightarrow> 'k \<Rightarrow> 'p \<Rightarrow> host \<Rightarrow> 'p list \<Rightarrow> 'p \<times> 'p list" where
  "traverse_loop 0 T key ptr h results = (ptr, results)"
| "traverse_loop (Suc n) T key ptr h results =
     (if ptr \<noteq> empty_ptr T
      then traverse_loop n T key (next_ptr T (load_node T key ptr h)) h (results @ [ptr])
      else (ptr, results))"

definition linked_list_traverse ::
  "('k, 'p) LinkedListTrait \<Rightarrow> 'k \<Rightarrow> 'p \<Rightarrow> u32 \<Rightarrow> host \<Rightarrow> bool \<times> 'p \<times> 'p list" where
  "linked_list_traverse T key start_ptr limit h =
     (let ptr = (if start_ptr = empty_ptr T then next_ptr T (load_node T key (sentinel T) h) else start_ptr)
      in if prev T (load_node T key ptr h) = empty_ptr T then (True, ptr, [])
         else let (ptr, results) = traverse_loop (unat limit) T key ptr h []
              in (ptr = empty_ptr T, ptr, results))"

text \<open>How a client reads a whole list: it starts at the empty pointer and passes the returned pointer to
  the next query until \<open>done\<close>; the number bounds the queries.\<close>

fun read_pages :: "nat \<Rightarrow> ('k, 'p) LinkedListTrait \<Rightarrow> 'k \<Rightarrow> 'p \<Rightarrow> u32 \<Rightarrow> host \<Rightarrow> 'p list" where
  "read_pages 0 T key start limit h = []"
| "read_pages (Suc n) T key start limit h =
     (let (done, next, page) = linked_list_traverse T key start limit h
      in if done then page else page @ read_pages n T key next limit h)"

section \<open>Doubly linked lists\<close>

definition dll :: "'p \<Rightarrow> 'p \<Rightarrow> ('p \<Rightarrow> 'p) \<Rightarrow> ('p \<Rightarrow> 'p) \<Rightarrow> 'p list \<Rightarrow> bool" where
  "dll s e pr nx xs \<longleftrightarrow> distinct (s # xs @ [e]) \<and>
     successively (\<lambda>x y. nx x = y \<and> (y \<noteq> e \<longrightarrow> pr y = x)) (s # xs @ [e]) \<and>
     (\<forall>p. p \<notin> set xs \<longrightarrow> pr p = e \<and> (p \<noteq> s \<longrightarrow> nx p = e))"

lemma dll_empty: "s \<noteq> e \<Longrightarrow> dll s e (\<lambda>_. e) (\<lambda>_. e) []"
  by (simp add: dll_def)

lemma dll_split:
  assumes "dll s e pr nx (as @ p # bs)"
  shows "pr p = last (s # as)" and "nx p = hd (bs @ [e])" and "nx (last (s # as)) = p"
  using assms by (auto simp: dll_def successively_append_iff successively_Cons hd_append split: if_splits)

lemma dll_member:
  assumes d: "dll s e pr nx xs" and "p \<noteq> s"
  shows "pr p \<noteq> e \<longleftrightarrow> p \<in> set xs"
proof
  assume "p \<in> set xs"
  then obtain as bs where xs: "xs = as @ p # bs"
    by (meson split_list)
  have "last (s # as) \<in> set (s # as)"
    by (rule last_in_set) simp
  then have "last (s # as) \<noteq> e"
    using d by (auto simp: dll_def xs)
  then show "pr p \<noteq> e"
    using dll_split(1) [OF d [unfolded xs]] by simp
qed (use assms in \<open>auto simp: dll_def\<close>)

lemma successively_eq_on:
  assumes "successively P xs" and "\<And>x y. x \<in> set (butlast xs) \<Longrightarrow> y \<in> set (tl xs) \<Longrightarrow> P x y \<Longrightarrow> Q x y"
  shows "successively Q xs"
  using assms by (induction P xs rule: successively.induct) (auto split: if_splits)

lemma dll_distinct:
  assumes "dll s e pr nx xs"
  shows "s \<noteq> e" "s \<notin> set xs" "e \<notin> set xs" "distinct xs"
  using assms by (auto simp: dll_def)

lemma dll_insert:
  assumes d: "dll s e pr nx xs" and p: "p \<notin> set xs" "p \<noteq> s" "p \<noteq> e"
  defines "n \<equiv> nx s"
  shows "dll s e ((if n \<noteq> e then pr(n := p) else pr)(p := s)) (nx(p := n, s := p)) (p # xs)"
proof (cases xs)
  case Nil
  then show ?thesis using d p by (auto simp: dll_def n_def)
next
  case (Cons x ys)
  note dist = dll_distinct [OF d, unfolded Cons]
  have n: "n = x" "x \<noteq> e"
    using d by (auto simp: dll_def n_def Cons)
  have old: "successively (\<lambda>x y. nx x = y \<and> (y \<noteq> e \<longrightarrow> pr y = x)) (x # ys @ [e])"
    using d by (simp add: dll_def Cons)
  have new: "successively (\<lambda>a b. (nx(p := n, s := p)) a = b \<and> (b \<noteq> e \<longrightarrow> (pr(n := p, p := s)) b = a))
      (x # ys @ [e])"
    using old by (rule successively_eq_on) (use dist p n in \<open>auto simp: Cons\<close>)
  have clean: "\<forall>q. q \<notin> set (p # x # ys) \<longrightarrow> (pr(n := p, p := s)) q = e \<and> (q \<noteq> s \<longrightarrow> (nx(p := n, s := p)) q = e)"
    using d n by (simp add: dll_def Cons)
  have "x \<noteq> p"
    using p by (auto simp: Cons)
  then show ?thesis
    unfolding dll_def Cons using new clean dist p n by (simp add: Cons)
qed

lemma distinct_last_butlast: "distinct xs \<Longrightarrow> xs \<noteq> [] \<Longrightarrow> last xs \<notin> set (butlast xs)"
  by (induction xs) (auto split: if_splits)

lemma distinct_hd_tl: "distinct xs \<Longrightarrow> xs \<noteq> [] \<Longrightarrow> hd xs \<notin> set (tl xs)"
  by (cases xs) auto

lemma dll_remove:
  assumes d: "dll s e pr nx (as @ p # bs)"
  defines "l \<equiv> pr p" and "r \<equiv> nx p"
  shows "dll s e ((if r \<noteq> e then pr(r := l) else pr)(p := e)) (nx(l := r, p := e)) (as @ bs)"
    (is "dll s e ?pr ?nx _")
proof -
  have l: "l = last (s # as)" and r: "r = hd (bs @ [e])"
    using dll_split [OF d] by (simp_all add: l_def r_def)
  note dist = dll_distinct [OF d]
  define L R where "L = s # as" and "R = bs @ [e]"
  have ends: "l = last L" "r = hd R" "L \<noteq> []" "R \<noteq> []" "distinct L" "distinct R"
    using dist by (auto simp: L_def R_def l r)
  have LR: "set L \<inter> set R = {}" "p \<notin> set L" "p \<notin> set R"
    using dist by (auto simp: L_def R_def)
  have lr: "l \<in> set L" "r \<in> set R" "l \<notin> set (butlast L)" "r \<notin> set (tl R)"
    using ends distinct_last_butlast distinct_hd_tl by simp_all
  let ?P = "\<lambda>x y. nx x = y \<and> (y \<noteq> e \<longrightarrow> pr y = x)"
  let ?Q = "\<lambda>x y. ?nx x = y \<and> (y \<noteq> e \<longrightarrow> ?pr y = x)"
  have "successively ?P (L @ p # R)"
    using d by (simp add: dll_def L_def R_def)
  then have old: "successively ?P L" "successively ?P R"
    using ends(4) by (simp_all add: successively_append_iff successively_Cons)
  have keep: "?Q x y"
    if m: "x \<in> set (butlast L) \<and> y \<in> set (tl L) \<or> x \<in> set (butlast R) \<and> y \<in> set (tl R)"
      and P: "?P x y" for x y
  proof -
    have "x \<noteq> l" "x \<noteq> p" "y \<noteq> r" "y \<noteq> p"
      using m LR lr ends(3,4) by (auto dest: in_set_butlastD list.set_sel(2))
    with P show ?thesis by simp
  qed
  have "successively ?Q L"
    by (rule successively_eq_on [OF old(1)], rule keep) simp_all
  moreover have "successively ?Q R"
    by (rule successively_eq_on [OF old(2)], rule keep) simp_all
  moreover have "?Q l r"
    using LR lr by auto
  ultimately have "successively ?Q (L @ R)"
    unfolding successively_append_iff using ends by simp
  moreover have "\<forall>q. q \<notin> set (as @ bs) \<longrightarrow> ?pr q = e \<and> (q \<noteq> s \<longrightarrow> ?nx q = e)"
  proof (intro allI impI)
    fix q
    assume q: "q \<notin> set (as @ bs)"
    have "pr q = e \<and> (q \<noteq> s \<longrightarrow> nx q = e)" if "q \<noteq> p"
      using d q that by (simp add: dll_def)
    moreover have "q \<noteq> r" if "r \<noteq> e"
      using that q lr(2) by (auto simp: R_def)
    moreover have "q \<noteq> l" if "q \<noteq> s"
      using that q lr(1) by (auto simp: L_def)
    ultimately show "?pr q = e \<and> (q \<noteq> s \<longrightarrow> ?nx q = e)"
      by simp
  qed
  ultimately show ?thesis
    using dist by (simp add: dll_def L_def R_def)
qed

section \<open>The lists of one key\<close>

definition list_prev :: "('k, 'p) LinkedListTrait \<Rightarrow> 'k \<Rightarrow> host \<Rightarrow> 'p \<Rightarrow> 'p" where
  "list_prev T key h p = prev T (load_node T key p h)"

definition list_next :: "('k, 'p) LinkedListTrait \<Rightarrow> 'k \<Rightarrow> host \<Rightarrow> 'p \<Rightarrow> 'p" where
  "list_next T key h p = next_ptr T (load_node T key p h)"

definition list_repr :: "('k, 'p) LinkedListTrait \<Rightarrow> 'k \<Rightarrow> host \<Rightarrow> 'p list \<Rightarrow> bool" where
  "list_repr T key h xs \<longleftrightarrow> dll (sentinel T) (empty_ptr T) (list_prev T key h) (list_next T key h) xs"

text \<open>What the list operations rely on: setting one link of a node keeps the other one, and the node of
  a key and a pointer is a storage variable of its own.\<close>

locale list_trait =
  fixes T :: "('k, 'p) LinkedListTrait" and node :: "'k \<Rightarrow> 'p \<Rightarrow> svar"
  assumes sentinel_not_empty: "sentinel T \<noteq> empty_ptr T"
    and set_links: "prev T (set_prev T p n) = p" "prev T (set_next T p n) = prev T n"
      "next_ptr T (set_next T p n) = p" "next_ptr T (set_prev T p n) = next_ptr T n"
    and load_node: "load_node T k p h = load list_node_codec (node k p) h"
    and store_node: "store_node T k p n h = store list_node_codec (node k p) n h"
    and node_inject: "node k p = node k' p' \<longleftrightarrow> k = k' \<and> p = p'"
    and node_slots: "svar_slots (node k p) = 2"
begin

lemma load_store_node:
  "load_node T k p (store_node T k' p' n h) = (if k = k' \<and> p = p' then n else load_node T k p h)"
  using node_inject [of k p k' p'] by (simp add: load_node store_node node_slots)

lemma insert_fails_iff:
  "linked_list_insert T k p h = Inl e \<longleftrightarrow> (p = empty_ptr T \<or> p = sentinel T) \<and> e = StakingE InvalidInput"
  by (auto simp: linked_list_insert_def Let_def)

lemma insert_noop:
  assumes "p \<noteq> empty_ptr T" "p \<noteq> sentinel T" "list_prev T k h p \<noteq> empty_ptr T"
  shows "linked_list_insert T k p h = Inr h"
  using assms by (simp add: linked_list_insert_def list_prev_def)

lemma insert_links:
  assumes "linked_list_insert T k p h = Inr h'" and new: "list_prev T k h p = empty_ptr T"
    and n: "n = list_next T k h (sentinel T)" and "n \<noteq> p" "n \<noteq> sentinel T"
  shows "list_prev T k h' = ((if n \<noteq> empty_ptr T then (list_prev T k h)(n := p) else list_prev T k h)(p := sentinel T))"
    and "list_next T k h' = (list_next T k h)(p := n, sentinel T := p)"
  using assms unfolding linked_list_insert_def Let_def list_prev_def list_next_def
  by (auto simp: load_store_node set_links fun_eq_iff split: if_splits)

lemma insert_repr:
  assumes r: "list_repr T k h xs" and "linked_list_insert T k p h = Inr h'"
  shows "list_repr T k h' (if p \<in> set xs then xs else p # xs)"
proof -
  have p: "p \<noteq> empty_ptr T" "p \<noteq> sentinel T"
    using assms(2) insert_fails_iff [of k p h] by auto
  note mem = dll_member [OF r [unfolded list_repr_def] p(2)]
  show ?thesis
  proof (cases "p \<in> set xs")
    case True
    then show ?thesis
      using insert_noop [OF p, of k h] mem assms by simp
  next
    case False
    define n where "n = list_next T k h (sentinel T)"
    have "n \<noteq> p" "n \<noteq> sentinel T"
      using r False p unfolding n_def list_repr_def by (cases xs; auto simp: dll_def)+
    then have "list_prev T k h' = ((if n \<noteq> empty_ptr T then (list_prev T k h)(n := p) else list_prev T k h)(p := sentinel T))"
      "list_next T k h' = (list_next T k h)(p := n, sentinel T := p)"
      using insert_links [OF assms(2) _ n_def] mem False by simp_all
    then show ?thesis
      using dll_insert [OF r [unfolded list_repr_def] False p(2,1)] False
      by (simp only: list_repr_def n_def if_False)
  qed
qed

lemma remove_fails_iff:
  "linked_list_remove T k p h = Inl e \<longleftrightarrow>
   (p = empty_ptr T \<or> p = sentinel T) \<and> e = Thrown ''invalid list entry''"
  by (auto simp: linked_list_remove_def Let_def)

lemma remove_noop:
  assumes "p \<noteq> empty_ptr T" "p \<noteq> sentinel T" "list_prev T k h p = empty_ptr T"
  shows "linked_list_remove T k p h = Inr h"
  using assms by (simp add: linked_list_remove_def list_prev_def)

lemma remove_links:
  assumes "linked_list_remove T k p h = Inr h'" and "l = list_prev T k h p" and "r = list_next T k h p"
    and "l \<noteq> empty_ptr T" "l \<noteq> p" "r \<noteq> p" "l \<noteq> r"
  shows "list_prev T k h' = ((if r \<noteq> empty_ptr T then (list_prev T k h)(r := l) else list_prev T k h)(p := empty_ptr T))"
    and "list_next T k h' = (list_next T k h)(l := r, p := empty_ptr T)"
  using assms unfolding linked_list_remove_def Let_def list_prev_def list_next_def
  by (auto simp: load_store_node set_links fun_eq_iff split: if_splits)

lemma remove_repr:
  assumes r: "list_repr T k h xs" and "linked_list_remove T k p h = Inr h'"
  shows "list_repr T k h' (remove1 p xs)"
proof -
  have p: "p \<noteq> empty_ptr T" "p \<noteq> sentinel T"
    using assms(2) remove_fails_iff [of k p h] by auto
  note d = r [unfolded list_repr_def]
  note mem = dll_member [OF d p(2)]
  show ?thesis
  proof (cases "p \<in> set xs")
    case False
    then show ?thesis
      using remove_noop [OF p, of k h] mem assms by (simp add: remove1_idem)
  next
    case True
    then obtain as bs where xs: "xs = as @ p # bs"
      by (meson split_list)
    define l n where "l = list_prev T k h p" and "n = list_next T k h p"
    have l: "l = last (sentinel T # as)" and n: "n = hd (bs @ [empty_ptr T])"
      using dll_split [OF d [unfolded xs]] by (simp_all add: l_def n_def)
    have "l \<in> set (sentinel T # as)" "n \<in> set (bs @ [empty_ptr T])"
      unfolding l n by (rule last_in_set hd_in_set; simp)+
    then have "l \<noteq> p" "n \<noteq> p" "l \<noteq> n"
      using dll_distinct [OF d] p by (auto simp: xs)
    then have "list_prev T k h' = ((if n \<noteq> empty_ptr T then (list_prev T k h)(n := l) else list_prev T k h)(p := empty_ptr T))"
      "list_next T k h' = (list_next T k h)(l := n, p := empty_ptr T)"
      using remove_links [OF assms(2) l_def n_def] mem True unfolding l_def by blast+
    moreover have "remove1 p xs = as @ bs"
      using dll_distinct [OF d] by (simp add: xs remove1_append)
    ultimately show ?thesis
      using dll_remove [OF d [unfolded xs]] by (simp only: list_repr_def l_def n_def)
  qed
qed

lemma traverse_loop_append:
  "traverse_loop n T k p h acc = (let (q, r) = traverse_loop n T k p h [] in (q, acc @ r))"
proof (induction n arbitrary: p acc)
  case (Suc n)
  show ?case
    using Suc [of "next_ptr T (load_node T k p h)" "acc @ [p]"] Suc [of "next_ptr T (load_node T k p h)" "[p]"]
    by (simp add: Let_def case_prod_unfold)
qed simp

lemma traverse_loop_chain:
  assumes "successively (\<lambda>x y. list_next T k h x = y) (ys @ [empty_ptr T])" and "empty_ptr T \<notin> set ys"
  shows "traverse_loop n T k (hd (ys @ [empty_ptr T])) h [] = (hd (drop n ys @ [empty_ptr T]), take n ys)"
  using assms
proof (induction n arbitrary: ys)
  case (Suc n)
  show ?case
  proof (cases ys)
    case (Cons y zs)
    then have "next_ptr T (load_node T k y h) = hd (zs @ [empty_ptr T])"
      using Suc.prems by (cases zs) (simp_all add: list_next_def)
    moreover have "successively (\<lambda>x y. list_next T k h x = y) (zs @ [empty_ptr T])"
      using Suc.prems by (auto simp: Cons successively_Cons)
    ultimately show ?thesis
      using Suc.IH [of zs] Suc.prems traverse_loop_append [of n k _ h "[y]"] by (auto simp: Cons)
  qed simp
qed simp

text \<open>A page read from position \<open>i\<close> holds the next \<open>limit\<close> pointers and the pointer to continue with.\<close>

lemma traverse_from:
  assumes r: "list_repr T k h xs" and "i < length xs"
    and start: "start = xs ! i \<or> i = 0 \<and> start = empty_ptr T"
  shows "linked_list_traverse T k start limit h =
    (length xs \<le> i + unat limit, hd (drop (i + unat limit) xs @ [empty_ptr T]), take (unat limit) (drop i xs))"
proof -
  note d = r [unfolded list_repr_def]
  define n where "n = unat limit"
  have mem: "xs ! i \<in> set xs" using assms(2) by simp
  have ne: "xs ! i \<noteq> empty_ptr T" "xs ! i \<noteq> sentinel T"
    using dll_distinct [OF d] mem by auto
  have first: "next_ptr T (load_node T k (sentinel T) h) = xs ! 0" if "i = 0"
    using d assms(2) that by (cases xs) (auto simp: dll_def list_next_def)
  define ptr where "ptr = (if start = empty_ptr T then next_ptr T (load_node T k (sentinel T) h) else start)"
  have ptr: "ptr = xs ! i"
    using start first ne by (auto simp: ptr_def)
  have prev: "prev T (load_node T k ptr h) \<noteq> empty_ptr T"
    using dll_member [OF d ne(2)] mem by (simp add: ptr list_prev_def)
  have split: "sentinel T # xs @ [empty_ptr T] = (sentinel T # take i xs) @ (drop i xs @ [empty_ptr T])"
    by (simp flip: append_assoc)
  have "successively (\<lambda>x y. list_next T k h x = y) (sentinel T # xs @ [empty_ptr T])"
    using d by (auto simp: dll_def elim: successively_mono)
  then have "successively (\<lambda>x y. list_next T k h x = y) (drop i xs @ [empty_ptr T])"
    unfolding split successively_append_iff by blast
  moreover have "empty_ptr T \<notin> set (drop i xs)"
    using dll_distinct [OF d] by (meson in_set_dropD)
  ultimately have "traverse_loop n T k ptr h [] = (hd (drop (i + n) xs @ [empty_ptr T]), take n (drop i xs))"
    using traverse_loop_chain [of k h "drop i xs" n] assms(2) by (simp add: ptr hd_append hd_drop_conv_nth add.commute)
  moreover have "hd (drop (i + n) xs @ [empty_ptr T]) = empty_ptr T \<longleftrightarrow> length xs \<le> i + n"
    using dll_distinct(3) [OF d]
    by (cases "i + n < length xs") (auto simp: hd_append hd_drop_conv_nth dest: nth_mem)
  ultimately show ?thesis
    using prev by (simp add: linked_list_traverse_def Let_def ptr_def [symmetric] n_def)
qed

lemma traverse_empty:
  assumes r: "list_repr T k h []"
  shows "linked_list_traverse T k (empty_ptr T) limit h = (True, empty_ptr T, [])"
proof -
  have "next_ptr T (load_node T k (sentinel T) h) = empty_ptr T" "prev T (load_node T k (empty_ptr T) h) = empty_ptr T"
    using r by (auto simp: list_repr_def dll_def list_prev_def list_next_def)
  then show ?thesis
    by (simp add: linked_list_traverse_def Let_def)
qed

text \<open>A client that asks for pages until \<open>done\<close> reads the whole list.\<close>

lemma read_pages_from:
  assumes r: "list_repr T k h xs" and "i < length xs" and "start = xs ! i \<or> i = 0 \<and> start = empty_ptr T"
    and "0 < limit" and "length xs - i \<le> n"
  shows "read_pages n T k start limit h = drop i xs"
  using assms(2-5)
proof (induction n arbitrary: i start)
  case (Suc n)
  have l: "0 < unat limit"
    using Suc.prems(3) by (simp add: word_less_nat_alt)
  note page = traverse_from [OF r Suc.prems(1,2), of limit]
  show ?case
  proof (cases "length xs \<le> i + unat limit")
    case True
    then show ?thesis by (simp add: page)
  next
    case False
    define j where "j = i + unat limit"
    have "read_pages n T k (xs ! j) limit h = drop j xs"
      using Suc.prems False l by (intro Suc.IH) (auto simp: j_def)
    moreover have "take (unat limit) (drop i xs) @ drop j xs = drop i xs"
      unfolding j_def by (metis append_take_drop_id drop_drop add.commute)
    ultimately show ?thesis
      using False by (simp add: page hd_append hd_drop_conv_nth j_def)
  qed
qed simp

lemma read_pages:
  assumes r: "list_repr T k h xs" and "0 < limit" and "length xs \<le> n" and "0 < n"
  shows "read_pages n T k (empty_ptr T) limit h = xs"
proof (cases xs)
  case Nil
  then show ?thesis
    using traverse_empty [of k h limit] r assms(4) by (cases n) simp_all
next
  case Cons
  then show ?thesis
    using read_pages_from [OF r, of 0 "empty_ptr T" limit n] assms by simp
qed

lemma insert_frame:
  assumes "linked_list_insert T k p h = Inr h'"
  shows "modifies (range (node k)) h h'" "accounts h' = accounts h" "logs h' = logs h"
  using assms unfolding linked_list_insert_def Let_def
  by (auto simp: store_node node_slots intro!: modifies_store split: if_splits)

lemma remove_frame:
  assumes "linked_list_remove T k p h = Inr h'"
  shows "modifies (range (node k)) h h'" "accounts h' = accounts h" "logs h' = logs h"
  using assms unfolding linked_list_remove_def Let_def
  by (auto simp: store_node node_slots intro!: modifies_store split: if_splits)

text \<open>What the links of this trait do not touch in a node is kept.\<close>

lemma field_frame:
  assumes f: "\<And>p n. f (set_prev T p n) = f n" "\<And>p n. f (set_next T p n) = f n" and x: "svar_slots x = 2"
  shows "linked_list_insert T k p h = Inr h' \<Longrightarrow> f (load list_node_codec x h') = f (load list_node_codec x h)"
    and "linked_list_remove T k p h = Inr h' \<Longrightarrow> f (load list_node_codec x h') = f (load list_node_codec x h)"
proof -
  have *: "f (load list_node_codec x (store list_node_codec (node k q) n g)) = f (load list_node_codec x g)"
    if "f n = f (load list_node_codec (node k q) g)" for q n g
    using that x by (cases "x = node k q") (simp_all add: node_slots)
  have same: "f (load list_node_codec (node k q) (store list_node_codec (node k q') n g)) =
      f (load list_node_codec (node k q) g)"
    if "f n = f (load list_node_codec (node k q') g)" for q q' n g
    using that by (cases "q = q'") (simp_all add: node_slots node_inject)
  show "linked_list_insert T k p h = Inr h' \<Longrightarrow> f (load list_node_codec x h') = f (load list_node_codec x h)"
    unfolding linked_list_insert_def Let_def store_node load_node
    by (auto simp: f * same split: if_splits)
  show "linked_list_remove T k p h = Inr h' \<Longrightarrow> f (load list_node_codec x h') = f (load list_node_codec x h)"
    unfolding linked_list_remove_def Let_def store_node load_node
    by (auto simp: f * same split: if_splits)
qed

lemma repr_modifies:
  assumes "modifies X h h'" and "\<And>p. node k p \<notin> X"
  shows "list_repr T k h' xs \<longleftrightarrow> list_repr T k h xs"
proof -
  have "load_node T k p h' = load_node T k p h" for p
    using modifies_load(1) [OF assms(1) assms(2), of list_node_codec] by (simp add: load_node node_slots)
  then have "list_prev T k h' = list_prev T k h" "list_next T k h' = list_next T k h"
    by (simp_all add: fun_eq_iff list_prev_def list_next_def)
  then show ?thesis
    by (simp add: list_repr_def)
qed

lemma other_key:
  assumes "k' \<noteq> k" and "linked_list_insert T k p h = Inr h' \<or> linked_list_remove T k p h = Inr h'"
  shows "list_repr T k' h' xs \<longleftrightarrow> list_repr T k' h xs"
proof (rule repr_modifies)
  show "modifies (range (node k)) h h'"
    using assms(2) insert_frame(1) remove_frame(1) by blast
  show "node k' q \<notin> range (node k)" for q
    using assms(1) by (auto simp: node_inject)
qed

lemma zero_repr: 
  assumes "storage h = (\<lambda>_. 0)" and "prev T \<lparr>inext = 0, iprev = 0, anext = 0, aprev = 0\<rparr> = empty_ptr T"
    and "next_ptr T \<lparr>inext = 0, iprev = 0, anext = 0, aprev = 0\<rparr> = empty_ptr T"
  shows "list_repr T k h []"
  using assms sentinel_not_empty
  by (simp add: list_repr_def dll_def list_prev_def list_next_def load_node load_def sv_node.load_zero_storage)

end

interpretation vals: list_trait validators_of "\<lambda>k p. DListNode p k"
  by unfold_locales (auto simp: validators_of_def)

interpretation dels: list_trait delegators_of DListNode
  by unfold_locales (auto simp: delegators_of_def)

text \<open>Writing the links of one kind of list keeps the lists of the other kind.\<close>

lemma other_trait:
  "linked_list_insert validators_of a v h = Inr h' \<or> linked_list_remove validators_of a v h = Inr h' \<Longrightarrow>
     list_repr delegators_of v' h' xs \<longleftrightarrow> list_repr delegators_of v' h xs"
  "linked_list_insert delegators_of v a h = Inr h' \<or> linked_list_remove delegators_of v a h = Inr h' \<Longrightarrow>
     list_repr validators_of a' h' ys \<longleftrightarrow> list_repr validators_of a' h ys"
proof -
  have upd: "aprev (set_prev validators_of p n) = aprev n" "aprev (set_next validators_of p n) = aprev n"
    "anext (set_prev validators_of p n) = anext n" "anext (set_next validators_of p n) = anext n"
    "iprev (set_prev delegators_of q n) = iprev n" "iprev (set_next delegators_of q n) = iprev n"
    "inext (set_prev delegators_of q n) = inext n" "inext (set_next delegators_of q n) = inext n" for p q n
    by (simp_all add: validators_of_def delegators_of_def)
  note vf = vals.field_frame [where f = aprev, OF upd(1,2)] vals.field_frame [where f = anext, OF upd(3,4)]
  note df = dels.field_frame [where f = iprev, OF upd(5,6)] dels.field_frame [where f = inext, OF upd(7,8)]
  show "list_repr delegators_of v' h' xs \<longleftrightarrow> list_repr delegators_of v' h xs"
    if "linked_list_insert validators_of a v h = Inr h' \<or> linked_list_remove validators_of a v h = Inr h'"
  proof -
    have "list_prev delegators_of v' h' = list_prev delegators_of v' h"
      "list_next delegators_of v' h' = list_next delegators_of v' h"
      using that vf by (auto simp: fun_eq_iff list_prev_def list_next_def delegators_of_def)
    then show ?thesis by (simp add: list_repr_def)
  qed
  show "list_repr validators_of a' h' ys \<longleftrightarrow> list_repr validators_of a' h ys"
    if "linked_list_insert delegators_of v a h = Inr h' \<or> linked_list_remove delegators_of v a h = Inr h'"
  proof -
    have "list_prev validators_of a' h' = list_prev validators_of a' h"
      "list_next validators_of a' h' = list_next validators_of a' h"
      using that df by (auto simp: fun_eq_iff list_prev_def list_next_def validators_of_def)
    then show ?thesis by (simp add: list_repr_def)
  qed
qed

definition list_nodes :: "svar set" where
  "list_nodes = range (case_prod DListNode)"

lemma list_nodes_iff [simp]: "x \<in> list_nodes \<longleftrightarrow> (\<exists>v a. x = DListNode v a)"
  by (auto simp: list_nodes_def)

lemma list_frame:
  "linked_list_insert delegators_of v a h = Inr h' \<Longrightarrow>
     modifies list_nodes h h' \<and> accounts h' = accounts h \<and> logs h' = logs h"
  "linked_list_insert validators_of a v h = Inr h' \<Longrightarrow>
     modifies list_nodes h h' \<and> accounts h' = accounts h \<and> logs h' = logs h"
  "linked_list_remove delegators_of v a h = Inr h' \<Longrightarrow>
     modifies list_nodes h h' \<and> accounts h' = accounts h \<and> logs h' = logs h"
  "linked_list_remove validators_of a v h = Inr h' \<Longrightarrow>
     modifies list_nodes h h' \<and> accounts h' = accounts h \<and> logs h' = logs h"
proof -
  have sub: "range (DListNode v) \<subseteq> list_nodes" "range (\<lambda>p. DListNode p a) \<subseteq> list_nodes"
    by auto
  show "linked_list_insert delegators_of v a h = Inr h' \<Longrightarrow>
      modifies list_nodes h h' \<and> accounts h' = accounts h \<and> logs h' = logs h"
    using dels.insert_frame [of v a h h'] sub by (auto intro: modifies_mono)
  show "linked_list_insert validators_of a v h = Inr h' \<Longrightarrow>
      modifies list_nodes h h' \<and> accounts h' = accounts h \<and> logs h' = logs h"
    using vals.insert_frame [of a v h h'] sub by (auto intro: modifies_mono)
  show "linked_list_remove delegators_of v a h = Inr h' \<Longrightarrow>
      modifies list_nodes h h' \<and> accounts h' = accounts h \<and> logs h' = logs h"
    using dels.remove_frame [of v a h h'] sub by (auto intro: modifies_mono)
  show "linked_list_remove validators_of a v h = Inr h' \<Longrightarrow>
      modifies list_nodes h h' \<and> accounts h' = accounts h \<and> logs h' = logs h"
    using vals.remove_frame [of a v h h'] sub by (auto intro: modifies_mono)
qed


end
