(* ===== verification/StakingCrypto.thy ===== *)
theory StakingCrypto
  imports Errors
begin

text \<open>
  The key and signature classes of \<open>util/secp256k1.hpp\<close> and \<open>util/bls.hpp\<close>. The curve operations, the
  hash functions and their libraries (libsecp256k1, blst, keccak, blake3) are not part of the
  repository: \<open>crypto\<close> is the record of the library functions that the classes call, and every
  definition that needs them takes such a record as an argument. Library objects are opaque byte
  strings, a parse function returns its status with the object.
\<close>

record crypto =
  secp256k1_ec_pubkey_parse :: "bytes \<Rightarrow> int \<times> bytes"
  secp256k1_ec_pubkey_serialize :: "bytes \<Rightarrow> bytes"
  secp256k1_ecdsa_signature_parse_compact :: "bytes \<Rightarrow> int \<times> bytes"
  secp256k1_ecdsa_verify :: "bytes \<Rightarrow> bytes \<Rightarrow> bytes \<Rightarrow> int"
  blst_p1_uncompress :: "bytes \<Rightarrow> int \<times> bytes"
  blst_p1_affine_in_g1 :: "bytes \<Rightarrow> bool"
  blst_p1_affine_is_inf :: "bytes \<Rightarrow> bool"
  blst_p1_affine_serialize :: "bytes \<Rightarrow> bytes"
  blst_p2_uncompress :: "bytes \<Rightarrow> int \<times> bytes"
  blst_p2_affine_in_g2 :: "bytes \<Rightarrow> bool"
  blst_p2_affine_is_inf :: "bytes \<Rightarrow> bool"
  blst_core_verify_pk_in_g1 :: "bytes \<Rightarrow> bytes \<Rightarrow> bool \<Rightarrow> bytes \<Rightarrow> string \<Rightarrow> bytes \<Rightarrow> int"
  keccak256 :: "bytes \<Rightarrow> bytes"
  blake3 :: "bytes \<Rightarrow> bytes"

definition BLST_SUCCESS :: int where
  "BLST_SUCCESS = 0"

section \<open>secp256k1\<close>

record Secp256k1Pubkey =
  secp_point :: bytes
  secp_parse_result :: int

definition new_Secp256k1Pubkey :: "crypto \<Rightarrow> bytes \<Rightarrow> Secp256k1Pubkey" where
  "new_Secp256k1Pubkey cr serialized =
     (let (res, point) = secp256k1_ec_pubkey_parse cr serialized
      in \<lparr>secp_point = point, secp_parse_result = res\<rparr>)"

definition secp_pubkey_is_valid :: "Secp256k1Pubkey \<Rightarrow> bool" where
  "secp_pubkey_is_valid k \<longleftrightarrow> secp_parse_result k = 1"

definition secp_pubkey_serialize :: "crypto \<Rightarrow> Secp256k1Pubkey \<Rightarrow> bytes result" where
  "secp_pubkey_serialize cr k =
     (let serialized = secp256k1_ec_pubkey_serialize cr (secp_point k)
      in if length serialized = 65 then Inr serialized else Inl Aborted)"

record Secp256k1Signature =
  secp_sig :: bytes
  secp_sig_parse_result :: int

definition new_Secp256k1Signature :: "crypto \<Rightarrow> bytes \<Rightarrow> Secp256k1Signature" where
  "new_Secp256k1Signature cr serialized =
     (let (res, sig) = secp256k1_ecdsa_signature_parse_compact cr serialized
      in \<lparr>secp_sig = sig, secp_sig_parse_result = res\<rparr>)"

definition secp_sig_is_valid :: "Secp256k1Signature \<Rightarrow> bool" where
  "secp_sig_is_valid s \<longleftrightarrow> secp_sig_parse_result s = 1"

definition secp_sig_verify :: "crypto \<Rightarrow> Secp256k1Signature \<Rightarrow> Secp256k1Pubkey \<Rightarrow> bytes \<Rightarrow> bool" where
  "secp_sig_verify cr s k message \<longleftrightarrow>
     secp256k1_ecdsa_verify cr (secp_sig s) (blake3 cr message) (secp_point k) = 1"

definition address_from_secpkey :: "crypto \<Rightarrow> bytes \<Rightarrow> address result" where
  "address_from_secpkey cr serialized_pubkey =
     (if hd serialized_pubkey = 4
      then Inr (bytes_word (take 20 (drop 12 (keccak256 cr (take 64 (drop 1 serialized_pubkey))))))
      else Inl Aborted)"

section \<open>BLS\<close>

record BlsPubkey =
  bls_point :: bytes
  bls_parse_result :: int

definition new_BlsPubkey :: "crypto \<Rightarrow> bytes \<Rightarrow> BlsPubkey" where
  "new_BlsPubkey cr compressed =
     (let (res, point) = blst_p1_uncompress cr compressed
      in \<lparr>bls_point = point, bls_parse_result = res\<rparr>)"

definition bls_pubkey_is_valid :: "crypto \<Rightarrow> BlsPubkey \<Rightarrow> bool" where
  "bls_pubkey_is_valid cr k \<longleftrightarrow> bls_parse_result k = BLST_SUCCESS \<and>
     blst_p1_affine_in_g1 cr (bls_point k) \<and> \<not> blst_p1_affine_is_inf cr (bls_point k)"

definition bls_pubkey_serialize :: "crypto \<Rightarrow> BlsPubkey \<Rightarrow> bytes" where
  "bls_pubkey_serialize cr k = blst_p1_affine_serialize cr (bls_point k)"

record BlsSignature =
  bls_sig :: bytes
  bls_sig_parse_result :: int

definition new_BlsSignature :: "crypto \<Rightarrow> bytes \<Rightarrow> BlsSignature" where
  "new_BlsSignature cr compressed =
     (let (res, sig) = blst_p2_uncompress cr compressed
      in \<lparr>bls_sig = sig, bls_sig_parse_result = res\<rparr>)"

definition bls_sig_is_valid :: "crypto \<Rightarrow> BlsSignature \<Rightarrow> bool" where
  "bls_sig_is_valid cr s \<longleftrightarrow> bls_sig_parse_result s = BLST_SUCCESS \<and>
     blst_p2_affine_in_g2 cr (bls_sig s) \<and> \<not> blst_p2_affine_is_inf cr (bls_sig s)"

definition BLS_SIGNATURE_DST :: string where
  "BLS_SIGNATURE_DST = ''BLS_SIG_BLS12381G2_XMD:SHA-256_SSWU_RO_POP_''"

definition bls_sig_verify :: "crypto \<Rightarrow> BlsSignature \<Rightarrow> BlsPubkey \<Rightarrow> bytes \<Rightarrow> bool" where
  "bls_sig_verify cr s k message \<longleftrightarrow>
     blst_core_verify_pk_in_g1 cr (bls_point k) (bls_sig s) True message BLS_SIGNATURE_DST [] = BLST_SUCCESS"

definition address_from_bls_key :: "crypto \<Rightarrow> bytes \<Rightarrow> address" where
  "address_from_bls_key cr serialized_pubkey =
     bytes_word (take 20 (drop 12 (keccak256 cr serialized_pubkey)))"

end
