(* ===== verification/StakingContract.thy ===== *)
theory StakingContract
  imports LinkedList StakingCrypto
begin

text \<open>
  \<open>class StakingContract\<close> of \<open>category/execution/monad/staking/staking_contract.cpp\<close>: its events, helper
  methods and precompiled functions, one definition for each method, in the order of the source. A
  method that changes state takes the \<open>host\<close> and returns the new one; \<open>Result<T>\<close> is \<open>error + (T \<times> host)\<close>,
  and a caller that sees an error reverts the state, so that no state is returned with it.
\<close>

section \<open>Helpers outside the class\<close>

definition consume_bytes :: "bytes \<Rightarrow> nat \<Rightarrow> bytes \<times> bytes" where
  "consume_bytes data num_bytes = (take num_bytes data, drop num_bytes data)"

definition calculate_rewards :: "u256 \<Rightarrow> u256 \<Rightarrow> u256 \<Rightarrow> u256 result" where
  "calculate_rewards stake current_acc last_checked_acc =
     tryR (checked_sub current_acc last_checked_acc) (\<lambda>delta. checked_mul_div delta stake UNIT_BIAS)"

definition function_not_payable :: "u256 \<Rightarrow> unit result" where
  "function_not_payable value =
     (if \<not> list_all (\<lambda>byte. byte = 0) (word_bytes value) then Inl (StakingE ValueNonZero) else Inr ())"

section \<open>Events\<close>

definition emit_validator_rewarded_event :: "u64 \<Rightarrow> address \<Rightarrow> u256 \<Rightarrow> host \<Rightarrow> host" where
  "emit_validator_rewarded_event val_id from amount h = emit_log
     (add_data (abi_encode_uint (epoch h))
     (add_data (abi_encode_uint amount)
     (add_topic (topic_address from)
     (add_topic (topic_uint val_id)
     (event_builder STAKING_CA 0x3a420a01486b6b28d6ae89c51f5c3bde3e0e74eecbb646a0c481ccba3aae3754))))) h"

definition emit_validator_created_event :: "u64 \<Rightarrow> address \<Rightarrow> u256 \<Rightarrow> host \<Rightarrow> host" where
  "emit_validator_created_event val_id auth_delegator commission h = emit_log
     (add_data (abi_encode_uint commission)
     (add_topic (topic_address auth_delegator)
     (add_topic (topic_uint val_id)
     (event_builder STAKING_CA 0x6f8045cd38e512b8f12f6f02947c632e5f25af03aad132890ecf50015d97c1b2)))) h"

definition emit_validator_status_changed_event :: "u64 \<Rightarrow> u64 \<Rightarrow> host \<Rightarrow> host" where
  "emit_validator_status_changed_event val_id new_flags h = emit_log
     (add_data (abi_encode_uint new_flags)
     (add_topic (topic_uint val_id)
     (event_builder STAKING_CA 0xc95966754e882e03faffaf164883d98986dda088d09471a35f9e55363daf0c53))) h"

definition emit_delegation_event :: "u64 \<Rightarrow> address \<Rightarrow> u256 \<Rightarrow> u64 \<Rightarrow> host \<Rightarrow> host" where
  "emit_delegation_event val_id delegator amount active_epoch h = emit_log
     (add_data (abi_encode_uint active_epoch)
     (add_data (abi_encode_uint amount)
     (add_topic (topic_address delegator)
     (add_topic (topic_uint val_id)
     (event_builder STAKING_CA 0xe4d4df1e1827dd28252fd5c3cd7ebccd3da6e0aa31f74c828f3c8542af49d840))))) h"

definition emit_undelegate_event :: "u64 \<Rightarrow> address \<Rightarrow> u8 \<Rightarrow> u256 \<Rightarrow> u64 \<Rightarrow> host \<Rightarrow> host" where
  "emit_undelegate_event val_id delegator withdrawal_id amount activation_epoch h = emit_log
     (add_data (abi_encode_uint activation_epoch)
     (add_data (abi_encode_uint amount)
     (add_data (abi_encode_uint withdrawal_id)
     (add_topic (topic_address delegator)
     (add_topic (topic_uint val_id)
     (event_builder STAKING_CA 0x3e53c8b91747e1b72a44894db10f2a45fa632b161fdcdd3a17bd6be5482bac62)))))) h"

definition emit_withdraw_event :: "u64 \<Rightarrow> address \<Rightarrow> u8 \<Rightarrow> u256 \<Rightarrow> host \<Rightarrow> host" where
  "emit_withdraw_event val_id delegator withdrawal_id amount h =
     (let withdraw_epoch = epoch h in emit_log
     (add_data (abi_encode_uint withdraw_epoch)
     (add_data (abi_encode_uint amount)
     (add_data (abi_encode_uint withdrawal_id)
     (add_topic (topic_address delegator)
     (add_topic (topic_uint val_id)
     (event_builder STAKING_CA 0x63030e4238e1146c63f38f4ac81b2b23c8be28882e68b03f0887e50d0e9bb18f)))))) h)"

definition emit_claim_rewards_event :: "u64 \<Rightarrow> address \<Rightarrow> u256 \<Rightarrow> host \<Rightarrow> host" where
  "emit_claim_rewards_event val_id delegator amount h = emit_log
     (add_data (abi_encode_uint (epoch h))
     (add_data (abi_encode_uint amount)
     (add_topic (topic_address delegator)
     (add_topic (topic_uint val_id)
     (event_builder STAKING_CA 0xcb607e6b63c89c95f6ae24ece9fe0e38a7971aa5ed956254f1df47490921727b))))) h"

definition emit_commission_changed_event :: "u64 \<Rightarrow> u256 \<Rightarrow> u256 \<Rightarrow> host \<Rightarrow> host" where
  "emit_commission_changed_event val_id old_commission new_commission h = emit_log
     (add_data (abi_encode_uint new_commission)
     (add_data (abi_encode_uint old_commission)
     (add_topic (topic_uint val_id)
     (event_builder STAKING_CA 0xd1698d3454c5b5384b70aaae33f1704af7c7e055f0c75503ba3146dc28995920)))) h"

definition emit_epoch_changed_event :: "u64 \<Rightarrow> u64 \<Rightarrow> host \<Rightarrow> host" where
  "emit_epoch_changed_event old_epoch new_epoch h = emit_log
     (add_data (abi_encode_uint new_epoch)
     (add_data (abi_encode_uint old_epoch)
     (event_builder STAKING_CA 0x4fae4dbe0ed659e8ce6637e3c273cd8e4d3bf029b9379a9e8b3f3f27dbef809b))) h"

section \<open>Helpers\<close>

definition mint_tokens :: "u256 \<Rightarrow> host \<Rightarrow> host result" where
  "mint_tokens amount h = add_to_balance STAKING_CA amount h"

definition send_tokens :: "address \<Rightarrow> u256 \<Rightarrow> host \<Rightarrow> host result" where
  "send_tokens to amount h =
     tryR (add_to_balance to amount h) (\<lambda>h. subtract_from_balance STAKING_CA amount h)"

definition get_activation_epoch :: "host \<Rightarrow> u64" where
  "get_activation_epoch h =
     (if load_checked bool_codec InBoundary h \<noteq> None then epoch h + 2 else epoch h + 1)"

definition is_epoch_active :: "u64 \<Rightarrow> host \<Rightarrow> bool" where
  "is_epoch_active active_epoch h \<longleftrightarrow> active_epoch \<noteq> 0 \<and> active_epoch \<le> epoch h"

definition increment_accumulator_refcount :: "u64 \<Rightarrow> host \<Rightarrow> host" where
  "increment_accumulator_refcount val_id h =
     (let e = get_activation_epoch h;
          acc = accumulator e val_id h;
          acc = acc\<lparr>refcount := refcount acc + 1\<rparr>;
          acc = acc\<lparr>ra_value := val_acc val_id h\<rparr>
      in store accumulator_codec (Accumulator e val_id) acc h)"

definition decrement_accumulator_refcount :: "u64 \<Rightarrow> u64 \<Rightarrow> host \<Rightarrow> u256 \<times> host" where
  "decrement_accumulator_refcount e val_id h =
     (let acc = accumulator e val_id h;
          value = ra_value acc;
          count = refcount acc
      in if count = 0 then (0, h)
         else let new_refcount = count - 1
           in (value,
               if new_refcount = 0 then clear accumulator_codec (Accumulator e val_id) h
               else store accumulator_codec (Accumulator e val_id) (acc\<lparr>refcount := new_refcount\<rparr>) h))"

definition valset_mask :: "u64 \<Rightarrow> u256" where
  "valset_mask val_id = push_bit (unat (val_id AND 0xFF)) 1"

definition add_to_valset :: "u64 \<Rightarrow> host \<Rightarrow> bool \<times> host" where
  "add_to_valset val_id h =
     (let bits = load u256_be (val_bitset_bucket val_id) h;
          mask = valset_mask val_id;
          inserted = (bits AND mask = 0)
      in (inserted, store u256_be (val_bitset_bucket val_id) (bits OR mask) h))"

definition remove_from_valset :: "u64 \<Rightarrow> host \<Rightarrow> host" where
  "remove_from_valset val_id h =
     (let bits = load u256_be (val_bitset_bucket val_id) h;
          mask = NOT (valset_mask val_id)
      in store u256_be (val_bitset_bucket val_id) (bits AND mask) h)"

definition can_promote_delta :: "u64 \<Rightarrow> address \<Rightarrow> u64 \<Rightarrow> host \<Rightarrow> bool" where
  "can_promote_delta v a e h \<longleftrightarrow> get_delta_epoch v a h = 0 \<and> get_next_delta_epoch v a h \<le> e + 1"

definition promote_delta :: "u64 \<Rightarrow> address \<Rightarrow> host \<Rightarrow> host" where
  "promote_delta v a h =
     (let h = store u256_be (DDelta v a) (next_delta_stake v a h) h;
          h = clear u256_be (DNextDelta v a) h;
          h = set_delta_epoch v a (get_next_delta_epoch v a h) h
      in set_next_delta_epoch v a 0 h)"

definition apply_compound :: "u64 \<Rightarrow> address \<Rightarrow> host \<Rightarrow> (u256 \<times> host) result" where
  "apply_compound val_id a h =
     (let (epoch_acc, h) = decrement_accumulator_refcount (get_delta_epoch val_id a h) val_id h;
          stake = del_stake val_id a h;
          delta = delta_stake val_id a h;
          acc = del_acc val_id a h
      in tryR (calculate_rewards stake epoch_acc acc) (\<lambda>rewards.
           let h = store u256_be (DAcc val_id a) epoch_acc h
           in tryR (checked_add stake delta) (\<lambda>compounded_stake.
             let h = store u256_be (DStake val_id a) compounded_stake h
             in Inr (rewards, promote_delta val_id a h))))"

definition reward_invariant :: "u64 \<Rightarrow> u256 \<Rightarrow> host \<Rightarrow> host result" where
  "reward_invariant val_id rewards h =
     (let is_solvent = unclaimed_rewards val_id h \<ge> rewards
      in if \<not> is_solvent then Inl (StakingE SolvencyError)
         else let old_unclaimed = unclaimed_rewards val_id h
           in tryR (checked_sub old_unclaimed rewards) (\<lambda>unclaimed.
                Inr (store u256_be (VUnclaimed val_id) unclaimed h)))"

text \<open>The block that \<open>pull_delegator_up_to_date\<close> repeats: compound, check solvency, credit the delegator.\<close>

definition compound_and_credit :: "u64 \<Rightarrow> address \<Rightarrow> host \<Rightarrow> host result" where
  "compound_and_credit val_id a h =
     tryR (apply_compound val_id a h) (\<lambda>(rewards, h).
     tryR (reward_invariant val_id rewards h) (\<lambda>h.
     tryR (checked_add (del_rewards val_id a h) rewards) (\<lambda>new_rewards.
       Inr (store u256_be (DRewards val_id a) new_rewards h))))"

text \<open>The last block of \<open>pull_delegator_up_to_date\<close>: the rewards of the active stake up to now.\<close>

definition settle_active_stake :: "u64 \<Rightarrow> address \<Rightarrow> host \<Rightarrow> host result" where
  "settle_active_stake val_id a h =
     (if del_stake val_id a h = 0 then Inr h
      else tryR (calculate_rewards (del_stake val_id a h) (val_acc val_id h) (del_acc val_id a h)) (\<lambda>rewards.
           tryR (reward_invariant val_id rewards h) (\<lambda>h.
           tryR (checked_add (del_rewards val_id a h) rewards) (\<lambda>new_rewards.
             let h = store u256_be (DRewards val_id a) new_rewards h
             in Inr (store u256_be (DAcc val_id a) (val_acc val_id h) h)))))"

definition pull_delegator_up_to_date :: "u64 \<Rightarrow> address \<Rightarrow> host \<Rightarrow> host result" where
  "pull_delegator_up_to_date val_id a h =
     (let h = (if can_promote_delta val_id a (epoch h) h then promote_delta val_id a h else h);
          can_compound = is_epoch_active (get_delta_epoch val_id a h) h;
          can_compound_boundary = is_epoch_active (get_next_delta_epoch val_id a h) h
      in tryR (if can_compound_boundary
               then if \<not> can_compound then Inl (Thrown ''staking compound logic error'')
                    else compound_and_credit val_id a h
               else Inr h) (\<lambda>h.
         tryR (if can_compound then compound_and_credit val_id a h else Inr h) (\<lambda>h.
         settle_active_stake val_id a h)))"

lemma pull_preserves:
  assumes "pull_delegator_up_to_date v a h = Inr h'" and "P h"
    and "can_promote_delta v a (epoch h) h \<Longrightarrow> P (promote_delta v a h)"
    and "\<And>g g'. P g \<Longrightarrow> compound_and_credit v a g = Inr g' \<Longrightarrow> P g'"
    and "\<And>g g'. P g \<Longrightarrow> settle_active_stake v a g = Inr g' \<Longrightarrow> P g'"
  shows "P h'"
proof -
  define h1 where "h1 = (if can_promote_delta v a (epoch h) h then promote_delta v a h else h)"
  have "P h1"
    using assms(2,3) by (simp add: h1_def)
  moreover obtain h2 h3 where "h2 = h1 \<or> compound_and_credit v a h1 = Inr h2"
    and "h3 = h2 \<or> compound_and_credit v a h2 = Inr h3" and "settle_active_stake v a h3 = Inr h'"
    using assms(1) unfolding pull_delegator_up_to_date_def Let_def h1_def [symmetric]
    by (cases "is_epoch_active (get_next_delta_epoch v a h1) h1";
        cases "is_epoch_active (get_delta_epoch v a h1) h1") (auto simp: tryR_eq_Inr)
  ultimately show ?thesis
    using assms(4,5) by metis
qed

definition apply_reward :: "u64 \<Rightarrow> address \<Rightarrow> u256 \<Rightarrow> u256 \<Rightarrow> host \<Rightarrow> host result" where
  "apply_reward val_id from new_rewards active_stake h =
     tryR (checked_mul_div new_rewards UNIT_BIAS active_stake) (\<lambda>reward_acc.
     tryR (checked_add (val_acc val_id h) reward_acc) (\<lambda>acc.
       let h = store u256_be (VAcc val_id) acc h
       in tryR (checked_add (unclaimed_rewards val_id h) new_rewards) (\<lambda>unclaimed.
            let h = store u256_be (VUnclaimed val_id) unclaimed h
            in Inr (emit_validator_rewarded_event val_id from new_rewards h))))"

section \<open>Queries\<close>

type_synonym precompile_result = "(bytes \<times> host) result"

definition encode_args :: "(AbiEncoder \<Rightarrow> AbiEncoder) list \<Rightarrow> bytes" where
  "encode_args adds = encode_final (fold (\<lambda>f e. f e) adds empty_encoder)"

definition get_valset_page :: "valset \<Rightarrow> u32 \<Rightarrow> u32 \<Rightarrow> host \<Rightarrow> bool \<times> u32 \<times> u64 list" where
  "get_valset_page vs start_index limit h =
     (let len = array_length vs h;
          finish = min len (ucast start_index + ucast limit);
          valids = map (\<lambda>i. array_get vs (word_of_nat i) h) [unat start_index..<unat finish];
          i = max (ucast start_index) finish
      in (finish = len, ucast i, valids))"

definition get_delegators_for_validator :: "u64 \<Rightarrow> address \<Rightarrow> u32 \<Rightarrow> host \<Rightarrow> bool \<times> address \<times> address list" where
  "get_delegators_for_validator val_id start_delegator limit h =
     linked_list_traverse delegators_of val_id start_delegator limit h"

definition get_validators_for_delegator :: "address \<Rightarrow> u64 \<Rightarrow> u32 \<Rightarrow> host \<Rightarrow> bool \<times> u64 \<times> u64 list" where
  "get_validators_for_delegator delegator start_val_id limit h =
     linked_list_traverse validators_of delegator start_val_id limit h"

definition precompile_get_validator :: "bytes \<Rightarrow> address \<Rightarrow> u256 \<Rightarrow> host \<Rightarrow> precompile_result" where
  "precompile_get_validator input sender msg_value h =
     tryR (function_not_payable msg_value) (\<lambda>_.
     tryR (abi_decode_fixed input) (\<lambda>(val_id, input).
       if input \<noteq> [] then Inl (StakingE InvalidInput)
       else let af = address_flags val_id h;
                k = val_keys val_id h
            in Inr (encode_args
              [add_address (auth_address af),
               add_uint (flags af),
               add_uint (val_stake val_id h),
               add_uint (val_acc val_id h),
               add_uint (val_commission val_id h),
               add_uint (unclaimed_rewards val_id h),
               add_uint (load u256_be (ConsStake val_id) h),
               add_uint (load u256_be (ConsCommission val_id) h),
               add_uint (load u256_be (SnapStake val_id) h),
               add_uint (load u256_be (SnapCommission val_id) h),
               add_bytes (word_bytes (secp_pubkey k)),
               add_bytes (word_bytes (bls_pubkey k))], h)))"

definition precompile_get_delegator :: "bytes \<Rightarrow> address \<Rightarrow> u256 \<Rightarrow> host \<Rightarrow> precompile_result" where
  "precompile_get_delegator input sender msg_value h =
     tryR (function_not_payable msg_value) (\<lambda>_.
     tryR (abi_decode_fixed input) (\<lambda>(val_id, input).
     tryR (abi_decode_fixed input) (\<lambda>(address, input).
       if input \<noteq> [] then Inl (StakingE InvalidInput)
       else tryR (pull_delegator_up_to_date val_id address h) (\<lambda>h.
         let e = epochs val_id address h
         in Inr (encode_args
              [add_uint (del_stake val_id address h),
               add_uint (del_acc val_id address h),
               add_uint (del_rewards val_id address h),
               add_uint (delta_stake val_id address h),
               add_uint (next_delta_stake val_id address h),
               add_uint (delta_epoch e),
               add_uint (next_delta_epoch e)], h)))))"

definition get_valset :: "bytes \<Rightarrow> valset \<Rightarrow> host \<Rightarrow> precompile_result" where
  "get_valset input vs h =
     tryR (abi_decode_fixed input) (\<lambda>(start_index, input).
       if input \<noteq> [] then Inl (StakingE InvalidInput)
       else if array_length vs h > 0xFFFFFFFF then Inl (StakingE InternalError)
       else let (done, next_index, valids) = get_valset_page vs start_index array_pagination h
            in Inr (encode_args [add_bool done, add_uint next_index, add_uint_array valids], h))"

definition precompile_get_consensus_valset :: "bytes \<Rightarrow> address \<Rightarrow> u256 \<Rightarrow> host \<Rightarrow> precompile_result" where
  "precompile_get_consensus_valset input sender msg_value h =
     tryR (function_not_payable msg_value) (\<lambda>_. get_valset input Consensus h)"

definition precompile_get_snapshot_valset :: "bytes \<Rightarrow> address \<Rightarrow> u256 \<Rightarrow> host \<Rightarrow> precompile_result" where
  "precompile_get_snapshot_valset input sender msg_value h =
     tryR (function_not_payable msg_value) (\<lambda>_. get_valset input Snapshot h)"

definition precompile_get_execution_valset :: "bytes \<Rightarrow> address \<Rightarrow> u256 \<Rightarrow> host \<Rightarrow> precompile_result" where
  "precompile_get_execution_valset input sender msg_value h =
     tryR (function_not_payable msg_value) (\<lambda>_. get_valset input Execution h)"

definition precompile_get_delegations ::
  "monad_revision \<Rightarrow> bytes \<Rightarrow> address \<Rightarrow> u256 \<Rightarrow> host \<Rightarrow> precompile_result" where
  "precompile_get_delegations traits input sender msg_value h =
     tryR (function_not_payable msg_value) (\<lambda>_.
     tryR (abi_decode_fixed input) (\<lambda>(delegator, input).
     tryR (abi_decode_fixed input) (\<lambda>(start_val_id, input).
       if input \<noteq> [] then Inl (StakingE InvalidInput)
       else let (done, next_val_id, vals_page) =
                  get_validators_for_delegator delegator start_val_id (linked_list_pagination traits) h
            in Inr (encode_args [add_bool done, add_uint next_val_id, add_uint_array vals_page], h))))"

definition precompile_get_delegators ::
  "monad_revision \<Rightarrow> bytes \<Rightarrow> address \<Rightarrow> u256 \<Rightarrow> host \<Rightarrow> precompile_result" where
  "precompile_get_delegators traits input sender msg_value h =
     tryR (function_not_payable msg_value) (\<lambda>_.
     tryR (abi_decode_fixed input) (\<lambda>(val_id, input).
     tryR (abi_decode_fixed input) (\<lambda>(start_delegator_address, input).
       if input \<noteq> [] then Inl (StakingE InvalidInput)
       else let (done, next_del_addr, dels_page) =
                  get_delegators_for_validator val_id start_delegator_address (linked_list_pagination traits) h
            in Inr (encode_args [add_bool done, add_address next_del_addr, add_address_array dels_page], h))))"

definition precompile_get_epoch :: "bytes \<Rightarrow> address \<Rightarrow> u256 \<Rightarrow> host \<Rightarrow> precompile_result" where
  "precompile_get_epoch input sender msg_value h =
     tryR (function_not_payable msg_value) (\<lambda>_.
       Inr (encode_args [add_uint (epoch h), add_bool (in_epoch_delay_period h)], h))"

definition precompile_get_proposer_val_id :: "bytes \<Rightarrow> address \<Rightarrow> u256 \<Rightarrow> host \<Rightarrow> precompile_result" where
  "precompile_get_proposer_val_id input sender msg_value h =
     tryR (function_not_payable msg_value) (\<lambda>_. Inr (encode_args [add_uint (proposer_val_id h)], h))"

definition precompile_get_withdrawal_request :: "bytes \<Rightarrow> address \<Rightarrow> u256 \<Rightarrow> host \<Rightarrow> precompile_result" where
  "precompile_get_withdrawal_request input sender msg_value h =
     tryR (function_not_payable msg_value) (\<lambda>_.
     tryR (abi_decode_fixed input) (\<lambda>(val_id, input).
     tryR (abi_decode_fixed input) (\<lambda>(delegator, input).
     tryR (abi_decode_fixed input) (\<lambda>(withdrawal_id, input).
       if input \<noteq> [] then Inl (StakingE InvalidInput)
       else let request = withdrawal_request val_id delegator withdrawal_id h
            in Inr (encode_args
              [add_uint (wr_amount request), add_uint (wr_acc request), add_uint (wr_epoch request)], h)))))"

definition precompile_fallback :: "bytes \<Rightarrow> address \<Rightarrow> u256 \<Rightarrow> host \<Rightarrow> precompile_result" where
  "precompile_fallback input sender msg_value h = Inl (StakingE MethodNotSupported)"

section \<open>Delegation\<close>

text \<open>The four parts of \<open>delegate\<close> that follow each other in the source: the new stake of the delegator
  and its activation, the flags of the validator, and the execution set.\<close>

definition delegate_stake :: "u64 \<Rightarrow> u256 \<Rightarrow> address \<Rightarrow> host \<Rightarrow> host result" where
  "delegate_stake val_id stake address h =
     (let active_epoch = get_activation_epoch h
      in tryR (if in_epoch_delay_period h
               then let need = (get_next_delta_epoch val_id address h = 0)
                    in tryR (checked_add (next_delta_stake val_id address h) stake) (\<lambda>delta.
                         let h = store u256_be (DNextDelta val_id address) delta h
                         in Inr (need, set_next_delta_epoch val_id address active_epoch h))
               else let need = (get_delta_epoch val_id address h = 0)
                    in tryR (checked_add (delta_stake val_id address h) stake) (\<lambda>delta.
                         let h = store u256_be (DDelta val_id address) delta h
                         in Inr (need, set_delta_epoch val_id address active_epoch h)))
         (\<lambda>(need_future_accumulator, h).
            let h = (if need_future_accumulator then increment_accumulator_refcount val_id h else h)
            in Inr (emit_delegation_event val_id address stake active_epoch h)))"

definition delegate_flags :: "monad_revision \<Rightarrow> u64 \<Rightarrow> u256 \<Rightarrow> address \<Rightarrow> host \<Rightarrow> host" where
  "delegate_flags traits val_id new_val_stake address h =
     (let oldflags = get_flags val_id h;
          h = (if new_val_stake \<ge> active_validator_stake traits
               then clear_flag val_id ValidatorFlagsStakeTooLow h else h);
          h = (if val_auth_address val_id h = address \<and>
                  get_next_epoch_stake val_id address h \<ge> min_auth_address_stake
               then clear_flag val_id ValidatorFlagWithdrawn h else h)
      in if get_flags val_id h \<noteq> oldflags
         then emit_validator_status_changed_event val_id (get_flags val_id h) h else h)"

definition delegate_valset :: "u64 \<Rightarrow> host \<Rightarrow> host" where
  "delegate_valset val_id h =
     (if get_flags val_id h = ValidatorFlagsOk
      then let (inserted, h) = add_to_valset val_id h
           in if inserted then array_push Execution val_id h else h
      else h)"

definition delegate :: "monad_revision \<Rightarrow> u64 \<Rightarrow> u256 \<Rightarrow> address \<Rightarrow> host \<Rightarrow> host result" where
  "delegate traits val_id stake address h =
     (if \<not> val_exists val_id h then Inl (StakingE UnknownValidator)
      else if stake < dust_threshold then Inl (StakingE DelegationTooSmall)
      else tryR (pull_delegator_up_to_date val_id address h) (\<lambda>h.
        tryR (delegate_stake val_id stake address h) (\<lambda>h.
        tryR (checked_add (val_stake val_id h) stake) (\<lambda>new_val_stake.
          let h = store u256_be (VStake val_id) new_val_stake h;
              h = delegate_flags traits val_id new_val_stake address h;
              h = delegate_valset val_id h
          in tryR (linked_list_insert delegators_of val_id address h) (\<lambda>h.
             linked_list_insert validators_of address val_id h)))))"

lemma delegateE:
  assumes "delegate t v s a h = Inr h'"
  obtains h1 h2 n h3 where "val_exists v h" "dust_threshold \<le> s" "pull_delegator_up_to_date v a h = Inr h1"
    "delegate_stake v s a h1 = Inr h2" "checked_add (val_stake v h2) s = Inr n"
    "linked_list_insert delegators_of v a
      (delegate_valset v (delegate_flags t v n a (store u256_be (VStake v) n h2))) = Inr h3"
    "linked_list_insert validators_of a v h3 = Inr h'"
  using assms by (auto simp: delegate_def try_simps Let_def not_less split: if_splits)

text \<open>The inputs of \<open>addValidator\<close>: the message with its fields and the two signatures.\<close>

definition MESSAGE_SIZE :: nat where
  "MESSAGE_SIZE = 33 + 48 + 20 + 32 + 32"

definition decode_add_validator :: "bytes \<Rightarrow> (bytes \<times> bytes \<times> bytes) result" where
  "decode_add_validator input =
     tryR (abi_decode_fixed input) (\<lambda>(_ :: u256, input).
     tryR (abi_decode_fixed input) (\<lambda>(_ :: u256, input).
     tryR (abi_decode_fixed input) (\<lambda>(_ :: u256, input).
     tryR (abi_decode_bytes_tail MESSAGE_SIZE input) (\<lambda>(message, input).
     tryR (abi_decode_bytes_tail 64 input) (\<lambda>(secp_signature_compressed, input).
     tryR (abi_decode_bytes_tail 96 input) (\<lambda>(bls_signature_compressed, input).
       if input \<noteq> [] then Inl (StakingE InvalidInput)
       else Inr (message, secp_signature_compressed, bls_signature_compressed)))))))"

text \<open>The fields of the message, read in order by \<open>consume_bytes\<close>.\<close>

record validator_message =
  m_secp_pubkey :: bytes
  m_bls_pubkey :: bytes
  m_auth_address :: address
  m_signed_stake :: bytes
  m_commission :: u256

definition read_message :: "bytes \<Rightarrow> validator_message" where
  "read_message message =
     (let reader = message;
          (secp_pubkey_compressed, reader) = consume_bytes reader 33;
          (bls_pubkey_compressed, reader) = consume_bytes reader 48;
          (auth_bytes, reader) = consume_bytes reader 20;
          (signed_stake, reader) = consume_bytes reader 32;
          (commission_bytes, reader) = consume_bytes reader 32
      in \<lparr>m_secp_pubkey = secp_pubkey_compressed, m_bls_pubkey = bls_pubkey_compressed,
          m_auth_address = bytes_word auth_bytes, m_signed_stake = signed_stake,
          m_commission = bytes_word commission_bytes\<rparr>)"

text \<open>The checks of \<open>precompile_add_validator\<close> in their order, and the addresses derived from the keys.\<close>

definition check_add_validator ::
  "crypto \<Rightarrow> bytes \<Rightarrow> bytes \<Rightarrow> bytes \<Rightarrow> u256 \<Rightarrow> (address \<times> address) result" where
  "check_add_validator cr message secp_signature_compressed bls_signature_compressed msg_value =
     (let m = read_message message;
          stake = msg_value;
          secp_pubkey = new_Secp256k1Pubkey cr (m_secp_pubkey m);
          secp_sig = new_Secp256k1Signature cr secp_signature_compressed;
          bls_pubkey = new_BlsPubkey cr (m_bls_pubkey m);
          bls_sig = new_BlsSignature cr bls_signature_compressed
      in if m_signed_stake m \<noteq> word_bytes msg_value then Inl (StakingE InvalidInput)
         else if stake < min_auth_address_stake then Inl (StakingE InsufficientStake)
         else if \<not> secp_pubkey_is_valid secp_pubkey then Inl (StakingE InvalidSecpPubkey)
         else if \<not> secp_sig_is_valid secp_sig then Inl (StakingE InvalidSecpSignature)
         else if \<not> secp_sig_verify cr secp_sig secp_pubkey message
           then Inl (StakingE SecpSignatureVerificationFailed)
         else if \<not> bls_pubkey_is_valid cr bls_pubkey then Inl (StakingE InvalidBlsPubkey)
         else if \<not> bls_sig_is_valid cr bls_sig then Inl (StakingE InvalidBlsSignature)
         else if \<not> bls_sig_verify cr bls_sig bls_pubkey message
           then Inl (StakingE BlsSignatureVerificationFailed)
         else if m_commission m > max_commission then Inl (StakingE CommissionTooHigh)
         else tryR (secp_pubkey_serialize cr secp_pubkey) (\<lambda>secp_serialized.
              tryR (address_from_secpkey cr secp_serialized) (\<lambda>secp_eth_address.
                Inr (secp_eth_address, address_from_bls_key cr (bls_pubkey_serialize cr bls_pubkey)))))"

definition create_validator ::
  "address \<Rightarrow> address \<Rightarrow> validator_message \<Rightarrow> host \<Rightarrow> (u64 \<times> host) result" where
  "create_validator secp_eth_address bls_eth_address m h =
     (if load_checked u64_be (ValIdSecp secp_eth_address) h \<noteq> None \<or>
         load_checked u64_be (ValIdBls bls_eth_address) h \<noteq> None
      then Inl (StakingE ValidatorExists)
      else let val_id = last_val_id h + 1;
               h = store u64_be (ValIdSecp secp_eth_address) val_id h;
               h = store u64_be (ValIdBls bls_eth_address) val_id h;
               h = store u64_be LastValId val_id h;
               h = store keys_codec (VKeys val_id)
                     \<lparr>secp_pubkey = bytes_word (m_secp_pubkey m), bls_pubkey = bytes_word (m_bls_pubkey m)\<rparr> h;
               h = store address_flags_codec (VAddressFlags val_id)
                     \<lparr>auth_address = m_auth_address m, flags = ValidatorFlagsStakeTooLow\<rparr> h;
               h = store u256_be (VCommission val_id) (m_commission m) h
           in Inr (val_id, emit_validator_created_event val_id (m_auth_address m) (m_commission m) h))"

definition precompile_add_validator ::
  "crypto \<Rightarrow> monad_revision \<Rightarrow> bytes \<Rightarrow> address \<Rightarrow> u256 \<Rightarrow> host \<Rightarrow> precompile_result" where
  "precompile_add_validator cr traits input sender msg_value h =
     tryR (decode_add_validator input) (\<lambda>(message, secp_signature_compressed, bls_signature_compressed).
     tryR (check_add_validator cr message secp_signature_compressed bls_signature_compressed msg_value)
       (\<lambda>(secp_eth_address, bls_eth_address).
     tryR (create_validator secp_eth_address bls_eth_address (read_message message) h) (\<lambda>(val_id, h).
     tryR (delegate traits val_id msg_value (m_auth_address (read_message message)) h) (\<lambda>h.
       Inr (abi_encode_uint val_id, h)))))"

definition precompile_delegate ::
  "monad_revision \<Rightarrow> bytes \<Rightarrow> address \<Rightarrow> u256 \<Rightarrow> host \<Rightarrow> precompile_result" where
  "precompile_delegate traits input msg_sender msg_value h =
     tryR (abi_decode_fixed input) (\<lambda>(val_id, input).
       if input \<noteq> [] then Inl (StakingE InvalidInput)
       else let stake = msg_value
         in tryR (if stake \<noteq> 0 then delegate traits val_id stake msg_sender h else Inr h) (\<lambda>h.
              Inr (abi_encode_bool True, h)))"

text \<open>The stake bookkeeping of \<open>undelegate\<close>: the amount withdrawn, with the dust that would remain, and
  the stakes of the validator and the delegator.\<close>

definition undelegate_amounts :: "u256 \<Rightarrow> u256 \<Rightarrow> u256 \<Rightarrow> (u256 \<times> u256 \<times> u256) result" where
  "undelegate_amounts amount val_stk del_stk =
     tryR (checked_sub val_stk amount) (\<lambda>val_stk.
     tryR (checked_sub del_stk amount) (\<lambda>del_stk.
       if del_stk < dust_threshold
       then tryR (checked_add amount del_stk) (\<lambda>amount.
            tryR (checked_sub val_stk del_stk) (\<lambda>val_stk.
              Inr (amount, val_stk, 0)))
       else Inr (amount, val_stk, del_stk)))"

definition undelegate_flags :: "monad_revision \<Rightarrow> u64 \<Rightarrow> u256 \<Rightarrow> address \<Rightarrow> host \<Rightarrow> host" where
  "undelegate_flags traits val_id val_stk msg_sender h =
     (let oldflags = get_flags val_id h;
          h = (if msg_sender = val_auth_address val_id h \<and>
                  get_next_epoch_stake val_id msg_sender h < min_auth_address_stake
               then set_flag val_id ValidatorFlagWithdrawn h else h);
          h = (if val_stk < active_validator_stake traits
               then set_flag val_id ValidatorFlagsStakeTooLow h else h)
      in if get_flags val_id h \<noteq> oldflags
         then emit_validator_status_changed_event val_id (get_flags val_id h) h else h)"

text \<open>The state after the stakes are known: stakes, flags, event, withdrawal request and accumulator.\<close>

definition record_withdrawal ::
  "monad_revision \<Rightarrow> u64 \<Rightarrow> u256 \<Rightarrow> u256 \<Rightarrow> u256 \<Rightarrow> u8 \<Rightarrow> address \<Rightarrow> host \<Rightarrow> host" where
  "record_withdrawal traits val_id amount val_stk del_stk withdrawal_id msg_sender h =
     (let h = store u256_be (VStake val_id) val_stk h;
          h = store u256_be (DStake val_id msg_sender) del_stk h;
          withdrawal_epoch = get_activation_epoch h;
          h = undelegate_flags traits val_id val_stk msg_sender h;
          h = emit_undelegate_event val_id msg_sender withdrawal_id amount withdrawal_epoch h;
          h = store withdrawal_codec (Withdrawal val_id msg_sender withdrawal_id)
                \<lparr>wr_amount = amount, wr_acc = del_acc val_id msg_sender h, wr_epoch = withdrawal_epoch\<rparr> h;
          h = increment_accumulator_refcount val_id h
      in if del_stake val_id msg_sender h = 0 then clear u256_be (DAcc val_id msg_sender) h else h)"

definition undelegate ::
  "monad_revision \<Rightarrow> u64 \<Rightarrow> u256 \<Rightarrow> u8 \<Rightarrow> address \<Rightarrow> host \<Rightarrow> host result" where
  "undelegate traits val_id amount withdrawal_id msg_sender h =
     (if amount = 0 then Inr h
      else if \<not> val_exists val_id h then Inl (StakingE UnknownValidator)
      else if load_checked withdrawal_codec (Withdrawal val_id msg_sender withdrawal_id) h \<noteq> None
        then Inl (StakingE WithdrawalIdExists)
      else tryR (pull_delegator_up_to_date val_id msg_sender h) (\<lambda>h.
        let val_stk = val_stake val_id h;
            del_stk = del_stake val_id msg_sender h
        in if del_stk < amount then Inl (StakingE InsufficientStake)
           else tryR (undelegate_amounts amount val_stk del_stk) (\<lambda>(amount, val_stk, del_stk).
             let h = record_withdrawal traits val_id amount val_stk del_stk withdrawal_id msg_sender h
             in if get_next_epoch_stake val_id msg_sender h = 0
                then tryR (linked_list_remove delegators_of val_id msg_sender h) (\<lambda>h.
                     linked_list_remove validators_of msg_sender val_id h)
                else Inr h)))"

lemma undelegateE:
  assumes "undelegate t v n w a h = Inr h'"
  obtains "n = 0" "h' = h"
  | h1 n' vs ds h2 where "n \<noteq> 0" "val_exists v h" "load_checked withdrawal_codec (Withdrawal v a w) h = None"
      "pull_delegator_up_to_date v a h = Inr h1" "n \<le> del_stake v a h1"
      "undelegate_amounts n (val_stake v h1) (del_stake v a h1) = Inr (n', vs, ds)"
      "h2 = record_withdrawal t v n' vs ds w a h1"
      "get_next_epoch_stake v a h2 \<noteq> 0 \<and> h' = h2 \<or>
       get_next_epoch_stake v a h2 = 0 \<and>
         (\<exists>h3. linked_list_remove delegators_of v a h2 = Inr h3 \<and> linked_list_remove validators_of a v h3 = Inr h')"
  using assms
  by (cases "n = 0") (auto simp: undelegate_def try_simps Let_def not_less split: if_splits)

definition precompile_undelegate ::
  "monad_revision \<Rightarrow> bytes \<Rightarrow> address \<Rightarrow> u256 \<Rightarrow> host \<Rightarrow> precompile_result" where
  "precompile_undelegate traits input msg_sender msg_value h =
     tryR (function_not_payable msg_value) (\<lambda>_.
     tryR (abi_decode_fixed input) (\<lambda>(val_id, input).
     tryR (abi_decode_fixed input) (\<lambda>(stake, input).
     tryR (abi_decode_fixed input) (\<lambda>(withdrawal_id, input).
       if input \<noteq> [] then Inl (StakingE InvalidInput)
       else tryR (undelegate traits val_id stake withdrawal_id msg_sender h) (\<lambda>h.
         Inr (abi_encode_bool True, h))))))"

definition compound :: "monad_revision \<Rightarrow> u64 \<Rightarrow> address \<Rightarrow> host \<Rightarrow> host result" where
  "compound traits val_id msg_sender h =
     tryR (pull_delegator_up_to_date val_id msg_sender h) (\<lambda>h.
       let rewards = del_rewards val_id msg_sender h;
           h = clear u256_be (DRewards val_id msg_sender) h
       in if rewards \<noteq> 0
          then let h = emit_claim_rewards_event val_id msg_sender rewards h
               in delegate traits val_id rewards msg_sender h
          else Inr h)"

definition precompile_compound ::
  "monad_revision \<Rightarrow> bytes \<Rightarrow> address \<Rightarrow> u256 \<Rightarrow> host \<Rightarrow> precompile_result" where
  "precompile_compound traits input msg_sender msg_value h =
     tryR (function_not_payable msg_value) (\<lambda>_.
     tryR (abi_decode_fixed input) (\<lambda>(val_id, input).
       if input \<noteq> [] then Inl (StakingE InvalidInput)
       else tryR (compound traits val_id msg_sender h) (\<lambda>h. Inr (abi_encode_bool True, h))))"

definition withdraw :: "u64 \<Rightarrow> u8 \<Rightarrow> address \<Rightarrow> host \<Rightarrow> host result" where
  "withdraw val_id withdrawal_id msg_sender h =
     (case load_checked withdrawal_codec (Withdrawal val_id msg_sender withdrawal_id) h of
        None \<Rightarrow> Inl (StakingE UnknownWithdrawalId)
      | Some request \<Rightarrow>
          let h = clear withdrawal_codec (Withdrawal val_id msg_sender withdrawal_id) h;
              ready = is_epoch_active (wr_epoch request + withdrawal_delay) h
          in if \<not> ready then Inl (StakingE WithdrawalNotReady)
             else let (withdraw_acc, h) = decrement_accumulator_refcount (wr_epoch request) val_id h;
                      withdrawal_amount = wr_amount request
               in tryR (calculate_rewards withdrawal_amount withdraw_acc (wr_acc request)) (\<lambda>rewards.
                  tryR (reward_invariant val_id rewards h) (\<lambda>h.
                  tryR (checked_add withdrawal_amount rewards) (\<lambda>withdrawal_amount.
                    let contract_balance = get_balance STAKING_CA h
                    in if \<not> contract_balance \<ge> withdrawal_amount then Inl (Thrown ''withdrawal insolvent'')
                       else tryR (send_tokens msg_sender withdrawal_amount h) (\<lambda>h.
                         Inr (emit_withdraw_event val_id msg_sender withdrawal_id withdrawal_amount h))))))"

lemma withdrawE:
  assumes "withdraw v w a h = Inr h'"
  obtains r acc h1 rewards h2 amount h3 where "load_checked withdrawal_codec (Withdrawal v a w) h = Some r"
    "is_epoch_active (wr_epoch r + withdrawal_delay) h"
    "decrement_accumulator_refcount (wr_epoch r) v (clear withdrawal_codec (Withdrawal v a w) h) = (acc, h1)"
    "calculate_rewards (wr_amount r) acc (wr_acc r) = Inr rewards" "reward_invariant v rewards h1 = Inr h2"
    "checked_add (wr_amount r) rewards = Inr amount" "send_tokens a amount h2 = Inr h3"
    "h' = emit_withdraw_event v a w amount h3"
  using assms
  by (auto simp: withdraw_def try_simps Let_def is_epoch_active_def split: option.splits if_splits prod.splits)

definition precompile_withdraw :: "bytes \<Rightarrow> address \<Rightarrow> u256 \<Rightarrow> host \<Rightarrow> precompile_result" where
  "precompile_withdraw input msg_sender msg_value h =
     tryR (function_not_payable msg_value) (\<lambda>_.
     tryR (abi_decode_fixed input) (\<lambda>(val_id, input).
     tryR (abi_decode_fixed input) (\<lambda>(withdrawal_id, input).
       if input \<noteq> [] then Inl (StakingE InvalidInput)
       else tryR (withdraw val_id withdrawal_id msg_sender h) (\<lambda>h. Inr (abi_encode_bool True, h)))))"

definition claim_rewards :: "u64 \<Rightarrow> address \<Rightarrow> host \<Rightarrow> host result" where
  "claim_rewards val_id msg_sender h =
     tryR (pull_delegator_up_to_date val_id msg_sender h) (\<lambda>h.
       let rewards = del_rewards val_id msg_sender h
       in if rewards \<noteq> 0
          then tryR (send_tokens msg_sender rewards h) (\<lambda>h.
            let h = clear u256_be (DRewards val_id msg_sender) h
            in Inr (emit_claim_rewards_event val_id msg_sender rewards h))
          else Inr h)"

definition precompile_claim_rewards :: "bytes \<Rightarrow> address \<Rightarrow> u256 \<Rightarrow> host \<Rightarrow> precompile_result" where
  "precompile_claim_rewards input msg_sender msg_value h =
     tryR (function_not_payable msg_value) (\<lambda>_.
     tryR (abi_decode_fixed input) (\<lambda>(val_id, input).
       if input \<noteq> [] then Inl (StakingE InvalidInput)
       else tryR (claim_rewards val_id msg_sender h) (\<lambda>h. Inr (abi_encode_bool True, h))))"

definition change_commission :: "u64 \<Rightarrow> u256 \<Rightarrow> address \<Rightarrow> host \<Rightarrow> host result" where
  "change_commission val_id new_commission msg_sender h =
     (if \<not> val_exists val_id h then Inl (StakingE UnknownValidator)
      else if msg_sender \<noteq> val_auth_address val_id h then Inl (StakingE RequiresAuthAddress)
      else if new_commission > max_commission then Inl (StakingE CommissionTooHigh)
      else let old_commission = val_commission val_id h
           in if old_commission \<noteq> new_commission
              then let h = store u256_be (VCommission val_id) new_commission h
                   in Inr (emit_commission_changed_event val_id old_commission new_commission h)
              else Inr h)"

definition precompile_change_commission :: "bytes \<Rightarrow> address \<Rightarrow> u256 \<Rightarrow> host \<Rightarrow> precompile_result" where
  "precompile_change_commission input msg_sender msg_value h =
     tryR (function_not_payable msg_value) (\<lambda>_.
     tryR (abi_decode_fixed input) (\<lambda>(val_id, input).
     tryR (abi_decode_fixed input) (\<lambda>(new_commission, input).
       if input \<noteq> [] then Inl (StakingE InvalidInput)
       else tryR (change_commission val_id new_commission msg_sender h) (\<lambda>h.
         Inr (abi_encode_bool True, h)))))"

definition external_reward :: "u64 \<Rightarrow> u256 \<Rightarrow> address \<Rightarrow> host \<Rightarrow> host result" where
  "external_reward val_id reward sender h =
     (if \<not> val_exists val_id h then Inl (StakingE UnknownValidator)
      else let active_stake = this_epoch_view_stake val_id h
        in if active_stake = 0 then Inl (StakingE NotInValidatorSet)
           else if reward < min_external_reward then Inl (StakingE ExternalRewardTooSmall)
           else if reward > max_external_reward then Inl (StakingE ExternalRewardTooLarge)
           else apply_reward val_id sender reward active_stake h)"

definition precompile_external_reward :: "bytes \<Rightarrow> address \<Rightarrow> u256 \<Rightarrow> host \<Rightarrow> precompile_result" where
  "precompile_external_reward input sender msg_value h =
     tryR (abi_decode_fixed input) (\<lambda>(val_id, input).
       if input \<noteq> [] then Inl (StakingE InvalidInput)
       else tryR (external_reward val_id msg_value sender h) (\<lambda>h. Inr (abi_encode_bool True, h)))"

end
