(* ===== verification/StakingSyscalls.thy ===== *)
theory StakingSyscalls
  imports StakingContract
begin

text \<open>
  The system calls of the staking contract (\<open>syscall_on_epoch_change\<close>, \<open>syscall_reward\<close> and
  \<open>syscall_snapshot\<close> of \<open>staking_contract.cpp\<close>), the block prelude (\<open>execute_block_prelude.cpp\<close>) and the
  reader of the validator set for consensus (\<open>read_valset.cpp\<close>). Each loop is a definition of its own;
  the loops that pop an array until it is empty are shown to terminate.
\<close>

section \<open>Epoch change\<close>

definition refresh_accumulator :: "u64 \<Rightarrow> u64 \<Rightarrow> host \<Rightarrow> host" where
  "refresh_accumulator e val_id h =
     (case load_checked accumulator_codec (Accumulator e val_id) h of
        None \<Rightarrow> h
      | Some acc \<Rightarrow> store accumulator_codec (Accumulator e val_id) (acc\<lparr>ra_value := val_acc val_id h\<rparr>) h)"

definition epoch_change_step :: "u64 \<Rightarrow> nat \<Rightarrow> host \<Rightarrow> host" where
  "epoch_change_step next_epoch i h =
     (let val_id = array_get Snapshot (word_of_nat i) h;
          next_next_epoch = next_epoch + 1;
          h = refresh_accumulator next_epoch val_id h
      in refresh_accumulator next_next_epoch val_id h)"

definition syscall_on_epoch_change :: "bytes \<Rightarrow> u256 \<Rightarrow> host \<Rightarrow> host result" where
  "syscall_on_epoch_change input value h =
     (if value \<noteq> 0 then Inl (StakingE ValueNonZero)
      else tryR (abi_decode_fixed input) (\<lambda>(next_epoch, input).
        if input \<noteq> [] then Inl (StakingE InvalidInput)
        else let last_epoch = epoch h
          in if next_epoch \<le> last_epoch then Inl (StakingE InvalidEpochChange)
             else let h = emit_epoch_changed_event last_epoch next_epoch h;
                      num_active_vals = array_length Snapshot h;
                      h = fold (epoch_change_step next_epoch) [0..<unat num_active_vals] h;
                      h = clear bool_codec InBoundary h
                  in Inr (store u64_be Epoch next_epoch h)))"

section \<open>Reward\<close>

definition syscall_reward :: "monad_revision \<Rightarrow> bytes \<Rightarrow> u256 \<Rightarrow> host \<Rightarrow> host result" where
  "syscall_reward traits input raw_reward h =
     tryR (abi_decode_fixed input) (\<lambda>(block_author, input).
       if input \<noteq> [] then Inl (StakingE InvalidInput)
       else case load_checked u64_be (ValIdSecp block_author) h of
           None \<Rightarrow> Inl (StakingE NotInValidatorSet)
         | Some val_id \<Rightarrow>
             let active_stake = this_epoch_view_stake val_id h
             in if active_stake = 0 then Inl (StakingE NotInValidatorSet)
                else tryR (mint_tokens raw_reward h) (\<lambda>h.
                  let commission_rate = this_epoch_view_commission val_id h
                  in tryR (checked_mul_div raw_reward commission_rate MON) (\<lambda>commission.
                    let auth = val_auth_address val_id h
                    in tryR (checked_add (del_rewards val_id auth h) commission) (\<lambda>auth_reward.
                      let h = store u256_be (DRewards val_id auth) auth_reward h
                      in tryR (checked_sub raw_reward commission) (\<lambda>del_reward.
                         tryR (apply_reward val_id SYSTEM_SENDER del_reward active_stake h) (\<lambda>h.
                           Inr (if traits \<ge> MONAD_FIVE then store u64_be ProposerValId val_id h else h)))))))"

section \<open>Snapshot\<close>

definition view_stake :: "valset \<Rightarrow> u64 \<Rightarrow> svar" where
  "view_stake vs val_id = (if vs = Snapshot then SnapStake val_id else ConsStake val_id)"

definition view_commission :: "valset \<Rightarrow> u64 \<Rightarrow> svar" where
  "view_commission vs val_id = (if vs = Snapshot then SnapCommission val_id else ConsCommission val_id)"

lemma array_pop_shrinks:
  assumes "array_pop vs h = Inr (v, h')"
  shows "unat (array_length vs h') < unat (array_length vs h)"
proof -
  have "array_length vs h \<noteq> 0" and "array_length vs h' = array_length vs h - 1"
    using assms by (auto simp: array_pop_eq Let_def array_access split: if_splits)
  then show ?thesis
    by (simp add: measure_unat)
qed

lemma array_length_store:
  "x \<noteq> ValsetLen vs \<Longrightarrow> sv_slots c = svar_slots x \<Longrightarrow> array_length vs (store c x v h) = array_length vs h"
  by (simp add: array_access)

text \<open>Steps 1 and 3: pop the array until it is empty and clear the view of every id.\<close>

function throw_out_view :: "valset \<Rightarrow> host \<Rightarrow> host result" where
  "throw_out_view vs h =
     (if array_empty vs h then Inr h
      else case array_pop vs h of
          Inl e \<Rightarrow> Inl e
        | Inr (val_id, h') \<Rightarrow>
            throw_out_view vs
              (clear u256_be (view_commission vs val_id) (clear u256_be (view_stake vs val_id) h')))"
  by pat_completeness auto

termination
  by (relation "measure (\<lambda>(vs, h). unat (array_length vs h))")
    (auto simp: array_length_store view_stake_def view_commission_def dest!: array_pop_shrinks)

declare throw_out_view.simps [simp del]

text \<open>Step 2: copy the consensus view to the snapshot view.\<close>

definition copy_view_step :: "nat \<Rightarrow> host \<Rightarrow> host" where
  "copy_view_step i h =
     (let val_id = array_get Consensus (word_of_nat i) h;
          h = array_push Snapshot val_id h;
          h = store u256_be (SnapStake val_id) (load u256_be (ConsStake val_id) h) h
      in store u256_be (SnapCommission val_id) (load u256_be (ConsCommission val_id) h) h)"

text \<open>Step 4: candidates and removals.\<close>

definition candidate_step :: "host \<Rightarrow> nat \<Rightarrow> (u64 \<times> u256) list \<times> nat list \<Rightarrow> (u64 \<times> u256) list \<times> nat list" where
  "candidate_step h i acc =
     (let (candidates, removals) = acc;
          val_id = array_get Execution (word_of_nat i) h;
          fl = get_flags val_id h
      in if fl = ValidatorFlagsOk
         then let stake = val_stake val_id h in (candidates @ [(val_id, stake)], removals)
         else (candidates, removals @ [i]))"

definition find_candidates :: "host \<Rightarrow> (u64 \<times> u256) list \<times> nat list" where
  "find_candidates h = fold (candidate_step h) [0..<unat (array_length Execution h)] ([], [])"

text \<open>Step 5: the order of candidates, and \<open>std::partial_sort\<close>, of which the source uses the first \<open>n\<close>
  elements: the \<open>n\<close> first candidates of the order, in that order.\<close>

definition cmp :: "u64 \<times> u256 \<Rightarrow> u64 \<times> u256 \<Rightarrow> bool" where
  "cmp a b = (if snd a \<noteq> snd b then snd a > snd b else fst a < fst b)"

fun insert_by :: "('a \<Rightarrow> 'a \<Rightarrow> bool) \<Rightarrow> 'a \<Rightarrow> 'a list \<Rightarrow> 'a list" where
  "insert_by lt x [] = [x]"
| "insert_by lt x (y # ys) = (if lt y x then y # insert_by lt x ys else x # y # ys)"

fun sort_by :: "('a \<Rightarrow> 'a \<Rightarrow> bool) \<Rightarrow> 'a list \<Rightarrow> 'a list" where
  "sort_by lt [] = []"
| "sort_by lt (x # xs) = insert_by lt x (sort_by lt xs)"

definition partial_sort :: "nat \<Rightarrow> ('a \<Rightarrow> 'a \<Rightarrow> bool) \<Rightarrow> 'a list \<Rightarrow> 'a list" where
  "partial_sort n lt xs = take n (sort_by lt xs)"

definition select_step :: "u64 \<times> u256 \<Rightarrow> host \<Rightarrow> host" where
  "select_step c h =
     (let (id, stake) = c;
          h = array_push Consensus id h;
          h = store u256_be (ConsStake id) stake h
      in store u256_be (ConsCommission id) (val_commission id h) h)"

text \<open>Step 6: pop-and-swap removal, highest index first.\<close>

fun process_removals :: "nat list \<Rightarrow> host \<Rightarrow> host result" where
  "process_removals [] h = Inr h"
| "process_removals (i # is) h =
     (let id_to_remove = array_get Execution (word_of_nat i) h;
          h = remove_from_valset id_to_remove h
      in tryR (array_pop Execution h) (\<lambda>(swapped_id, h).
           process_removals is (array_set Execution (word_of_nat i) swapped_id h)))"

definition syscall_snapshot :: "bytes \<Rightarrow> u256 \<Rightarrow> host \<Rightarrow> host result" where
  "syscall_snapshot input value h =
     (if value \<noteq> 0 then Inl (StakingE ValueNonZero)
      else if input \<noteq> [] then Inl (StakingE InvalidInput)
      else if in_epoch_delay_period h then Inl (StakingE SnapshotInBoundary)
      else tryR (throw_out_view Snapshot h) (\<lambda>h.
        let consensus_valset_length = array_length Consensus h;
            h = fold copy_view_step [0..<unat consensus_valset_length] h
        in tryR (throw_out_view Consensus h) (\<lambda>h.
          let (candidates, removals) = find_candidates h;
              n = min (length candidates) active_valset_size;
              h = fold select_step (partial_sort n cmp candidates) h
          in tryR (process_removals (rev removals) h) (\<lambda>h.
               Inr (store bool_codec InBoundary True h)))))"

lemma snapshotE:
  assumes "syscall_snapshot data x h = Inr h'"
  obtains h1 h2 h3 where "x = 0" "data = []" "\<not> in_epoch_delay_period h" "throw_out_view Snapshot h = Inr h1"
    "throw_out_view Consensus (fold copy_view_step [0..<unat (array_length Consensus h1)] h1) = Inr h2"
    "process_removals (rev (snd (find_candidates h2)))
      (fold select_step (partial_sort (min (length (fst (find_candidates h2))) active_valset_size) cmp
        (fst (find_candidates h2))) h2) = Inr h3"
    "h' = store bool_codec InBoundary True h3"
  using assms by (auto simp: syscall_snapshot_def try_simps Let_def case_prod_unfold split: if_splits)

section \<open>Block prelude\<close>

definition execute_block_prelude :: "monad_revision \<Rightarrow> host \<Rightarrow> host" where
  "execute_block_prelude traits h =
     (if traits < MONAD_FIVE then h
      else if \<not> account_exists STAKING_CA h then h
      else clear u64_be ProposerValId h)"

section \<open>The validator set for consensus\<close>

record Validator =
  v_secp_pubkey :: bytes
  v_bls_pubkey :: bytes
  v_stake :: u256

definition read_valset :: "u64 \<Rightarrow> host \<Rightarrow> Validator list option result" where
  "read_valset requested_epoch h =
     tryR (add_to_balance STAKING_CA 0 h) (\<lambda>h.
       let contract_epoch = epoch h
       in if requested_epoch = contract_epoch + 1 \<and> \<not> in_epoch_delay_period h then Inr None
          else if requested_epoch < contract_epoch then Inr None
          else if requested_epoch > contract_epoch + 1 then Inr None
          else let get_next_epoch = (requested_epoch = contract_epoch + 1);
                   contract_valset = (if get_next_epoch then Consensus else this_epoch_valset h);
                   get_stake = (\<lambda>id. if get_next_epoch then load u256_be (ConsStake id) h
                                      else this_epoch_view_stake id h);
                   len = array_length contract_valset h
               in if \<not> unat len \<le> active_valset_size then Inl Aborted
                  else Inr (Some (map (\<lambda>i.
                    let val_id = array_get contract_valset (word_of_nat i) h;
                        stake = get_stake val_id;
                        keys = val_keys val_id h
                    in \<lparr>v_secp_pubkey = word_bytes (secp_pubkey keys),
                        v_bls_pubkey = word_bytes (bls_pubkey keys), v_stake = stake\<rparr>) [0..<unat len])))"

end
