(* ===== verification/StakingCalls.thy ===== *)
theory StakingCalls
  imports StakingSyscalls
begin

text \<open>
  How the client reaches the staking contract: the selectors and gas costs of \<open>staking_contract.cpp\<close> and
  \<open>precompile_dispatch\<close>; the precompile check of \<open>monad_precompiles.cpp\<close>; the call frame of
  \<open>ethereum/evm.cpp\<close> that moves the value of the message and keeps or rejects the new state; and the
  system transactions of \<open>validate_system_transaction.cpp\<close> and \<open>execute_system_transaction.cpp\<close>.
  Ethereum's own precompiles, the reserve balance contract and the virtual machine are arguments.
\<close>

section \<open>Gas costs\<close>

record OpCount =
  warm_sloads :: u64
  cold_sloads :: u64
  warm_sstores :: u64
  warm_sstore_nonzero :: u64
  cold_sstores :: u64
  op_events :: u64
  op_transfers :: u64

definition WARM_SLOAD :: u64 where "WARM_SLOAD = 100"
definition COLD_SLOAD :: u64 where "COLD_SLOAD = 8100"
definition WARM_SSTORE :: u64 where "WARM_SSTORE = 2900"
definition WARM_SSTORE_NONZERO :: u64 where "WARM_SSTORE_NONZERO = 2900"
definition COLD_SSTORE :: u64 where "COLD_SSTORE = 2900 + 8000"
definition EVENT_COSTS :: u64 where "EVENT_COSTS = 4275"
definition TRANSFER_COSTS :: u64 where "TRANSFER_COSTS = 11800"
definition EC_RECOVER_COST :: u64 where "EC_RECOVER_COST = 3000"
definition BLS_VERIFY_COST :: u64 where "BLS_VERIFY_COST = 150000"
definition MEMORY_EXPANSION_COST :: u64 where "MEMORY_EXPANSION_COST = 4000"

definition compute_costs :: "OpCount \<Rightarrow> u64" where
  "compute_costs ops =
     WARM_SLOAD * warm_sloads ops + COLD_SLOAD * cold_sloads ops + WARM_SSTORE * warm_sstores ops +
     WARM_SSTORE_NONZERO * warm_sstore_nonzero ops + COLD_SSTORE * cold_sstores ops +
     EVENT_COSTS * op_events ops + TRANSFER_COSTS * op_transfers ops"

definition op_count :: "u64 \<Rightarrow> u64 \<Rightarrow> u64 \<Rightarrow> u64 \<Rightarrow> u64 \<Rightarrow> u64 \<Rightarrow> u64 \<Rightarrow> OpCount" where
  "op_count a b c d e f g = \<lparr>warm_sloads = a, cold_sloads = b, warm_sstores = c,
     warm_sstore_nonzero = d, cold_sstores = e, op_events = f, op_transfers = g\<rparr>"

definition ADD_VALIDATOR_OP_COST :: u64 where
  "ADD_VALIDATOR_OP_COST = compute_costs (op_count 21 22 6 15 9 3 0) + EC_RECOVER_COST + BLS_VERIFY_COST"

definition DELEGATE_OP_COST :: u64 where
  "DELEGATE_OP_COST = compute_costs (op_count 21 17 6 14 5 2 0)"

definition UNDELEGATE_OP_COST :: u64 where
  "UNDELEGATE_OP_COST = compute_costs (op_count 15 11 8 5 1 2 0)"

definition WITHDRAW_OP_COST :: u64 where
  "WITHDRAW_OP_COST = compute_costs (op_count 11 6 1 0 0 1 1)"

definition COMPOUND_OP_COST :: u64 where
  "COMPOUND_OP_COST = compute_costs (op_count 46 17 6 29 3 3 0)"

definition CLAIM_REWARDS_OP_COST :: u64 where
  "CLAIM_REWARDS_OP_COST = compute_costs (op_count 16 11 2 11 1 1 1)"

definition CHANGE_COMMISSION_OP_COST :: u64 where
  "CHANGE_COMMISSION_OP_COST = compute_costs (op_count 0 3 0 0 1 1 0)"

definition EXTERNAL_REWARDS_OP_COST :: u64 where
  "EXTERNAL_REWARDS_OP_COST = compute_costs (op_count 0 5 0 0 2 1 0)"

definition GET_PROPOSER_VAL_ID_OP_COST :: u64 where
  "GET_PROPOSER_VAL_ID_OP_COST = compute_costs (op_count 1 0 0 0 0 0 0)"

definition GET_EPOCH_OP_COST :: u64 where
  "GET_EPOCH_OP_COST = compute_costs (op_count 2 0 0 0 0 0 0)"

definition GET_VALIDATOR_OP_COST :: u64 where
  "GET_VALIDATOR_OP_COST = compute_costs (op_count 0 12 0 0 0 0 0)"

definition GET_DELEGATOR_OP_COST :: u64 where
  "GET_DELEGATOR_OP_COST = compute_costs (op_count 15 17 1 11 1 0 0)"

definition GET_WITHDRAWAL_REQUEST_OP_COST :: u64 where
  "GET_WITHDRAWAL_REQUEST_OP_COST = compute_costs (op_count 0 3 0 0 0 0 0)"

definition GET_VALIDATOR_SET_OP_COST :: u64 where
  "GET_VALIDATOR_SET_OP_COST = compute_costs (op_count 0 100 0 0 0 0 0) + MEMORY_EXPANSION_COST"

definition LINKED_LIST_GETTER_OP_COST :: u64 where
  "LINKED_LIST_GETTER_OP_COST = compute_costs (op_count 0 100 0 0 0 0 0) + MEMORY_EXPANSION_COST"

section \<open>Dispatch\<close>

type_synonym precompile_func = "bytes \<Rightarrow> address \<Rightarrow> u256 \<Rightarrow> host \<Rightarrow> precompile_result"

definition load_be_u32 :: "bytes \<Rightarrow> u32" where
  "load_be_u32 input = bytes_word (take 4 input)"

definition method_of_selector :: "crypto \<Rightarrow> monad_revision \<Rightarrow> u32 \<Rightarrow> precompile_func \<times> u64" where
  "method_of_selector cr traits signature =
     (if signature = 0xf145204c then (precompile_add_validator cr traits, ADD_VALIDATOR_OP_COST)
      else if signature = 0x84994fec then (precompile_delegate traits, DELEGATE_OP_COST)
      else if signature = 0x5cf41514 then (precompile_undelegate traits, UNDELEGATE_OP_COST)
      else if signature = 0xb34fea67 then (precompile_compound traits, COMPOUND_OP_COST)
      else if signature = 0xaed2ee73 then (precompile_withdraw, WITHDRAW_OP_COST)
      else if signature = 0xa76e2ca5 then (precompile_claim_rewards, CLAIM_REWARDS_OP_COST)
      else if signature = 0x9bdcc3c8 then (precompile_change_commission, CHANGE_COMMISSION_OP_COST)
      else if signature = 0xe4b3303b then (precompile_external_reward, EXTERNAL_REWARDS_OP_COST)
      else if signature = 0x757991a8 then (precompile_get_epoch, GET_EPOCH_OP_COST)
      else if signature = 0xfbacb0be then
        (if traits \<ge> MONAD_FIVE then (precompile_get_proposer_val_id, GET_PROPOSER_VAL_ID_OP_COST)
         else (precompile_fallback, 40000))
      else if signature = 0x2b6d639a then (precompile_get_validator, GET_VALIDATOR_OP_COST)
      else if signature = 0x573c1ce0 then (precompile_get_delegator, GET_DELEGATOR_OP_COST)
      else if signature = 0x56fa2045 then (precompile_get_withdrawal_request, GET_WITHDRAWAL_REQUEST_OP_COST)
      else if signature = 0xfb29b729 then (precompile_get_consensus_valset, GET_VALIDATOR_SET_OP_COST)
      else if signature = 0xde66a368 then (precompile_get_snapshot_valset, GET_VALIDATOR_SET_OP_COST)
      else if signature = 0x7cb074df then (precompile_get_execution_valset, GET_VALIDATOR_SET_OP_COST)
      else if signature = 0x4fd66050 then (precompile_get_delegations traits, LINKED_LIST_GETTER_OP_COST)
      else if signature = 0xa0843a26 then (precompile_get_delegators traits, LINKED_LIST_GETTER_OP_COST)
      else (precompile_fallback, 40000))"

definition precompile_dispatch ::
  "crypto \<Rightarrow> monad_revision \<Rightarrow> bytes \<Rightarrow> (precompile_func \<times> u64) \<times> bytes" where
  "precompile_dispatch cr traits input =
     (if length input < 4 then ((precompile_fallback, 40000), input)
      else (method_of_selector cr traits (load_be_u32 input), drop 4 input))"

section \<open>Messages\<close>

datatype call_kind = EVMC_CALL | EVMC_DELEGATECALL | EVMC_CALLCODE | EVMC_CREATE | EVMC_CREATE2

datatype status_code =
    EVMC_SUCCESS | EVMC_REVERT | EVMC_OUT_OF_GAS | EVMC_REJECTED | EVMC_INSUFFICIENT_BALANCE
  | EVMC_MONAD_RESERVE_BALANCE_VIOLATION | EVMC_OTHER_FAILURE

record message =
  kind :: call_kind
  msg_flags :: u32
  depth :: u32
  gas :: u64
  recipient :: address
  sender :: address
  input_data :: bytes
  msg_value :: u256
  code_address :: address

record evmc_result =
  status :: status_code
  gas_left :: u64
  gas_refund :: u64
  output_data :: bytes

definition EVMC_STATIC :: u32 where
  "EVMC_STATIC = 1"

definition ascii :: "string \<Rightarrow> bytes" where
  "ascii s = map (\<lambda>c. word_of_nat (of_char c)) s"

definition check_call_monad_precompile ::
  "(bytes \<Rightarrow> (precompile_func \<times> u64) \<times> bytes) \<Rightarrow> address \<Rightarrow> message \<Rightarrow> host \<Rightarrow> (evmc_result \<times> host) option result" where
  "check_call_monad_precompile dispatch contract_address msg h =
     (if code_address msg \<noteq> contract_address then Inr None
      else if kind msg \<noteq> EVMC_CALL \<or> msg_flags msg \<noteq> 0 then
        Inr (Some (\<lparr>status = EVMC_REJECTED, gas_left = 0, gas_refund = 0, output_data = []\<rparr>, h))
      else let ((method, cost), input) = dispatch (input_data msg)
        in if sint (gas msg) < uint cost then
             Inr (Some (\<lparr>status = EVMC_OUT_OF_GAS, gas_left = 0, gas_refund = 0, output_data = []\<rparr>, h))
           else case method input (sender msg) (msg_value msg) h of
               Inr (out, h') \<Rightarrow>
                 Inr (Some (\<lparr>status = EVMC_SUCCESS, gas_left = gas msg - cost, gas_refund = 0, output_data = out\<rparr>, h'))
             | Inl e \<Rightarrow> (case error_message e of
                 Some m \<Rightarrow> Inr (Some (\<lparr>status = EVMC_REVERT, gas_left = 0, gas_refund = 0, output_data = ascii m\<rparr>, h))
               | None \<Rightarrow> Inl e))"

definition RESERVE_BALANCE_CA :: address where
  "RESERVE_BALANCE_CA = 0x1001"

definition is_precompile :: "(address \<Rightarrow> bool) \<Rightarrow> monad_revision \<Rightarrow> address \<Rightarrow> bool" where
  "is_precompile is_eth_precompile traits address \<longleftrightarrow> is_eth_precompile address \<or> address = STAKING_CA \<or>
     (traits \<ge> MONAD_NINE \<and> address = RESERVE_BALANCE_CA)"

text \<open>What the client calls outside this development: Ethereum's precompiles, the methods of the reserve
  balance contract, the virtual machine and the reserve balance check of a whole transaction.\<close>

record environment =
  env_crypto :: crypto
  env_eth_precompile :: "message \<Rightarrow> evmc_result option"
  env_reserve_dispatch :: "bytes \<Rightarrow> (precompile_func \<times> u64) \<times> bytes"
  env_execute :: "message \<Rightarrow> host \<Rightarrow> (evmc_result \<times> host) result"
  env_revert_transaction :: "message \<Rightarrow> host \<Rightarrow> bool"
  env_log_native_transfers :: bool

definition check_call_precompile ::
  "environment \<Rightarrow> monad_revision \<Rightarrow> message \<Rightarrow> host \<Rightarrow> (evmc_result \<times> host) option result" where
  "check_call_precompile env traits msg h =
     (case env_eth_precompile env msg of
        Some res \<Rightarrow> Inr (Some (res, h))
      | None \<Rightarrow>
          tryR (if traits \<ge> MONAD_FOUR
                then check_call_monad_precompile (precompile_dispatch (env_crypto env) traits) STAKING_CA msg h
                else Inr None) (\<lambda>maybe_result.
            case maybe_result of
              Some r \<Rightarrow> Inr (Some r)
            | None \<Rightarrow>
                if traits \<ge> MONAD_NINE
                then check_call_monad_precompile (env_reserve_dispatch env) RESERVE_BALANCE_CA msg h
                else Inr None))"

section \<open>The call frame\<close>

definition sender_has_balance :: "message \<Rightarrow> host \<Rightarrow> bool" where
  "sender_has_balance msg h \<longleftrightarrow> get_balance (sender msg) h \<ge> msg_value msg"

definition emit_native_transfer_event :: "bool \<Rightarrow> address \<Rightarrow> address \<Rightarrow> u256 \<Rightarrow> host \<Rightarrow> host" where
  "emit_native_transfer_event log_native_transfers from to value h =
     (if log_native_transfers \<and> value > 0 \<and> from \<noteq> to then emit_log
        (add_data (abi_encode_uint value)
        (add_topic (topic_address to)
        (add_topic (topic_address from)
        (event_builder 0xeeeeeeeeeeeeeeeeeeeeeeeeeeeeeeeeeeeeeeee
           0xddf252ad1be2c89b69c2b068fc378daa952ba7f163c4a11628f55a4df523b3ef)))) h
      else h)"

definition transfer_balances :: "bool \<Rightarrow> message \<Rightarrow> address \<Rightarrow> host \<Rightarrow> host result" where
  "transfer_balances log_native_transfers msg to h =
     tryR (subtract_from_balance (sender msg) (msg_value msg) h) (\<lambda>h.
     tryR (add_to_balance to (msg_value msg) h) (\<lambda>h.
       Inr (emit_native_transfer_event log_native_transfers (sender msg) to (msg_value msg) h)))"

text \<open>A frame that does not succeed is rejected: the state of the caller's frame is kept.
  \<open>pre_call\<close> returns a result when the sender cannot pay; otherwise the state of the new frame.\<close>

definition pre_call :: "bool \<Rightarrow> monad_revision \<Rightarrow> message \<Rightarrow> host \<Rightarrow> (evmc_result + host) result" where
  "pre_call log_native_transfers traits msg h =
     (let static_call = (msg_flags msg AND EVMC_STATIC \<noteq> 0)
      in if kind msg \<noteq> EVMC_DELEGATECALL \<and> \<not> sender_has_balance msg h then
           Inr (Inl \<lparr>status = EVMC_INSUFFICIENT_BALANCE, gas_left = gas msg, gas_refund = 0, output_data = []\<rparr>)
         else tryR (if kind msg \<noteq> EVMC_DELEGATECALL \<and> \<not> static_call
                    then transfer_balances log_native_transfers msg (recipient msg) h else Inr h) (\<lambda>h.
           if traits < MONAD_FOUR \<and> \<not> (kind msg \<noteq> EVMC_CALL \<or> recipient msg = code_address msg)
           then Inl Aborted else Inr (Inr h)))"

definition post_call :: "evmc_result \<Rightarrow> host \<Rightarrow> host \<Rightarrow> host result" where
  "post_call res before after =
     (if \<not> (status res = EVMC_SUCCESS \<or> gas_refund res = 0) then Inl Aborted
      else if \<not> (status res \<in> {EVMC_SUCCESS, EVMC_REVERT, EVMC_MONAD_RESERVE_BALANCE_VIOLATION} \<or> gas_left res = 0)
        then Inl Aborted
      else Inr (if status res = EVMC_SUCCESS then after else before))"

definition execute_call_message ::
  "environment \<Rightarrow> monad_revision \<Rightarrow> message \<Rightarrow> host \<Rightarrow> (evmc_result \<times> host) result" where
  "execute_call_message env traits msg h =
     (if kind msg \<notin> {EVMC_DELEGATECALL, EVMC_CALLCODE, EVMC_CALL} then Inl Aborted
      else tryR (pre_call (env_log_native_transfers env) traits msg h) (\<lambda>pre.
        case pre of
          Inl res \<Rightarrow> Inr (res, h)
        | Inr frame \<Rightarrow>
            tryR (check_call_precompile env traits msg frame) (\<lambda>maybe_result.
            tryR (case maybe_result of Some r \<Rightarrow> Inr r | None \<Rightarrow> env_execute env msg frame) (\<lambda>(res, after).
              let res = (if depth msg = 0 \<and> env_revert_transaction env msg after
                         then res\<lparr>status := EVMC_MONAD_RESERVE_BALANCE_VIOLATION, gas_refund := 0\<rparr> else res)
              in tryR (post_call res h after) (\<lambda>h'. Inr (res, h'))))))"

section \<open>System transactions\<close>

definition static_validate_system_transaction ::
  "monad_revision \<Rightarrow> transaction \<Rightarrow> address \<Rightarrow> unit result" where
  "static_validate_system_transaction traits tx tx_sender =
     (if traits < MONAD_FOUR then Inl (SystemTransactionE SystemTxnBeforeFork)
      else if tx_sender \<noteq> SYSTEM_SENDER then Inl (SystemTransactionE BadSender)
      else if tx_type tx \<noteq> legacy then Inl (SystemTransactionE TypeNotLegacy)
      else if tx_to tx = None then Inl (SystemTransactionE MissingTo)
      else if tx_to tx \<noteq> Some STAKING_CA then Inl (SystemTransactionE InvalidSystemContract)
      else if tx_gas_limit tx \<noteq> 0 then Inl (SystemTransactionE GasNonZero)
      else if tx_max_fee_per_gas tx \<noteq> 0 then Inl (SystemTransactionE GasNonZero)
      else if tx_max_priority_fee_per_gas tx \<noteq> 0 then Inl (SystemTransactionE GasNonZero)
      else if tx_authorization_list tx \<noteq> [] then Inl (SystemTransactionE NonEmptyAuthorizationList)
      else Inr ())"

definition validate_system_transaction :: "transaction \<Rightarrow> address \<Rightarrow> host \<Rightarrow> unit result" where
  "validate_system_transaction tx tx_sender h =
     (if \<not> account_exists tx_sender h then (if tx_nonce tx \<noteq> 0 then Inl (TransactionE BadNonce) else Inr ())
      else if get_nonce tx_sender h \<noteq> tx_nonce tx then Inl (TransactionE BadNonce)
      else Inr ())"

definition selector_REWARD :: u32 where "selector_REWARD = 0x791bdcf3"
definition selector_SNAPSHOT :: u32 where "selector_SNAPSHOT = 0x157eeb21"
definition selector_ON_EPOCH_CHANGE :: u32 where "selector_ON_EPOCH_CHANGE = 0x1d4e9f02"

definition execute_staking_syscall :: "monad_revision \<Rightarrow> bytes \<Rightarrow> u256 \<Rightarrow> host \<Rightarrow> host result" where
  "execute_staking_syscall traits calldata value h =
     tryR (add_to_balance STAKING_CA 0 h) (\<lambda>h.
       if length calldata < 4 then Inl (StakingE InvalidInput)
       else let signature = load_be_u32 calldata;
                calldata = drop 4 calldata
            in if signature = selector_REWARD then syscall_reward traits calldata value h
               else if signature = selector_SNAPSHOT then syscall_snapshot calldata value h
               else if signature = selector_ON_EPOCH_CHANGE then syscall_on_epoch_change calldata value h
               else Inl (StakingE MethodNotSupported))"

definition execute_system_transaction ::
  "monad_revision \<Rightarrow> transaction \<Rightarrow> address \<Rightarrow> host \<Rightarrow> host result" where
  "execute_system_transaction traits tx tx_sender h =
     tryR (validate_system_transaction tx tx_sender h) (\<lambda>_.
       let n = get_nonce tx_sender h;
           h = set_nonce tx_sender (n + 1) h
       in execute_staking_syscall traits (tx_data tx) (tx_value tx) h)"

end
