(* ===== verification/StakingSystem.thy ===== *)
theory StakingSystem
  imports StakingCalls
begin

text \<open>
  The staking contract as a transition system. \<open>contract_op\<close> lists what a successful precompile call may
  do to the state, without the encoding of its arguments: \<open>precompile_op\<close> shows that every method that
  \<open>precompile_dispatch\<close> selects does one of these. \<open>staking_step\<close> adds the call frame, the system calls,
  the block prelude and everything else that happens on the chain; \<open>reachable\<close> collects the states that
  arise from empty contract storage. The invariants of the following theories are proved over these
  relations by rule induction.
\<close>

section \<open>Operations\<close>

inductive contract_op :: "monad_revision \<Rightarrow> address \<Rightarrow> u256 \<Rightarrow> host \<Rightarrow> host \<Rightarrow> bool" for t where
  op_read: "contract_op t a 0 h h"
| op_pull: "pull_delegator_up_to_date v b h = Inr h' \<Longrightarrow> contract_op t a 0 h h'"
| op_add_validator: "m_commission m \<le> max_commission \<Longrightarrow> min_auth_address_stake \<le> x \<Longrightarrow>
    create_validator s b m h = Inr (v, h1) \<Longrightarrow> delegate t v x (m_auth_address m) h1 = Inr h' \<Longrightarrow>
    contract_op t a x h h'"
| op_delegate: "delegate t v x a h = Inr h' \<Longrightarrow> contract_op t a x h h'"
| op_undelegate: "undelegate t v n w a h = Inr h' \<Longrightarrow> contract_op t a 0 h h'"
| op_compound: "compound t v a h = Inr h' \<Longrightarrow> contract_op t a 0 h h'"
| op_withdraw: "withdraw v w a h = Inr h' \<Longrightarrow> contract_op t a 0 h h'"
| op_claim: "claim_rewards v a h = Inr h' \<Longrightarrow> contract_op t a 0 h h'"
| op_commission: "change_commission v c a h = Inr h' \<Longrightarrow> contract_op t a 0 h h'"
| op_external: "external_reward v x a h = Inr h' \<Longrightarrow> contract_op t a x h h'"

lemma function_not_payable_Inr: "function_not_payable x = Inr u \<longleftrightarrow> x = 0"
proof -
  have "list_all (\<lambda>b. b = 0) (word_bytes x) \<longleftrightarrow> word_bytes x = replicate 32 0"
    using replicate_length_same [of "word_bytes x" 0] by (auto simp: list_all_iff)
  also have "\<dots> \<longleftrightarrow> word_bytes x = word_bytes (0 :: u256)"
    by simp
  also have "\<dots> \<longleftrightarrow> x = 0"
    by (metis bytes_word_inverse(5))
  finally show ?thesis
    by (simp add: function_not_payable_def)
qed

lemmas getter_defs = precompile_get_validator_def precompile_get_withdrawal_request_def
  precompile_get_consensus_valset_def precompile_get_snapshot_valset_def precompile_get_execution_valset_def
  get_valset_def precompile_get_delegations_def precompile_get_delegators_def precompile_get_epoch_def
  precompile_get_proposer_val_id_def precompile_fallback_def

lemma getters_read:
  assumes "m \<in> {precompile_get_validator, precompile_get_withdrawal_request, precompile_get_consensus_valset,
      precompile_get_snapshot_valset, precompile_get_execution_valset, precompile_get_delegations t,
      precompile_get_delegators t, precompile_get_epoch, precompile_get_proposer_val_id, precompile_fallback}"
    and "m input a x h = Inr (out, h')"
  shows "h' = h" and "x = 0"
  using assms
  by (auto simp: getter_defs try_simps function_not_payable_Inr Let_def split: if_splits prod.splits)

lemma check_add_validator_Inr:
  assumes "check_add_validator cr msg ss bs x = Inr sb"
  shows "min_auth_address_stake \<le> x" "m_commission (read_message msg) \<le> max_commission"
  using assms by (auto simp: check_add_validator_def Let_def not_less split: if_splits)

lemma precompile_op:
  assumes "fst (method_of_selector cr t sig) input a x h = Inr (out, h')"
  shows "contract_op t a x h h'"
proof -
  define m where "m = fst (method_of_selector cr t sig)"
  have "m = precompile_add_validator cr t \<or> m = precompile_delegate t \<or> m = precompile_undelegate t \<or>
      m = precompile_compound t \<or> m = precompile_withdraw \<or> m = precompile_claim_rewards \<or>
      m = precompile_change_commission \<or> m = precompile_external_reward \<or> m = precompile_get_delegator \<or>
      m \<in> {precompile_get_validator, precompile_get_withdrawal_request, precompile_get_consensus_valset,
      precompile_get_snapshot_valset, precompile_get_execution_valset, precompile_get_delegations t,
      precompile_get_delegators t, precompile_get_epoch, precompile_get_proposer_val_id, precompile_fallback}"
    by (simp add: m_def method_of_selector_def)
  moreover have "contract_op t a x h h'" if "precompile_add_validator cr t input a x h = Inr (out, h')"
    using that
    by (auto simp: precompile_add_validator_def try_simps dest: check_add_validator_Inr intro: op_add_validator)
  moreover have "contract_op t a x h h'" if "precompile_delegate t input a x h = Inr (out, h')"
    using that
    by (auto simp: precompile_delegate_def try_simps Let_def split: if_splits intro: op_delegate op_read)
  moreover have "contract_op t a x h h'" if "precompile_undelegate t input a x h = Inr (out, h')"
    using that by (auto simp: precompile_undelegate_def try_simps function_not_payable_Inr split: if_splits intro: op_undelegate)
  moreover have "contract_op t a x h h'" if "precompile_compound t input a x h = Inr (out, h')"
    using that by (auto simp: precompile_compound_def try_simps function_not_payable_Inr split: if_splits intro: op_compound)
  moreover have "contract_op t a x h h'" if "precompile_withdraw input a x h = Inr (out, h')"
    using that by (auto simp: precompile_withdraw_def try_simps function_not_payable_Inr split: if_splits intro: op_withdraw)
  moreover have "contract_op t a x h h'" if "precompile_claim_rewards input a x h = Inr (out, h')"
    using that by (auto simp: precompile_claim_rewards_def try_simps function_not_payable_Inr split: if_splits intro: op_claim)
  moreover have "contract_op t a x h h'" if "precompile_change_commission input a x h = Inr (out, h')"
    using that
    by (auto simp: precompile_change_commission_def try_simps function_not_payable_Inr split: if_splits intro: op_commission)
  moreover have "contract_op t a x h h'" if "precompile_external_reward input a x h = Inr (out, h')"
    using that by (auto simp: precompile_external_reward_def try_simps split: if_splits intro: op_external)
  moreover have "contract_op t a x h h'" if "precompile_get_delegator input a x h = Inr (out, h')"
    using that
    by (auto simp: precompile_get_delegator_def try_simps function_not_payable_Inr Let_def split: if_splits intro: op_pull)
  ultimately show ?thesis
    using assms getters_read [of m t input a x h out h'] op_read unfolding m_def [symmetric] by metis
qed

section \<open>Steps of the chain\<close>

text \<open>A step of the chain as the contract sees it: a call of one of its methods with the transfer of the
  value, a system call, the block prelude, or anything else, which leaves the contract's storage alone
  and takes nothing from its balance (no key signs for \<open>STAKING_CA\<close> and it has no code to run).\<close>

inductive staking_step :: "host \<Rightarrow> host \<Rightarrow> bool" where
  step_call: "sender msg \<noteq> STAKING_CA \<Longrightarrow> transfer_balances lg msg STAKING_CA h = Inr h1 \<Longrightarrow>
    contract_op t (sender msg) (msg_value msg) h1 h' \<Longrightarrow> staking_step h h'"
| step_syscall: "execute_staking_syscall t data x h = Inr h' \<Longrightarrow> staking_step h h'"
| step_prelude: "staking_step h (execute_block_prelude t h)"
| step_chain: "storage h' = storage h \<Longrightarrow> get_balance STAKING_CA h \<le> get_balance STAKING_CA h' \<Longrightarrow>
    staking_step h h'"

text \<open>Counters stay far from their limits: consensus advances the epoch by one, and every validator
  needs a stake of \<open>min_auth_address_stake\<close> of its own.\<close>

definition in_range :: "host \<Rightarrow> bool" where
  "in_range h \<longleftrightarrow> unat (epoch h) < 2 ^ 64 - 2 \<and> unat (last_val_id h) < 2 ^ 64 - 1"

inductive reachable :: "host \<Rightarrow> bool" where
  reachable_init: "storage h = (\<lambda>_. 0) \<Longrightarrow> reachable h"
| reachable_step: "reachable h \<Longrightarrow> staking_step h h' \<Longrightarrow> in_range h' \<Longrightarrow> reachable h'"

lemma in_range_init: "storage h = (\<lambda>_. 0) \<Longrightarrow> in_range h"
  by (simp add: in_range_def load_def sv_u64.load_zero_storage)

lemma reachable_in_range: "reachable h \<Longrightarrow> in_range h"
  by (induction rule: reachable.induct) (simp_all add: in_range_init)

text \<open>How an invariant of the contract's storage is established: it holds for empty storage, and
  operations, system calls and the prelude keep it.\<close>

locale storage_invariant =
  fixes I :: "host \<Rightarrow> bool"
  assumes init: "storage h = (\<lambda>_. 0) \<Longrightarrow> I h"
    and same_storage: "I h \<Longrightarrow> storage h' = storage h \<Longrightarrow> I h'"
    and op: "I h \<Longrightarrow> in_range h \<Longrightarrow> contract_op t a x h h' \<Longrightarrow> in_range h' \<Longrightarrow> I h'"
    and syscall: "I h \<Longrightarrow> in_range h \<Longrightarrow> syscall_reward t data x h = Inr h' \<Longrightarrow> in_range h' \<Longrightarrow> I h'"
      "I h \<Longrightarrow> in_range h \<Longrightarrow> syscall_snapshot data x h = Inr h' \<Longrightarrow> in_range h' \<Longrightarrow> I h'"
      "I h \<Longrightarrow> in_range h \<Longrightarrow> syscall_on_epoch_change data x h = Inr h' \<Longrightarrow> in_range h' \<Longrightarrow> I h'"
    and proposer: "I h \<Longrightarrow> I (store u64_be ProposerValId v h)"
begin

lemma in_range_storage: "storage h' = storage h \<Longrightarrow> in_range h' = in_range h"
  by (simp add: in_range_def load_def)

lemma step:
  assumes "I h" and "in_range h" and "staking_step h h'" and "in_range h'"
  shows "I h'"
  using assms(3)
proof (cases rule: staking_step.cases)
  case (step_call msg lg h1 t)
  have "storage h1 = storage h"
    using step_call(2)
    by (auto simp: transfer_balances_def try_simps emit_native_transfer_event_def
        dest!: subtract_from_balance_Inr(3) add_to_balance_Inr(3))
  then show ?thesis
    using step_call(3) assms op same_storage in_range_storage by metis
next
  case (step_syscall t data x)
  obtain h1 where 1: "add_to_balance STAKING_CA 0 h = Inr h1"
    and s: "syscall_reward t (drop 4 data) x h1 = Inr h' \<or> syscall_snapshot (drop 4 data) x h1 = Inr h' \<or>
      syscall_on_epoch_change (drop 4 data) x h1 = Inr h'"
    using step_syscall by (auto simp: execute_staking_syscall_def try_simps Let_def split: if_splits)
  have "storage h1 = storage h"
    by (rule add_to_balance_Inr(3) [OF 1])
  then have "I h1" "in_range h1"
    using assms same_storage in_range_storage by blast+
  then show ?thesis
    using s assms(4) syscall by blast
next
  case (step_prelude t)
  then show ?thesis
    using assms(1) by (auto simp: execute_block_prelude_def intro: proposer)
next
  case step_chain
  then show ?thesis
    using assms(1) same_storage by blast
qed

theorem reachable: "reachable h \<Longrightarrow> I h"
proof (induction rule: reachable.induct)
  case (reachable_step h h')
  then show ?case
    using step reachable_in_range by blast
qed (rule init)

end

text \<open>An invariant that relies on another one.\<close>

locale relative_invariant = base: storage_invariant J for J +
  fixes I :: "host \<Rightarrow> bool"
  assumes rel_init: "storage h = (\<lambda>_. 0) \<Longrightarrow> I h"
    and rel_same_storage: "J h \<Longrightarrow> I h \<Longrightarrow> storage h' = storage h \<Longrightarrow> I h'"
    and rel_op: "J h \<Longrightarrow> I h \<Longrightarrow> in_range h \<Longrightarrow> contract_op t a x h h' \<Longrightarrow> in_range h' \<Longrightarrow> J h' \<Longrightarrow> I h'"
    and rel_syscall:
      "J h \<Longrightarrow> I h \<Longrightarrow> in_range h \<Longrightarrow> syscall_reward t data x h = Inr h' \<Longrightarrow> in_range h' \<Longrightarrow> J h' \<Longrightarrow> I h'"
      "J h \<Longrightarrow> I h \<Longrightarrow> in_range h \<Longrightarrow> syscall_snapshot data x h = Inr h' \<Longrightarrow> in_range h' \<Longrightarrow> J h' \<Longrightarrow> I h'"
      "J h \<Longrightarrow> I h \<Longrightarrow> in_range h \<Longrightarrow> syscall_on_epoch_change data x h = Inr h' \<Longrightarrow> in_range h' \<Longrightarrow> J h' \<Longrightarrow> I h'"
    and rel_proposer: "J h \<Longrightarrow> I h \<Longrightarrow> I (store u64_be ProposerValId v h)"

sublocale relative_invariant \<subseteq> joint: storage_invariant "\<lambda>h. J h \<and> I h"
proof
  fix h h' :: host and t a x data v
  show "J h \<and> I h" if "storage h = (\<lambda>_. 0)"
    using that base.init rel_init by blast
  show "J h' \<and> I h'" if "J h \<and> I h" "storage h' = storage h"
    using that base.same_storage rel_same_storage by blast
  show "J h' \<and> I h'" if "J h \<and> I h" "in_range h" "contract_op t a x h h'" "in_range h'"
    using that base.op rel_op by blast
  show "J h' \<and> I h'" if "J h \<and> I h" "in_range h" "syscall_reward t data x h = Inr h'" "in_range h'"
    using that base.syscall(1) rel_syscall(1) by blast
  show "J h' \<and> I h'" if "J h \<and> I h" "in_range h" "syscall_snapshot data x h = Inr h'" "in_range h'"
    using that base.syscall(2) rel_syscall(2) by blast
  show "J h' \<and> I h'" if "J h \<and> I h" "in_range h" "syscall_on_epoch_change data x h = Inr h'" "in_range h'"
    using that base.syscall(3) rel_syscall(3) by blast
  show "J (store u64_be ProposerValId v h) \<and> I (store u64_be ProposerValId v h)" if "J h \<and> I h"
    using that base.proposer rel_proposer by blast
qed

section \<open>Calls and system transactions are steps\<close>

lemma check_call_success:
  assumes "check_call_monad_precompile d A msg h = Inr (Some (r, h'))" and "status r = EVMC_SUCCESS"
  shows "code_address msg = A" "kind msg = EVMC_CALL" "msg_flags msg = 0"
    "fst (fst (d (input_data msg))) (snd (d (input_data msg))) (sender msg) (msg_value msg) h = Inr (output_data r, h')"
  using assms
  by (auto simp: check_call_monad_precompile_def case_prod_unfold Let_def split: if_splits sum.splits option.splits)

lemma check_call_staking:
  assumes "code_address msg = STAKING_CA" and "env_eth_precompile env msg = None" and "MONAD_FOUR \<le> t"
  shows "check_call_precompile env t msg h =
    check_call_monad_precompile (precompile_dispatch (env_crypto env) t) STAKING_CA msg h"
proof -
  have "check_call_monad_precompile d STAKING_CA msg h \<noteq> Inr None" for d
    using assms(1)
    by (simp add: check_call_monad_precompile_def case_prod_unfold Let_def split: sum.splits option.splits)
  then show ?thesis
    using assms(2,3)
    by (cases "check_call_monad_precompile (precompile_dispatch (env_crypto env) t) STAKING_CA msg h")
      (auto simp: check_call_precompile_def split: option.splits)
qed

lemma dispatch_op:
  assumes "fst (fst (precompile_dispatch cr t input)) (snd (precompile_dispatch cr t input)) a x h = Inr (out, h')"
  shows "contract_op t a x h h'"
  using assms precompile_op by (auto simp: precompile_dispatch_def precompile_fallback_def split: if_splits)

lemma execute_call_cases:
  assumes "execute_call_message env t msg h = Inr (res, h')" and "h' \<noteq> h"
  obtains frame mr r where "pre_call (env_log_native_transfers env) t msg h = Inr (Inr frame)"
    and "check_call_precompile env t msg frame = Inr mr"
    and "(case mr of Some r \<Rightarrow> Inr r | None \<Rightarrow> env_execute env msg frame) = Inr (r, h')"
    and "status res = EVMC_SUCCESS" and "status r = EVMC_SUCCESS"
proof -
  obtain pre where pre: "pre_call (env_log_native_transfers env) t msg h = Inr pre"
    and rest: "(case pre of Inl res \<Rightarrow> Inr (res, h) | Inr frame \<Rightarrow>
            tryR (check_call_precompile env t msg frame) (\<lambda>maybe_result.
            tryR (case maybe_result of Some r \<Rightarrow> Inr r | None \<Rightarrow> env_execute env msg frame) (\<lambda>(res, after).
              let res = (if depth msg = 0 \<and> env_revert_transaction env msg after
                         then res\<lparr>status := EVMC_MONAD_RESERVE_BALANCE_VIOLATION, gas_refund := 0\<rparr> else res)
              in tryR (post_call res h after) (\<lambda>h'. Inr (res, h'))))) = Inr (res, h')"
    using assms(1) by (auto simp: execute_call_message_def tryR_eq_Inr split: if_splits)
  obtain frame where frame: "pre = Inr frame"
    using rest assms(2) by (cases pre) auto
  obtain mr r after where "check_call_precompile env t msg frame = Inr mr"
    and r: "(case mr of Some r \<Rightarrow> Inr r | None \<Rightarrow> env_execute env msg frame) = Inr (r, after)"
    and post: "post_call res h after = Inr h'" and "status res = EVMC_SUCCESS \<Longrightarrow> status r = EVMC_SUCCESS"
    using rest unfolding frame by (auto simp: tryR_eq_Inr Let_def split: if_splits)
  have "status res = EVMC_SUCCESS" "after = h'"
    using post assms(2) by (auto simp: post_call_def split: if_splits)
  then show thesis
    using that pre frame \<open>check_call_precompile env t msg frame = Inr mr\<close> r
      \<open>status res = EVMC_SUCCESS \<Longrightarrow> status r = EVMC_SUCCESS\<close> by blast
qed

lemma call_step:
  assumes "execute_call_message env t msg h = Inr (res, h')" and "code_address msg = STAKING_CA"
    and "env_eth_precompile env msg = None" and "MONAD_FOUR \<le> t" and "sender msg \<noteq> STAKING_CA"
    and "kind msg = EVMC_CALL \<Longrightarrow> msg_flags msg = 0 \<Longrightarrow> recipient msg = code_address msg"
  shows "h' = h \<or> staking_step h h'"
proof (cases "h' = h")
  case False
  obtain frame mr r where pre: "pre_call (env_log_native_transfers env) t msg h = Inr (Inr frame)"
    and chk: "check_call_precompile env t msg frame = Inr mr"
    and mr: "(case mr of Some r \<Rightarrow> Inr r | None \<Rightarrow> env_execute env msg frame) = Inr (r, h')"
    and ok: "status r = EVMC_SUCCESS"
    using execute_call_cases [OF assms(1) False] by blast
  have "check_call_monad_precompile (precompile_dispatch (env_crypto env) t) STAKING_CA msg frame \<noteq> Inr None"
    using assms(2)
    by (simp add: check_call_monad_precompile_def case_prod_unfold Let_def split: sum.splits option.splits)
  then have "check_call_monad_precompile (precompile_dispatch (env_crypto env) t) STAKING_CA msg frame = Inr (Some (r, h'))"
    using chk mr unfolding check_call_staking [OF assms(2-4)] by (auto split: option.splits)
  note c = check_call_success [OF this ok]
  have "transfer_balances (env_log_native_transfers env) msg STAKING_CA h = Inr frame"
    using pre c assms(2,4,6) by (auto simp: pre_call_def Let_def try_simps split: if_splits)
  then show ?thesis
    using assms(5) dispatch_op [OF c(4)] by (blast intro: step_call)
qed simp

lemma system_transaction_step:
  assumes "execute_system_transaction t tx a h = Inr h'"
  shows "\<exists>h1. staking_step h h1 \<and> storage h1 = storage h \<and> staking_step h1 h'"
proof -
  define h1 where "h1 = set_nonce a (get_nonce a h + 1) h"
  have "execute_staking_syscall t (tx_data tx) (tx_value tx) h1 = Inr h'"
    using assms by (auto simp: execute_system_transaction_def tryR_eq_Inr Let_def h1_def split: sum.splits)
  moreover have "storage h1 = storage h" "get_balance STAKING_CA h1 = get_balance STAKING_CA h"
    by (auto simp: h1_def set_nonce_def get_balance_def account_or_new_def new_account_def split: option.splits)
  ultimately show ?thesis
    using step_chain [of h1 h] step_syscall by fastforce
qed

end
