(* ===== verification/Frames.thy ===== *)
theory Frames
  imports StakingSystem
begin

text \<open>
  What each operation of the staking contract may write, as sets of storage variables. The invariants of
  the following theories use these facts for all variables they do not look at.
\<close>

section \<open>Write sets\<close>

definition pull_vars :: "u64 \<Rightarrow> address \<Rightarrow> svar set" where
  "pull_vars v a = {DStake v a, DAcc v a, DRewards v a, DDelta v a, DNextDelta v a, DEpochs v a, VUnclaimed v} \<union>
     range (\<lambda>e. Accumulator e v)"

definition delegate_vars :: "u64 \<Rightarrow> address \<Rightarrow> svar set" where
  "delegate_vars v a = pull_vars v a \<union> {VStake v, VAddressFlags v, val_bitset_bucket v, ValsetLen Execution} \<union>
     range (ValsetElem Execution) \<union> list_nodes"

definition undelegate_vars :: "u64 \<Rightarrow> address \<Rightarrow> u8 \<Rightarrow> svar set" where
  "undelegate_vars v a w = pull_vars v a \<union> {VStake v, VAddressFlags v, Withdrawal v a w} \<union> list_nodes"

definition withdraw_vars :: "u64 \<Rightarrow> address \<Rightarrow> u8 \<Rightarrow> svar set" where
  "withdraw_vars v a w = {Withdrawal v a w, VUnclaimed v} \<union> range (\<lambda>e. Accumulator e v)"

definition create_vars :: "address \<Rightarrow> address \<Rightarrow> u64 \<Rightarrow> svar set" where
  "create_vars s b v = {ValIdSecp s, ValIdBls b, LastValId, VKeys v, VAddressFlags v, VCommission v}"

definition snapshot_vars :: "svar set" where
  "snapshot_vars = {InBoundary} \<union> range ValsetLen \<union> range (case_prod ValsetElem) \<union> range ValBitset \<union>
     range ConsStake \<union> range ConsCommission \<union> range SnapStake \<union> range SnapCommission"

definition reward_vars :: "u64 \<Rightarrow> address \<Rightarrow> svar set" where
  "reward_vars v a = {DRewards v a, VAcc v, VUnclaimed v, ProposerValId}"

definition epoch_change_vars :: "svar set" where
  "epoch_change_vars = {Epoch, InBoundary} \<union> range (case_prod Accumulator)"

lemmas write_sets = pull_vars_def delegate_vars_def undelegate_vars_def withdraw_vars_def create_vars_def
  snapshot_vars_def epoch_change_vars_def reward_vars_def val_bitset_bucket_def

lemma write_set_iffs:
  "x \<in> pull_vars v a \<longleftrightarrow> x = DStake v a \<or> x = DAcc v a \<or> x = DRewards v a \<or> x = DDelta v a \<or>
     x = DNextDelta v a \<or> x = DEpochs v a \<or> x = VUnclaimed v \<or> (\<exists>e. x = Accumulator e v)"
  "x \<in> delegate_vars v a \<longleftrightarrow> x \<in> pull_vars v a \<or> x = VStake v \<or> x = VAddressFlags v \<or>
     x = val_bitset_bucket v \<or> x = ValsetLen Execution \<or> (\<exists>i. x = ValsetElem Execution i) \<or> (\<exists>u b. x = DListNode u b)"
  "x \<in> undelegate_vars v a w \<longleftrightarrow> x \<in> pull_vars v a \<or> x = VStake v \<or> x = VAddressFlags v \<or>
     x = Withdrawal v a w \<or> (\<exists>u b. x = DListNode u b)"
  "x \<in> withdraw_vars v a w \<longleftrightarrow> x = Withdrawal v a w \<or> x = VUnclaimed v \<or> (\<exists>e. x = Accumulator e v)"
  "x \<in> create_vars sa ba v \<longleftrightarrow> x = ValIdSecp sa \<or> x = ValIdBls ba \<or> x = LastValId \<or> x = VKeys v \<or>
     x = VAddressFlags v \<or> x = VCommission v"
  "x \<in> snapshot_vars \<longleftrightarrow> x = InBoundary \<or> (\<exists>vs. x = ValsetLen vs) \<or> (\<exists>vs i. x = ValsetElem vs i) \<or>
     (\<exists>b. x = ValBitset b) \<or> (\<exists>u. x = ConsStake u) \<or> (\<exists>u. x = ConsCommission u) \<or> (\<exists>u. x = SnapStake u) \<or>
     (\<exists>u. x = SnapCommission u)"
  "x \<in> reward_vars v a \<longleftrightarrow> x = DRewards v a \<or> x = VAcc v \<or> x = VUnclaimed v \<or> x = ProposerValId"
  "x \<in> epoch_change_vars \<longleftrightarrow> x = Epoch \<or> x = InBoundary \<or> (\<exists>e u. x = Accumulator e u)"
  by (auto simp: write_sets)

lemma modifies_then: "modifies X h g \<Longrightarrow> modifies Y g g' \<Longrightarrow> Y \<subseteq> X \<Longrightarrow> modifies X h g'"
  by (erule (1) modifies_trans) auto

lemmas event_defs = emit_validator_rewarded_event_def emit_validator_created_event_def
  emit_validator_status_changed_event_def emit_delegation_event_def emit_undelegate_event_def
  emit_withdraw_event_def emit_claim_rewards_event_def emit_commission_changed_event_def
  emit_epoch_changed_event_def

section \<open>Helpers\<close>

lemma decrement_frame:
  assumes "decrement_accumulator_refcount e v h = (x, h')"
  shows "modifies {Accumulator e v} h h'" "accounts h' = accounts h" "logs h' = logs h"
  using assms by (auto simp: decrement_accumulator_refcount_def Let_def intro!: modifies_intros split: if_splits)

lemma increment_frame:
  "modifies {Accumulator (get_activation_epoch h) v} h (increment_accumulator_refcount v h)"
  "accounts (increment_accumulator_refcount v h) = accounts h"
  by (auto simp: increment_accumulator_refcount_def Let_def intro!: modifies_intros)

lemma promote_delta_frame:
  "modifies {DDelta v a, DNextDelta v a, DEpochs v a} h (promote_delta v a h)"
  by (auto simp: promote_delta_def set_delta_epoch_def set_next_delta_epoch_def Let_def intro!: modifies_intros)

lemma reward_invariant_frame:
  "reward_invariant v r h = Inr h' \<Longrightarrow> modifies {VUnclaimed v} h h'"
  by (auto simp: reward_invariant_def Let_def try_simps intro!: modifies_intros split: if_splits)

lemma apply_compound_frame:
  assumes "apply_compound v a h = Inr (r, h')"
  shows "modifies ({DStake v a, DAcc v a, DDelta v a, DNextDelta v a, DEpochs v a, Accumulator (get_delta_epoch v a h) v}) h h'"
    (is "modifies ?X h h'")
proof -
  obtain acc h1 s where d: "decrement_accumulator_refcount (get_delta_epoch v a h) v h = (acc, h1)"
    and h': "h' = promote_delta v a (store u256_be (DStake v a) s (store u256_be (DAcc v a) acc h1))"
    using assms by (auto simp: apply_compound_def try_simps Let_def split: prod.splits)
  have "modifies ?X h h1"
    by (rule modifies_mono [OF decrement_frame(1) [OF d]]) simp
  then have "modifies ?X h (store u256_be (DStake v a) s (store u256_be (DAcc v a) acc h1))"
    by (auto intro!: modifies_intros)
  then show ?thesis
    unfolding h' by (rule modifies_then [OF _ promote_delta_frame]) simp
qed

lemma compound_and_credit_frame:
  assumes "compound_and_credit v a h = Inr h'"
  shows "modifies (pull_vars v a) h h'"
proof -
  obtain r h1 h2 n where 1: "apply_compound v a h = Inr (r, h1)" and 2: "reward_invariant v r h1 = Inr h2"
    and h': "h' = store u256_be (DRewards v a) n h2"
    using assms by (auto simp: compound_and_credit_def try_simps)
  have "modifies (pull_vars v a) h h2"
    by (rule modifies_trans [OF apply_compound_frame [OF 1] reward_invariant_frame [OF 2]])
      (auto simp: pull_vars_def)
  then show ?thesis
    unfolding h' by (rule modifies_store) (simp_all add: pull_vars_def)
qed

lemma settle_frame:
  assumes "settle_active_stake v a h = Inr h'"
  shows "modifies (pull_vars v a) h h'"
proof -
  have "modifies (pull_vars v a) h g" if "reward_invariant v r h = Inr g" for r g
    by (rule modifies_mono [OF reward_invariant_frame [OF that]]) (simp add: pull_vars_def)
  then show ?thesis
    using assms
    by (auto simp: settle_active_stake_def try_simps Let_def pull_vars_def intro!: modifies_store split: if_splits)
qed

lemma pull_frame:
  assumes "pull_delegator_up_to_date v a h = Inr h'"
  shows "modifies (pull_vars v a) h h'"
  using assms
proof (rule pull_preserves [where P = "modifies (pull_vars v a) h"])
  show "modifies (pull_vars v a) h (promote_delta v a h)"
    by (rule modifies_mono [OF promote_delta_frame]) (simp add: pull_vars_def)
qed (simp, (erule modifies_then, erule compound_and_credit_frame settle_frame, simp)+)

lemma apply_reward_frame:
  assumes "apply_reward v f r s h = Inr h'"
  shows "modifies {VAcc v, VUnclaimed v} h h'"
  using assms by (auto simp: apply_reward_def try_simps Let_def event_defs intro!: modifies_intros)

section \<open>Operations\<close>

lemma delegate_stakeE:
  assumes "delegate_stake v s a h = Inr h'"
  obtains n g where "in_epoch_delay_period h" "checked_add (next_delta_stake v a h) s = Inr n"
      "g = set_next_delta_epoch v a (get_activation_epoch h) (store u256_be (DNextDelta v a) n h)"
      "h' = emit_delegation_event v a s (get_activation_epoch h)
         (if get_next_delta_epoch v a h = 0 then increment_accumulator_refcount v g else g)"
  | n g where "\<not> in_epoch_delay_period h" "checked_add (delta_stake v a h) s = Inr n"
      "g = set_delta_epoch v a (get_activation_epoch h) (store u256_be (DDelta v a) n h)"
      "h' = emit_delegation_event v a s (get_activation_epoch h)
         (if get_delta_epoch v a h = 0 then increment_accumulator_refcount v g else g)"
  using assms
  by (cases "in_epoch_delay_period h") (auto simp: delegate_stake_def tryR_eq_Inr Let_def)

lemma delegate_stake_frame:
  assumes "delegate_stake v s a h = Inr h'"
  shows "modifies (pull_vars v a) h h'"
proof -
  have inc: "modifies (pull_vars v a) h (increment_accumulator_refcount v g)" if "modifies (pull_vars v a) h g" for g
    using that increment_frame(1) [of g v] by (rule modifies_then) (simp add: pull_vars_def)
  show ?thesis
    using assms
    by (auto simp: delegate_stake_def try_simps Let_def event_defs set_delta_epoch_def set_next_delta_epoch_def
        intro!: modifies_emit_log inc modifies_if modifies_store split: if_splits)
      (auto simp: pull_vars_def)
qed

lemma flags_frame:
  "modifies {VAddressFlags v} h (delegate_flags t v s a h)"
  "modifies {VAddressFlags v} h (undelegate_flags t v s a h)"
  "modifies {VAddressFlags v} h (set_flag v f h)"
  "modifies {VAddressFlags v} h (clear_flag v f h)"
  unfolding delegate_flags_def undelegate_flags_def Let_def event_defs set_flag_def clear_flag_def
  by (intro modifies_intros; simp)+

lemma delegate_valset_frame:
  "modifies ({val_bitset_bucket v, ValsetLen Execution} \<union> range (ValsetElem Execution)) h (delegate_valset v h)"
  unfolding delegate_valset_def add_to_valset_def val_bitset_bucket_def Let_def array_push_eq prod.case
  by (intro modifies_intros; simp)

text \<open>What \<open>delegate\<close> does after the flags are known.\<close>

lemma delegate_after_flags:
  assumes "linked_list_insert delegators_of v a (delegate_valset v g) = Inr h3"
    and "linked_list_insert validators_of a v h3 = Inr h'"
  shows "modifies ({val_bitset_bucket v, ValsetLen Execution} \<union> range (ValsetElem Execution) \<union> list_nodes) g h'"
    and "modifies list_nodes (delegate_valset v g) h'"
proof -
  show m: "modifies list_nodes (delegate_valset v g) h'"
    using list_frame(1) [OF assms(1)] list_frame(2) [OF assms(2)] modifies_then [of list_nodes _ h3 list_nodes h'] by blast
  show "modifies ({val_bitset_bucket v, ValsetLen Execution} \<union> range (ValsetElem Execution) \<union> list_nodes) g h'"
    by (rule modifies_trans [OF delegate_valset_frame m]) auto
qed

lemma delegate_after_stake:
  assumes "linked_list_insert delegators_of v a (delegate_valset v (delegate_flags t v n a k)) = Inr h3"
    and "linked_list_insert validators_of a v h3 = Inr h'"
  shows "modifies ({VAddressFlags v, val_bitset_bucket v, ValsetLen Execution} \<union> range (ValsetElem Execution) \<union> list_nodes) k h'"
  by (rule modifies_trans [OF flags_frame(1) delegate_after_flags(1) [OF assms]]) auto

lemma delegate_frame:
  assumes "delegate t v s a h = Inr h'"
  shows "modifies (delegate_vars v a) h h'"
  using assms
proof (cases rule: delegateE)
  case (1 h1 h2 n h3)
  let ?X = "delegate_vars v a"
  have "modifies ?X h h1"
    by (rule modifies_mono [OF pull_frame [OF 1(3)]]) (auto simp: delegate_vars_def)
  then have "modifies ?X h h2"
    by (rule modifies_then [OF _ delegate_stake_frame [OF 1(4)]]) (auto simp: delegate_vars_def)
  then have "modifies ?X h (store u256_be (VStake v) n h2)"
    by (auto simp: delegate_vars_def intro!: modifies_store)
  then show ?thesis
    by (rule modifies_then [OF _ delegate_after_stake [OF 1(6,7)]]) (auto simp: delegate_vars_def)
qed

lemma record_withdrawal_after_flags:
  "modifies ({Withdrawal v a w, DAcc v a} \<union> range (\<lambda>e. Accumulator e v))
     (undelegate_flags t v vs a (store u256_be (DStake v a) ds (store u256_be (VStake v) vs h)))
     (record_withdrawal t v n vs ds w a h)" (is "modifies ?X ?f _")
proof -
  have "modifies ?X ?f (store withdrawal_codec (Withdrawal v a w) r (emit_undelegate_event v a w n e ?f))"
    (is "modifies _ _ (?g r e)") for r e
    unfolding event_defs by (intro modifies_store modifies_emit_log modifies_refl) simp_all
  then have "modifies ?X ?f (increment_accumulator_refcount v (?g r e))" for r e
    by (rule modifies_then [OF _ increment_frame(1)]) auto
  then show ?thesis
    by (auto simp: record_withdrawal_def Let_def intro!: modifies_store)
qed

lemma record_withdrawal_rest:
  "modifies ({VAddressFlags v, Withdrawal v a w, DAcc v a} \<union> range (\<lambda>e. Accumulator e v))
     (store u256_be (DStake v a) ds (store u256_be (VStake v) vs h)) (record_withdrawal t v n vs ds w a h)"
  by (rule modifies_trans [OF flags_frame(2) record_withdrawal_after_flags]) auto

lemma record_withdrawal_frame:
  "modifies (pull_vars v a \<union> {VStake v, VAddressFlags v, Withdrawal v a w}) h (record_withdrawal t v n vs ds w a h)"
  (is "modifies ?X h _")
proof -
  have "modifies ?X h (store u256_be (DStake v a) ds (store u256_be (VStake v) vs h))"
    by (intro modifies_store modifies_refl) (simp_all add: pull_vars_def)
  then show ?thesis
    by (rule modifies_then [OF _ record_withdrawal_rest]) (auto simp: pull_vars_def)
qed

lemma undelegate_frame:
  assumes "undelegate t v n w a h = Inr h'"
  shows "modifies (undelegate_vars v a w) h h'"
  using assms
proof (cases rule: undelegateE)
  case (2 h1 n' vs ds h2)
  let ?X = "undelegate_vars v a w"
  have "modifies ?X h h1"
    by (rule modifies_mono [OF pull_frame [OF 2(4)]]) (auto simp: undelegate_vars_def)
  then have h2: "modifies ?X h h2"
    unfolding 2(7) by (rule modifies_then [OF _ record_withdrawal_frame]) (auto simp: undelegate_vars_def)
  show ?thesis
  proof (cases "get_next_epoch_stake v a h2 = 0")
    case True
    then obtain h3 where 3: "linked_list_remove delegators_of v a h2 = Inr h3" "linked_list_remove validators_of a v h3 = Inr h'"
      using 2(8) by blast
    have "modifies ?X h h3"
      by (rule modifies_then [OF h2]) (use list_frame(3) [OF 3(1)] in \<open>auto simp: undelegate_vars_def\<close>)
    then show ?thesis
      by (rule modifies_then) (use list_frame(4) [OF 3(2)] in \<open>auto simp: undelegate_vars_def\<close>)
  qed (use 2(8) h2 in simp)
qed simp

lemma compoundE:
  assumes "compound t v a h = Inr h'"
  obtains h1 where "pull_delegator_up_to_date v a h = Inr h1" "del_rewards v a h1 = 0"
      "h' = store u256_be (DRewards v a) 0 h1"
  | h1 where "pull_delegator_up_to_date v a h = Inr h1" "del_rewards v a h1 \<noteq> 0"
      "delegate t v (del_rewards v a h1) a
        (emit_claim_rewards_event v a (del_rewards v a h1) (store u256_be (DRewards v a) 0 h1)) = Inr h'"
proof -
  obtain h1 where 1: "pull_delegator_up_to_date v a h = Inr h1"
    using assms by (auto simp: compound_def tryR_eq_Inr)
  show thesis
    using assms 1 that by (cases "del_rewards v a h1 = 0") (simp_all add: compound_def Let_def)
qed

lemma compound_frame:
  assumes "compound t v a h = Inr h'"
  shows "modifies (delegate_vars v a) h h'"
proof -
  have reset: "modifies (delegate_vars v a) h (store u256_be (DRewards v a) 0 h1)"
    if "pull_delegator_up_to_date v a h = Inr h1" for h1
    by (rule modifies_store [OF modifies_mono [OF pull_frame [OF that]]]) (auto simp: delegate_vars_def pull_vars_def)
  show ?thesis
    using assms
  proof (cases rule: compoundE)
    case (2 h1)
    have "modifies (delegate_vars v a) h
        (emit_claim_rewards_event v a (del_rewards v a h1) (store u256_be (DRewards v a) 0 h1))"
      unfolding event_defs by (rule modifies_emit_log [OF reset [OF 2(1)]])
    then show ?thesis
      by (rule modifies_then [OF _ delegate_frame [OF 2(3)]]) simp
  qed (simp add: reset)
qed

lemma withdraw_frame:
  assumes "withdraw v w a h = Inr h'"
  shows "modifies (withdraw_vars v a w) h h'"
  using assms
proof (cases rule: withdrawE)
  case (1 r acc h1 rewards h2 amount h3)
  let ?X = "withdraw_vars v a w"
  have "modifies ?X h (clear withdrawal_codec (Withdrawal v a w) h)"
    by (auto simp: withdraw_vars_def intro!: modifies_intros)
  then have "modifies ?X h h1"
    by (rule modifies_then [OF _ decrement_frame(1) [OF 1(3)]]) (auto simp: withdraw_vars_def)
  then have "modifies ?X h h2"
    by (rule modifies_then [OF _ reward_invariant_frame [OF 1(5)]]) (auto simp: withdraw_vars_def)
  moreover have "storage h3 = storage h2"
    using 1(7) by (auto simp: send_tokens_def try_simps dest!: add_to_balance_Inr(3) subtract_from_balance_Inr(3))
  ultimately show ?thesis
    unfolding 1(8) by (auto simp: event_defs modifies_def)
qed

lemma claimE:
  assumes "claim_rewards v a h = Inr h'"
  obtains h1 where "pull_delegator_up_to_date v a h = Inr h1" "del_rewards v a h1 = 0" "h' = h1"
  | h1 h2 where "pull_delegator_up_to_date v a h = Inr h1" "del_rewards v a h1 \<noteq> 0"
      "send_tokens a (del_rewards v a h1) h1 = Inr h2" "storage h2 = storage h1"
      "h' = emit_claim_rewards_event v a (del_rewards v a h1) (store u256_be (DRewards v a) 0 h2)"
proof -
  obtain h1 where 1: "pull_delegator_up_to_date v a h = Inr h1"
    using assms by (auto simp: claim_rewards_def tryR_eq_Inr)
  have "storage h2 = storage h1" if "send_tokens a n h1 = Inr h2" for n h2
    using that by (auto simp: send_tokens_def try_simps dest!: add_to_balance_Inr(3) subtract_from_balance_Inr(3))
  with assms 1 that show thesis
    by (cases "del_rewards v a h1 = 0") (auto simp: claim_rewards_def Let_def tryR_eq_Inr)
qed

lemma claim_after_pull:
  assumes "claim_rewards v a h = Inr h'"
  obtains h1 where "pull_delegator_up_to_date v a h = Inr h1" "modifies {DRewards v a} h1 h'"
  using assms
proof (cases rule: claimE)
  case (2 h1 h2)
  have "modifies {DRewards v a} h1 h'"
    unfolding 2(5) event_defs
    by (intro modifies_emit_log modifies_store modifies_storage) (simp_all add: 2(4))
  with 2(1) that show thesis by blast
qed (use that in simp)

lemma claim_frame:
  assumes "claim_rewards v a h = Inr h'"
  shows "modifies (pull_vars v a) h h'"
proof -
  obtain h1 where 1: "pull_delegator_up_to_date v a h = Inr h1" and m: "modifies {DRewards v a} h1 h'"
    using assms by (rule claim_after_pull)
  show ?thesis
    by (rule modifies_then [OF pull_frame [OF 1] m]) (simp add: pull_vars_def)
qed

lemma change_commission_frame:
  assumes "change_commission v c a h = Inr h'"
  shows "modifies {VCommission v} h h'"
  using assms by (auto simp: change_commission_def Let_def event_defs intro!: modifies_intros split: if_splits)

lemma external_reward_frame:
  assumes "external_reward v x a h = Inr h'"
  shows "modifies {VAcc v, VUnclaimed v} h h'"
  using assms by (auto simp: external_reward_def Let_def dest: apply_reward_frame split: if_splits)

lemma create_validator_frame:
  assumes "create_validator s b m h = Inr (v, h')"
  shows "v = last_val_id h + 1" "modifies (create_vars s b v) h h'"
  using assms by (auto simp: create_validator_def Let_def event_defs create_vars_def intro!: modifies_intros split: if_splits)

section \<open>System calls\<close>

lemma modifies_fold:
  assumes "\<And>x g. modifies X h g \<Longrightarrow> modifies X h (f x g)"
  shows "modifies X h g \<Longrightarrow> modifies X h (fold f xs g)"
  using assms by (induction xs arbitrary: g) simp_all

lemma array_push_frame:
  "modifies X h g \<Longrightarrow> snapshot_vars \<subseteq> X \<Longrightarrow> modifies X h (array_push vs v g)"
  unfolding array_push_eq Let_def by (intro modifies_intros; force simp: snapshot_vars_def)

lemma array_pop_frame:
  "array_pop vs g = Inr (v, g') \<Longrightarrow> modifies X h g \<Longrightarrow> snapshot_vars \<subseteq> X \<Longrightarrow> modifies X h g'"
  by (auto simp: array_pop_eq Let_def split: if_splits intro!: modifies_store) (force simp: snapshot_vars_def)+

lemma snapshot_vars_iff [simp]:
  "ConsStake v \<in> snapshot_vars" "ConsCommission v \<in> snapshot_vars" "SnapStake v \<in> snapshot_vars"
  "SnapCommission v \<in> snapshot_vars" "InBoundary \<in> snapshot_vars" "ValBitset b \<in> snapshot_vars"
  "ValsetLen vs \<in> snapshot_vars" "ValsetElem vs i \<in> snapshot_vars"
  by (auto simp: snapshot_vars_def)

lemma throw_out_view_frame:
  "throw_out_view vs g = Inr g' \<Longrightarrow> modifies snapshot_vars h g \<Longrightarrow> modifies snapshot_vars h g'"
proof (induction vs g rule: throw_out_view.induct)
  case (1 vs g)
  show ?case
  proof (cases "array_empty vs g")
    case False
    then obtain v g1 where pop: "array_pop vs g = Inr (v, g1)"
      and rec: "throw_out_view vs (clear u256_be (view_commission vs v) (clear u256_be (view_stake vs v) g1)) = Inr g'"
      using "1.prems"(1) by (auto simp: throw_out_view.simps [of vs g] split: sum.splits)
    have "modifies snapshot_vars h (clear u256_be (view_commission vs v) (clear u256_be (view_stake vs v) g1))"
      using array_pop_frame [OF pop "1.prems"(2)]
      by (auto simp: view_commission_def view_stake_def intro!: modifies_store)
    then show ?thesis
      using "1.IH" [OF False pop refl rec] by blast
  qed (use 1 in \<open>simp add: throw_out_view.simps [of vs g]\<close>)
qed

lemma process_removals_frame:
  "process_removals is g = Inr g' \<Longrightarrow> modifies snapshot_vars h g \<Longrightarrow> modifies snapshot_vars h g'"
proof (induction "is" arbitrary: g)
  case (Cons i "is")
  obtain v g1 where pop: "array_pop Execution (remove_from_valset (array_get Execution (word_of_nat i) g) g) = Inr (v, g1)"
    and rec: "process_removals is (array_set Execution (word_of_nat i) v g1) = Inr g'"
    using Cons.prems(1) by (auto simp: Let_def try_simps)
  have "modifies snapshot_vars h (remove_from_valset (array_get Execution (word_of_nat i) g) g)"
    using Cons.prems(2) by (auto simp: remove_from_valset_def Let_def val_bitset_bucket_def intro!: modifies_store)
  then have "modifies snapshot_vars h g1"
    by (rule array_pop_frame [OF pop]) simp
  then show ?case
    by (intro Cons.IH [OF rec]) (simp add: array_access modifies_store)
qed simp

lemma snapshot_frame:
  assumes "syscall_snapshot data x h = Inr h'"
  shows "modifies snapshot_vars h h'"
  using assms
proof (cases rule: snapshotE)
  case (1 h1 h2 h3)
  have "modifies snapshot_vars h h1"
    by (rule throw_out_view_frame [OF 1(4)]) simp
  then have "modifies snapshot_vars h (fold copy_view_step [0..<unat (array_length Consensus h1)] h1)"
    by (rule modifies_fold [rotated]) (auto simp: copy_view_step_def Let_def intro!: modifies_store array_push_frame)
  then have "modifies snapshot_vars h h2"
    by (rule throw_out_view_frame [OF 1(5)])
  then have "modifies snapshot_vars h (fold select_step xs h2)" for xs
    by (rule modifies_fold [rotated])
      (auto simp: select_step_def Let_def intro!: modifies_store array_push_frame split: prod.splits)
  then have "modifies snapshot_vars h h3"
    by (rule process_removals_frame [OF 1(6)])
  then show ?thesis
    unfolding 1(7) by (rule modifies_store) simp_all
qed

lemma refresh_accumulator_frame: "modifies {Accumulator e v} h (refresh_accumulator e v h)"
  by (auto simp: refresh_accumulator_def intro!: modifies_store split: option.splits)

lemma epoch_change_step_frame: "modifies (range (case_prod Accumulator)) h (epoch_change_step e i h)"
  unfolding epoch_change_step_def Let_def
  by (rule modifies_trans [OF refresh_accumulator_frame refresh_accumulator_frame]) force

lemma epoch_changeE:
  assumes "syscall_on_epoch_change data x h = Inr h'"
  obtains e where "x = 0" "abi_decode_fixed data = Inr (e, [])" "epoch h < e"
    "h' = store u64_be Epoch e (store bool_codec InBoundary False
       (fold (epoch_change_step e) [0..<unat (array_length Snapshot h)] (emit_epoch_changed_event (epoch h) e h)))"
  using assms
  by (auto simp: syscall_on_epoch_change_def try_simps Let_def not_le array_access event_defs split: if_splits)

lemma epoch_change_frame:
  assumes "syscall_on_epoch_change data x h = Inr h'"
  shows "modifies epoch_change_vars h h'"
  using assms
proof (cases rule: epoch_changeE)
  case (1 e)
  have "modifies epoch_change_vars h (emit_epoch_changed_event (epoch h) e h)"
    by (simp add: event_defs modifies_emit_log)
  then have "modifies epoch_change_vars h
      (fold (epoch_change_step e) [0..<unat (array_length Snapshot h)] (emit_epoch_changed_event (epoch h) e h))"
  proof (rule modifies_fold [rotated])
    show "modifies epoch_change_vars h (epoch_change_step e i g)" if "modifies epoch_change_vars h g" for i g
      by (rule modifies_then [OF that epoch_change_step_frame]) (auto simp: epoch_change_vars_def)
  qed
  then show ?thesis
    unfolding 1(4) by (intro modifies_store) (simp_all add: epoch_change_vars_def)
qed

lemma rewardE:
  assumes "syscall_reward t data r h = Inr h'"
  obtains b v h1 c n d h2 where "abi_decode_fixed data = Inr (b, [])" "load_checked u64_be (ValIdSecp b) h = Some v"
    "this_epoch_view_stake v h \<noteq> 0" "mint_tokens r h = Inr h1"
    "checked_mul_div r (this_epoch_view_commission v h1) MON = Inr c"
    "checked_add (del_rewards v (val_auth_address v h1) h1) c = Inr n" "checked_sub r c = Inr d"
    "apply_reward v SYSTEM_SENDER d (this_epoch_view_stake v h) (store u256_be (DRewards v (val_auth_address v h1)) n h1) = Inr h2"
    "h' = (if t \<ge> MONAD_FIVE then store u64_be ProposerValId v h2 else h2)"
  using assms
  by (auto simp: syscall_reward_def try_simps Let_def split: if_splits option.splits)

lemma reward_frame:
  assumes "syscall_reward t data r h = Inr h'"
  shows "\<exists>v. modifies (reward_vars v (val_auth_address v h)) h h'"
  using assms
proof (cases rule: rewardE)
  case (1 b v h1 c n d h2)
  let ?a = "val_auth_address v h1"
  have s: "storage h1 = storage h"
    using 1(4) unfolding mint_tokens_def by (rule add_to_balance_Inr(3))
  then have a: "?a = val_auth_address v h"
    by (simp add: val_auth_address_def load_def)
  have "modifies (reward_vars v ?a) h h1"
    using s by (rule modifies_storage)
  then have "modifies (reward_vars v ?a) h (store u256_be (DRewards v ?a) n h1)"
    by (rule modifies_store) (simp_all add: reward_vars_def)
  then have "modifies (reward_vars v ?a) h h2"
    by (rule modifies_then [OF _ apply_reward_frame [OF 1(8)]]) (simp add: reward_vars_def)
  then have "modifies (reward_vars v ?a) h h'"
    unfolding 1(9) by (auto simp: reward_vars_def intro!: modifies_store)
  then show ?thesis
    unfolding a by blast
qed

section \<open>Invariants of quiet variables\<close>

text \<open>Most operations leave validators, views and lists alone: they write amounts, epochs and accumulators.
  An invariant that does not look at these has to be checked for the other operations only.\<close>

fun quiet :: "svar \<Rightarrow> bool" where
  "quiet Epoch = True"
| "quiet InBoundary = True"
| "quiet ProposerValId = True"
| "quiet (VUnclaimed v) = True"
| "quiet (VAcc v) = True"
| "quiet (VCommission v) = True"
| "quiet (DStake v a) = True"
| "quiet (DAcc v a) = True"
| "quiet (DRewards v a) = True"
| "quiet (DDelta v a) = True"
| "quiet (DNextDelta v a) = True"
| "quiet (DEpochs v a) = True"
| "quiet (Withdrawal v a w) = True"
| "quiet (Accumulator e v) = True"
| "quiet _ = False"

lemma quiet_frames:
  "pull_delegator_up_to_date v a h = Inr h' \<Longrightarrow> modifies (Collect quiet) h h'"
  "withdraw v w a h = Inr h' \<Longrightarrow> modifies (Collect quiet) h h'"
  "claim_rewards v a h = Inr h' \<Longrightarrow> modifies (Collect quiet) h h'"
  "change_commission v c a h = Inr h' \<Longrightarrow> modifies (Collect quiet) h h'"
  "external_reward v x a h = Inr h' \<Longrightarrow> modifies (Collect quiet) h h'"
  "syscall_reward t data x h = Inr h' \<Longrightarrow> modifies (Collect quiet) h h'"
  "syscall_on_epoch_change data x h = Inr h' \<Longrightarrow> modifies (Collect quiet) h h'"
proof -
  show "pull_delegator_up_to_date v a h = Inr h' \<Longrightarrow> modifies (Collect quiet) h h'"
    by (erule modifies_mono [OF pull_frame]) (auto simp: write_set_iffs)
  show "withdraw v w a h = Inr h' \<Longrightarrow> modifies (Collect quiet) h h'"
    by (erule modifies_mono [OF withdraw_frame]) (auto simp: write_set_iffs)
  show "claim_rewards v a h = Inr h' \<Longrightarrow> modifies (Collect quiet) h h'"
    by (erule modifies_mono [OF claim_frame]) (auto simp: write_set_iffs)
  show "change_commission v c a h = Inr h' \<Longrightarrow> modifies (Collect quiet) h h'"
    by (erule modifies_mono [OF change_commission_frame]) auto
  show "external_reward v x a h = Inr h' \<Longrightarrow> modifies (Collect quiet) h h'"
    by (erule modifies_mono [OF external_reward_frame]) auto
  show "syscall_on_epoch_change data x h = Inr h' \<Longrightarrow> modifies (Collect quiet) h h'"
    by (erule modifies_mono [OF epoch_change_frame]) (auto simp: write_set_iffs)
  show "modifies (Collect quiet) h h'" if reward: "syscall_reward t data x h = Inr h'"
  proof -
    obtain v where "modifies (reward_vars v (val_auth_address v h)) h h'"
      using reward_frame [OF reward] by blast
    then show ?thesis
      by (rule modifies_mono) (auto simp: write_set_iffs)
  qed
qed

locale quiet_invariant =
  fixes I :: "host \<Rightarrow> bool"
  assumes empty: "storage h = (\<lambda>_. 0) \<Longrightarrow> I h"
    and quiet: "I h \<Longrightarrow> modifies (Collect quiet) h h' \<Longrightarrow> I h'"
    and create: "I h \<Longrightarrow> in_range h \<Longrightarrow> create_validator s b m h = Inr (v, h') \<Longrightarrow> val_exists v h' \<Longrightarrow> I h'"
    and delegate: "I h \<Longrightarrow> delegate t v x a h = Inr h' \<Longrightarrow> I h'"
    and undelegate: "I h \<Longrightarrow> undelegate t v n w a h = Inr h' \<Longrightarrow> I h'"
    and snapshot: "I h \<Longrightarrow> syscall_snapshot data y h = Inr h' \<Longrightarrow> I h'"
begin

lemma compound:
  assumes "I h" and "compound t v a h = Inr h'"
  shows "I h'"
proof -
  have reset: "modifies (Collect quiet) h (store u256_be (DRewards v a) x h1)"
    if "pull_delegator_up_to_date v a h = Inr h1" for x h1
    by (rule modifies_store [OF quiet_frames(1) [OF that]]) simp_all
  show ?thesis
    using assms(2)
  proof (cases rule: compoundE)
    case (2 h1)
    have "modifies (Collect quiet) h
        (emit_claim_rewards_event v a (del_rewards v a h1) (store u256_be (DRewards v a) 0 h1))"
      unfolding event_defs by (rule modifies_emit_log [OF reset [OF 2(1)]])
    then show ?thesis
      using delegate [OF quiet [OF assms(1)] 2(3)] by blast
  qed (use reset quiet [OF assms(1)] in simp)
qed

end

sublocale quiet_invariant \<subseteq> storage: storage_invariant I
proof
  fix h h' :: host and t a x data v
  show "I h'" if "I h" "storage h' = storage h"
    using quiet [OF that(1)] modifies_storage [OF that(2)] by blast
  show "I h'" if "I h" "in_range h" "contract_op t a x h h'"
    using that(3)
  proof (cases rule: contract_op.cases)
    case (op_add_validator m s b v h1)
    have "val_exists v h1"
      using op_add_validator(4) by (rule delegateE)
    then show ?thesis
      using create [OF that(1,2) op_add_validator(3)] delegate [OF _ op_add_validator(4)] by blast
  qed (auto intro: that(1) delegate [OF that(1)] undelegate [OF that(1)] compound [OF that(1)]
      quiet [OF that(1) quiet_frames(1)] quiet [OF that(1) quiet_frames(2)] quiet [OF that(1) quiet_frames(3)]
      quiet [OF that(1) quiet_frames(4)] quiet [OF that(1) quiet_frames(5)])
  show "I (store u64_be ProposerValId v h)" if "I h"
    by (rule quiet [OF that]) (simp add: modifies_store)
qed (auto intro: empty quiet [OF _ quiet_frames(6)] quiet [OF _ quiet_frames(7)] snapshot)

end
