(* ===== verification/StakeSums.thy ===== *)
theory StakeSums
  imports Frames
begin

text \<open>
  The stake of a validator is the sum of the stakes of its delegators. The position of a delegator is its
  active stake, the stake of the next epoch and the stake of the epoch after; every operation moves a
  position and the stake of the validator by the same amount.
\<close>

section \<open>Positions\<close>

definition position :: "u64 \<Rightarrow> address \<Rightarrow> host \<Rightarrow> nat" where
  "position v a h = unat (del_stake v a h) + unat (delta_stake v a h) + unat (next_delta_stake v a h)"

definition pool :: "u64 \<Rightarrow> host \<Rightarrow> nat" where
  "pool v h = (\<Sum>a\<in>UNIV. position v a h)"

text \<open>Stake that waits for an epoch has an epoch to wait for.\<close>

definition scheduled :: "u64 \<Rightarrow> address \<Rightarrow> host \<Rightarrow> bool" where
  "scheduled v a h \<longleftrightarrow> (get_delta_epoch v a h = 0 \<longrightarrow> delta_stake v a h = 0) \<and>
     (get_next_delta_epoch v a h = 0 \<longrightarrow> next_delta_stake v a h = 0)"

definition stake_inv :: "host \<Rightarrow> bool" where
  "stake_inv h \<longleftrightarrow> (\<forall>v a. scheduled v a h) \<and> (\<forall>v. unat (val_stake v h) = pool v h)"

definition position_vars :: "u64 \<Rightarrow> address \<Rightarrow> svar set" where
  "position_vars v a = {DStake v a, DDelta v a, DNextDelta v a, DEpochs v a}"

lemma position_modifies:
  assumes "modifies X h h'" and "X \<inter> position_vars v a = {}"
  shows "position v a h' = position v a h" and "scheduled v a h' = scheduled v a h"
proof -
  have "DStake v a \<notin> X" "DDelta v a \<notin> X" "DNextDelta v a \<notin> X" "DEpochs v a \<notin> X"
    using assms(2) by (auto simp: position_vars_def)
  then show "position v a h' = position v a h" "scheduled v a h' = scheduled v a h"
    by (simp_all add: position_def scheduled_def get_delta_epoch_def get_next_delta_epoch_def
        modifies_load(1) [OF assms(1)])
qed

lemma pool_change:
  assumes "\<And>b. b \<noteq> a \<Longrightarrow> position v b h' = position v b h"
  shows "pool v h' + position v a h = pool v h + position v a h'"
proof -
  have split: "pool v g = position v a g + (\<Sum>b\<in>UNIV - {a}. position v b g)" for g
    unfolding pool_def by (rule sum.remove) simp_all
  have "(\<Sum>b\<in>UNIV - {a}. position v b h') = (\<Sum>b\<in>UNIV - {a}. position v b h)"
    using assms by (intro sum.cong) auto
  then show ?thesis
    using split [of h] split [of h'] by linarith
qed

text \<open>An operation that touches the stake of one delegator of one validator only.\<close>

lemma stake_inv_change:
  assumes "stake_inv h" and m: "modifies X h h'"
    and other: "\<And>v' a'. (v', a') \<noteq> (v, a) \<Longrightarrow> X \<inter> position_vars v' a' = {}" "\<And>v'. v' \<noteq> v \<Longrightarrow> VStake v' \<notin> X"
    and "scheduled v a h'"
    and "unat (val_stake v h') + position v a h = unat (val_stake v h) + position v a h'"
  shows "stake_inv h'"
  unfolding stake_inv_def
proof (intro conjI allI)
  fix v' a'
  show "scheduled v' a' h'"
    using assms(1,5) position_modifies(2) [OF m other(1), of v' a'] by (cases "(v', a') = (v, a)") (auto simp: stake_inv_def)
  show "unat (val_stake v' h') = pool v' h'"
  proof (cases "v' = v")
    case True
    have "pool v h' + position v a h = pool v h + position v a h'"
      by (rule pool_change) (use position_modifies(1) [OF m other(1)] in simp)
    then show ?thesis
      using assms(1,6) True by (auto simp: stake_inv_def)
  next
    case False
    have "pool v' h' = pool v' h"
      unfolding pool_def using False by (intro sum.cong refl position_modifies(1) [OF m other(1)]) simp
    then show ?thesis
      using assms(1) False by (simp add: stake_inv_def modifies_load(1) [OF m other(2)])
  qed
qed

lemma stake_inv_modifies:
  assumes "stake_inv h" and m: "modifies X h h'"
    and "\<And>v a. X \<inter> position_vars v a = {}" and "\<And>v. VStake v \<notin> X"
  shows "stake_inv h'"
proof -
  have "val_stake v h' = val_stake v h" for v
    by (rule modifies_load(1) [OF m assms(4)]) simp
  then show ?thesis
    using assms(1) position_modifies [OF m assms(3)] by (simp add: stake_inv_def pool_def)
qed

section \<open>Operations\<close>

lemma promote_position:
  assumes "scheduled v a h"
  shows "scheduled v a (promote_delta v a h)"
    and "position v a (promote_delta v a h) + unat (delta_stake v a h) = position v a h"
  using assms
  by (simp_all add: promote_delta_def Let_def set_delta_epoch_def set_next_delta_epoch_def scheduled_def position_def
      get_delta_epoch_def get_next_delta_epoch_def)

lemma apply_compound_position:
  assumes "apply_compound v a h = Inr (r, h')" and "scheduled v a h"
  shows "scheduled v a h'" and "position v a h' = position v a h"
proof -
  obtain acc h1 s where d: "decrement_accumulator_refcount (get_delta_epoch v a h) v h = (acc, h1)"
    and s: "checked_add (del_stake v a h1) (delta_stake v a h1) = Inr s"
    and h': "h' = promote_delta v a (store u256_be (DStake v a) s (store u256_be (DAcc v a) acc h1))"
    using assms by (auto simp: apply_compound_def try_simps Let_def split: prod.splits)
  have 1: "position v a h1 = position v a h" "scheduled v a h1"
    using position_modifies [OF decrement_frame(1) [OF d]] assms(2) by (simp_all add: position_vars_def)
  let ?g = "store u256_be (DStake v a) s (store u256_be (DAcc v a) acc h1)"
  have g: "scheduled v a ?g" "position v a ?g = position v a h1 + unat (delta_stake v a h1)"
    using 1(2) s by (simp_all add: scheduled_def get_delta_epoch_def get_next_delta_epoch_def position_def checked_add_Inr)
  show "scheduled v a h'"
    unfolding h' by (rule promote_position(1) [OF g(1)])
  show "position v a h' = position v a h"
    using promote_position(2) [OF g(1)] g(2) 1(1) unfolding h' by simp
qed

lemma compound_and_credit_position:
  assumes "compound_and_credit v a h = Inr h'" and "scheduled v a h"
  shows "scheduled v a h' \<and> position v a h' = position v a h"
proof -
  obtain r h1 h2 n where 1: "apply_compound v a h = Inr (r, h1)" and 2: "reward_invariant v r h1 = Inr h2"
    and h': "h' = store u256_be (DRewards v a) n h2"
    using assms by (auto simp: compound_and_credit_def try_simps)
  have "modifies {VUnclaimed v, DRewards v a} h1 h'"
    unfolding h' by (rule modifies_store [OF modifies_mono [OF reward_invariant_frame [OF 2]]]) simp_all
  then show ?thesis
    using apply_compound_position [OF 1 assms(2)] position_modifies [of _ h1 h'] by (simp add: position_vars_def)
qed

lemma settle_position:
  assumes "settle_active_stake v a h = Inr h'"
  shows "position v a h' = position v a h" "scheduled v a h' = scheduled v a h"
proof -
  have "modifies {VUnclaimed v, DRewards v a, DAcc v a} h g" if "reward_invariant v r h = Inr g" for r g
    by (rule modifies_mono [OF reward_invariant_frame [OF that]]) simp
  then have "modifies {VUnclaimed v, DRewards v a, DAcc v a} h h'"
    using assms by (auto simp: settle_active_stake_def try_simps Let_def intro!: modifies_store split: if_splits)
  then show "position v a h' = position v a h" "scheduled v a h' = scheduled v a h"
    by (simp_all add: position_modifies position_vars_def)
qed

lemma pull_position:
  assumes "pull_delegator_up_to_date v a h = Inr h'" and "scheduled v a h"
  shows "scheduled v a h' \<and> position v a h' = position v a h"
  using assms(1)
proof (rule pull_preserves)
  assume "can_promote_delta v a (epoch h) h"
  then have "delta_stake v a h = 0"
    using assms(2) by (simp add: can_promote_delta_def scheduled_def)
  then show "scheduled v a (promote_delta v a h) \<and> position v a (promote_delta v a h) = position v a h"
    using promote_position [OF assms(2)] by simp
qed (use assms(2) compound_and_credit_position settle_position in auto)

lemma pull_stake_inv:
  assumes "pull_delegator_up_to_date v a h = Inr h'" and "stake_inv h"
  shows "stake_inv h'"
proof (rule stake_inv_change [OF assms(2) pull_frame [OF assms(1)], of v a])
  show "scheduled v a h'"
    using pull_position [OF assms(1)] assms(2) by (simp add: stake_inv_def)
  show "unat (val_stake v h') + position v a h = unat (val_stake v h) + position v a h'"
    using pull_position [OF assms(1)] assms(2) modifies_load(1) [OF pull_frame [OF assms(1)], of "VStake v" u256_be]
    by (simp add: stake_inv_def write_set_iffs)
qed (auto simp: write_set_iffs position_vars_def)

lemma activation_epoch_nonzero:
  assumes "unat (epoch h) < 2 ^ 64 - 2"
  shows "get_activation_epoch h \<noteq> 0"
  using assms by (auto simp: get_activation_epoch_def word_unat_eq_iff unat_word_ariths)

lemma delegate_stake_position:
  assumes "delegate_stake v s a h = Inr h'" and "scheduled v a h" and "unat (epoch h) < 2 ^ 64 - 2"
  shows "scheduled v a h'" and "position v a h' = position v a h + unat s"
proof -
  have keep: "position v a (if b then increment_accumulator_refcount v g else g) = position v a g"
    "scheduled v a (if b then increment_accumulator_refcount v g else g) = scheduled v a g" for b g
    using position_modifies [OF increment_frame(1) [of g v]] by (simp_all add: position_vars_def)
  have log: "position v a (emit_log l g) = position v a g" "scheduled v a (emit_log l g) = scheduled v a g" for l g
    by (simp_all add: position_def scheduled_def get_delta_epoch_def get_next_delta_epoch_def)
  have "scheduled v a h' \<and> position v a h' = position v a h + unat s"
    using assms(1)
  proof (cases rule: delegate_stakeE)
    case (1 n g)
    have "scheduled v a g" "position v a g = position v a h + unat s"
      using assms(2) 1(2) activation_epoch_nonzero [OF assms(3)] unfolding 1(3)
      by (simp_all add: set_next_delta_epoch_def scheduled_def get_delta_epoch_def get_next_delta_epoch_def
          position_def checked_add_Inr)
    then show ?thesis
      unfolding 1(4) event_defs log keep by simp
  next
    case (2 n g)
    have "scheduled v a g" "position v a g = position v a h + unat s"
      using assms(2) 2(2) activation_epoch_nonzero [OF assms(3)] unfolding 2(3)
      by (simp_all add: set_delta_epoch_def scheduled_def get_delta_epoch_def get_next_delta_epoch_def
          position_def checked_add_Inr)
    then show ?thesis
      unfolding 2(4) event_defs log keep by simp
  qed
  then show "scheduled v a h'" "position v a h' = position v a h + unat s"
    by simp_all
qed

lemma delegate_stake_inv:
  assumes "delegate t v s a h = Inr h'" and "stake_inv h" and "unat (epoch h) < 2 ^ 64 - 2"
  shows "stake_inv h'" and "position v a h' = position v a h + unat s"
proof -
  have "stake_inv h' \<and> position v a h' = position v a h + unat s"
    using assms(1)
  proof (cases rule: delegateE)
    case (1 h1 h2 n h3)
    note 2 = delegate_after_stake [OF 1(6,7)]
    have s1: "scheduled v a h1 \<and> position v a h1 = position v a h"
      using pull_position [OF 1(3)] assms(2) by (simp add: stake_inv_def)
    have "epoch h1 = epoch h"
      by (rule modifies_load(1) [OF pull_frame [OF 1(3)]]) (simp_all add: write_set_iffs)
    then have s2: "scheduled v a h2" "position v a h2 = position v a h + unat s"
      using delegate_stake_position [OF 1(4)] s1 assms(3) by simp_all
    have n: "unat n = unat (val_stake v h) + unat s"
      using 1(5) modifies_load(1) [OF delegate_stake_frame [OF 1(4)], of "VStake v" u256_be]
        modifies_load(1) [OF pull_frame [OF 1(3)], of "VStake v" u256_be]
      by (simp add: write_set_iffs checked_add_Inr)
    have s3: "scheduled v a h'" "position v a h' = position v a h + unat s"
      using s2 position_modifies [OF 2, of v a]
        position_modifies [OF modifies_store [OF modifies_refl, of "VStake v" "{VStake v}" u256_be h2 n], of v a]
      by (auto simp: position_vars_def val_bitset_bucket_def)
    moreover have "val_stake v h' = n"
      using modifies_load(1) [OF 2, of "VStake v" u256_be] by (auto simp: val_bitset_bucket_def)
    ultimately have "unat (val_stake v h') + position v a h = unat (val_stake v h) + position v a h'"
      using n by simp
    with s3 show ?thesis
      using stake_inv_change [OF assms(2) delegate_frame [OF assms(1)], of v a]
      by (auto simp: write_set_iffs position_vars_def val_bitset_bucket_def)
  qed
  then show "stake_inv h'" "position v a h' = position v a h + unat s"
    by simp_all
qed

lemma undelegate_stake_inv:
  assumes "undelegate t v n w a h = Inr h'" and "stake_inv h"
  shows "stake_inv h'"
  using assms(1)
proof (cases rule: undelegateE)
  case (2 h1 n' vs ds h2)
  have s1: "scheduled v a h1 \<and> position v a h1 = position v a h"
    using pull_position [OF 2(4)] assms(2) by (simp add: stake_inv_def)
  have v1: "val_stake v h1 = val_stake v h"
    by (rule modifies_load(1) [OF pull_frame [OF 2(4)]]) (simp_all add: write_set_iffs)
  let ?g = "store u256_be (DStake v a) ds (store u256_be (VStake v) vs h1)"
  have g: "scheduled v a ?g" "position v a ?g + unat (del_stake v a h1) = position v a h1 + unat ds" "val_stake v ?g = vs"
    using s1 by (simp_all add: scheduled_def position_def get_delta_epoch_def get_next_delta_epoch_def)
  have h2: "scheduled v a h2" "position v a h2 = position v a ?g" "val_stake v h2 = vs"
    using g position_modifies [OF record_withdrawal_rest [of v a w ds vs h1 t n'], of v a]
      modifies_load(1) [OF record_withdrawal_rest [of v a w ds vs h1 t n'], of "VStake v" u256_be]
    unfolding 2(7) by (auto simp: position_vars_def)
  have l: "modifies list_nodes h2 h'"
    using 2(8) list_frame(3,4) modifies_then [OF _ _ order_refl] by fastforce
  have h': "scheduled v a h'" "position v a h' = position v a ?g" "val_stake v h' = vs"
    using h2 position_modifies [OF l, of v a] modifies_load(1) [OF l, of "VStake v" u256_be] by (auto simp: position_vars_def)
  have "unat (del_stake v a h1) = unat n' + unat ds" "unat (val_stake v h1) = unat n' + unat vs"
    using 2(6) by (auto simp: undelegate_amounts_def try_simps checked_sub_Inr checked_add_Inr split: if_splits)
  then have "unat (val_stake v h') + position v a h = unat (val_stake v h) + position v a h'"
    using h'(2,3) g(2) s1 v1 by simp
  with h'(1) show ?thesis
    using stake_inv_change [OF assms(2) undelegate_frame [OF assms(1)], of v a]
    by (auto simp: write_set_iffs position_vars_def)
qed (use assms in simp)

lemma compound_stake_inv:
  assumes "compound t v a h = Inr h'" and "stake_inv h" and "unat (epoch h) < 2 ^ 64 - 2"
  shows "stake_inv h'"
proof -
  have reset: "stake_inv (store u256_be (DRewards v a) x h1)" if "pull_delegator_up_to_date v a h = Inr h1" for x h1
    using pull_stake_inv [OF that assms(2)]
    by (rule stake_inv_modifies [where X = "{DRewards v a}"]) (auto simp: position_vars_def intro: modifies_store)
  show ?thesis
    using assms(1)
  proof (cases rule: compoundE)
    case (2 h1)
    let ?g = "emit_claim_rewards_event v a (del_rewards v a h1) (store u256_be (DRewards v a) 0 h1)"
    have "stake_inv ?g"
      using reset [OF 2(1)]
      by (rule stake_inv_modifies [where X = "{}"]) (auto simp: event_defs intro: modifies_emit_log)
    moreover have "epoch ?g = epoch h"
      using modifies_load(1) [OF pull_frame [OF 2(1)], of Epoch u64_be] by (simp add: event_defs write_set_iffs)
    ultimately show ?thesis
      using delegate_stake_inv(1) [OF 2(3)] assms(3) by simp
  qed (simp add: reset)
qed

section \<open>The invariant\<close>

interpretation stakes: storage_invariant stake_inv
proof
  fix h h' :: host and t a x data v
  show "stake_inv h" if "storage h = (\<lambda>_. 0)"
    using that
    by (simp add: stake_inv_def pool_def position_def scheduled_def load_def sv_u256.load_zero_storage)
  show "stake_inv h'" if "stake_inv h" "storage h' = storage h"
    using that(1) by (rule stake_inv_modifies [where X = "{}"]) (use that(2) in \<open>auto intro: modifies_storage\<close>)
  show "stake_inv h'" if "stake_inv h" "in_range h" "contract_op t a x h h'"
    using that(3)
  proof (cases rule: contract_op.cases)
    case (op_add_validator m s b v h1)
    have "stake_inv h1"
      using that(1) create_validator_frame(2) [OF op_add_validator(3)]
      by (rule stake_inv_modifies) (auto simp: write_set_iffs position_vars_def)
    moreover have "epoch h1 = epoch h"
      by (rule modifies_load(1) [OF create_validator_frame(2) [OF op_add_validator(3)]])
        (simp_all add: write_set_iffs)
    ultimately show ?thesis
      using delegate_stake_inv(1) [OF op_add_validator(4)] that(2) by (simp add: in_range_def)
  next
    case (op_withdraw v w)
    then show ?thesis
      using stake_inv_modifies [OF that(1) withdraw_frame] by (auto simp: write_set_iffs position_vars_def)
  next
    case (op_claim v)
    obtain h1 where 1: "pull_delegator_up_to_date v a h = Inr h1" and m: "modifies {DRewards v a} h1 h'"
      using op_claim(2) by (rule claim_after_pull)
    then show ?thesis
      using stake_inv_modifies [OF pull_stake_inv [OF 1 that(1)] m] by (auto simp: position_vars_def)
  next
    case (op_commission v c)
    then show ?thesis
      using stake_inv_modifies [OF that(1) change_commission_frame] by (auto simp: position_vars_def)
  next
    case (op_external v)
    then show ?thesis
      using stake_inv_modifies [OF that(1) external_reward_frame] by (auto simp: position_vars_def)
  qed (use that in \<open>auto simp: in_range_def intro: pull_stake_inv delegate_stake_inv(1) undelegate_stake_inv compound_stake_inv\<close>)
  show "stake_inv h'" if "stake_inv h" "syscall_reward t data x h = Inr h'"
    using reward_frame [OF that(2)] stake_inv_modifies [OF that(1)] by (fastforce simp: write_set_iffs position_vars_def)
  show "stake_inv h'" if "stake_inv h" "syscall_snapshot data x h = Inr h'"
    using that(1) snapshot_frame [OF that(2)] by (rule stake_inv_modifies) (auto simp: write_set_iffs position_vars_def)
  show "stake_inv h'" if "stake_inv h" "syscall_on_epoch_change data x h = Inr h'"
    using that(1) epoch_change_frame [OF that(2)] by (rule stake_inv_modifies) (auto simp: write_set_iffs position_vars_def)
  show "stake_inv (store u64_be ProposerValId v h)" if "stake_inv h"
    using that by (rule stake_inv_modifies [where X = "{ProposerValId}"]) (auto simp: position_vars_def intro: modifies_store)
qed

text \<open>No position, and no sum of positions, wraps around.\<close>

lemma position_le_val_stake:
  assumes "stake_inv h"
  shows "position v a h \<le> unat (val_stake v h)"
  using assms member_le_sum [of a UNIV "\<lambda>a. position v a h"] by (simp add: stake_inv_def pool_def)

lemma next_epoch_stake_exact:
  assumes "stake_inv h"
  shows "unat (get_next_epoch_stake v a h) = position v a h"
  using position_le_val_stake [OF assms, of v a] unat_u256_less [of "val_stake v h"]
  by (simp add: get_next_epoch_stake_def position_def unat_word_ariths)

text \<open>C3. In every reachable state the stake recorded for a validator is the sum, over all delegators, of the
  active stake and of the stake that becomes active in one of the next two epochs.\<close>

theorem validator_stake_is_sum:
  assumes "reachable h"
  shows "unat (val_stake v h) =
    (\<Sum>a\<in>UNIV. unat (del_stake v a h) + unat (delta_stake v a h) + unat (next_delta_stake v a h))"
  using stakes.reachable [OF assms] by (simp add: stake_inv_def pool_def position_def)

end
