(* ===== verification/Schedule.thy ===== *)
theory Schedule
  imports StakeSums
begin

text \<open>
  When stake becomes active. A delegator has at most two amounts that wait, each with the epoch from which
  on it counts; the invariant orders these epochs around the current one, so that the assertion in
  \<open>pull_delegator_up_to_date\<close> never fails. Each waiting amount and each open withdrawal refers to the
  accumulator of its epoch, and the reference count of an accumulator is the number of its references.
\<close>

section \<open>Epochs of a delegator\<close>

definition ordered :: "u64 \<Rightarrow> address \<Rightarrow> host \<Rightarrow> bool" where
  "ordered v a h \<longleftrightarrow> unat (get_delta_epoch v a h) \<le> unat (epoch h) + 1 \<and>
     unat (get_next_delta_epoch v a h) \<le> unat (epoch h) + (if in_epoch_delay_period h then 2 else 1) \<and>
     (get_delta_epoch v a h \<noteq> 0 \<longrightarrow> get_next_delta_epoch v a h \<noteq> 0 \<longrightarrow>
      unat (get_next_delta_epoch v a h) = unat (get_delta_epoch v a h) + 1)"

text \<open>After a pull nothing waits for an epoch that has begun.\<close>

definition settled :: "u64 \<Rightarrow> address \<Rightarrow> host \<Rightarrow> bool" where
  "settled v a h \<longleftrightarrow> (get_delta_epoch v a h = 0 \<or> unat (get_delta_epoch v a h) = unat (epoch h) + 1) \<and>
     (get_next_delta_epoch v a h = 0 \<or> in_epoch_delay_period h \<and> unat (get_next_delta_epoch v a h) = unat (epoch h) + 2)"

lemma promote_delta_epochs:
  "get_delta_epoch v a (promote_delta v a h) = get_next_delta_epoch v a h"
  "get_next_delta_epoch v a (promote_delta v a h) = 0"
  by (simp_all add: promote_delta_def Let_def set_delta_epoch_def set_next_delta_epoch_def get_delta_epoch_def
      get_next_delta_epoch_def)

lemma epochs_modifies:
  assumes "modifies X h h'" and "DEpochs v a \<notin> X"
  shows "get_delta_epoch v a h' = get_delta_epoch v a h" "get_next_delta_epoch v a h' = get_next_delta_epoch v a h"
  using modifies_load(1) [OF assms, of epochs_codec] by (simp_all add: get_delta_epoch_def get_next_delta_epoch_def)

lemma epochs_store [simp]:
  assumes "x \<noteq> DEpochs v a" and "sv_slots c = svar_slots x"
  shows "get_delta_epoch v a (store c x y h) = get_delta_epoch v a h"
    "get_next_delta_epoch v a (store c x y h) = get_next_delta_epoch v a h"
  using assms by (simp_all add: get_delta_epoch_def get_next_delta_epoch_def)

lemma compound_and_creditE:
  assumes "compound_and_credit v a h = Inr h'"
  obtains acc h1 s r h2 n where "decrement_accumulator_refcount (get_delta_epoch v a h) v h = (acc, h1)"
    "calculate_rewards (del_stake v a h1) acc (del_acc v a h1) = Inr r"
    "checked_add (del_stake v a h1) (delta_stake v a h1) = Inr s"
    "reward_invariant v r (promote_delta v a (store u256_be (DStake v a) s (store u256_be (DAcc v a) acc h1))) = Inr h2"
    "h' = store u256_be (DRewards v a) n h2"
proof -
  obtain r g h2 n where 1: "apply_compound v a h = Inr (r, g)" "reward_invariant v r g = Inr h2"
    "h' = store u256_be (DRewards v a) n h2"
    using assms by (auto simp: compound_and_credit_def try_simps)
  obtain acc h1 where d: "decrement_accumulator_refcount (get_delta_epoch v a h) v h = (acc, h1)"
    by (cases "decrement_accumulator_refcount (get_delta_epoch v a h) v h")
  show thesis
    using 1 that [OF d] by (auto simp: apply_compound_def d try_simps Let_def)
qed

lemma compound_and_credit_epochs:
  assumes "compound_and_credit v a h = Inr h'"
  shows "get_delta_epoch v a h' = get_next_delta_epoch v a h" "get_next_delta_epoch v a h' = 0"
proof -
  obtain acc h1 s r h2 n where 1: "decrement_accumulator_refcount (get_delta_epoch v a h) v h = (acc, h1)"
    "reward_invariant v r (promote_delta v a (store u256_be (DStake v a) s (store u256_be (DAcc v a) acc h1))) = Inr h2"
    "h' = store u256_be (DRewards v a) n h2"
    using assms by (rule compound_and_creditE)
  note d = epochs_modifies [OF decrement_frame(1) [OF 1(1)], of v a]
    and r = epochs_modifies [OF reward_invariant_frame [OF 1(2)], of v a]
  show "get_delta_epoch v a h' = get_next_delta_epoch v a h" "get_next_delta_epoch v a h' = 0"
    using d r unfolding 1(3) by (simp_all add: promote_delta_epochs)
qed

lemma settle_writes:
  assumes "settle_active_stake v a h = Inr h'"
  shows "modifies {VUnclaimed v, DRewards v a, DAcc v a} h h'"
  using assms
  by (auto simp: settle_active_stake_def try_simps Let_def split: if_splits
      intro!: modifies_store dest!: reward_invariant_frame elim!: modifies_mono)

lemma settle_epochs:
  assumes "settle_active_stake v a h = Inr h'"
  shows "get_delta_epoch v a h' = get_delta_epoch v a h" "get_next_delta_epoch v a h' = get_next_delta_epoch v a h"
  by (rule epochs_modifies [OF settle_writes [OF assms]]; simp)+

text \<open>The branches of \<open>pull_delegator_up_to_date\<close> that an ordered delegator can take.\<close>

definition pull_start :: "u64 \<Rightarrow> address \<Rightarrow> host \<Rightarrow> host" where
  "pull_start v a h = (if can_promote_delta v a (epoch h) h then promote_delta v a h else h)"

lemma pull_start_epoch [simp]: "epoch (pull_start v a h) = epoch h"
  "in_epoch_delay_period (pull_start v a h) = in_epoch_delay_period h"
  by (simp_all add: pull_start_def modifies_load(1) [OF promote_delta_frame])

lemma pull_start_ordered:
  assumes "ordered v a h" and "unat (epoch h) < 2 ^ 64 - 2"
  shows "ordered v a (pull_start v a h)"
    and "get_delta_epoch v a (pull_start v a h) = 0 \<Longrightarrow> get_next_delta_epoch v a (pull_start v a h) = 0 \<or>
      in_epoch_delay_period h \<and> unat (get_next_delta_epoch v a (pull_start v a h)) = unat (epoch h) + 2"
proof -
  have e: "unat (epoch h + 1) = unat (epoch h) + 1"
    using assms(2) by (simp add: unat_word_ariths)
  show "ordered v a (pull_start v a h)"
    using assms(1) e unfolding ordered_def pull_start_epoch
    by (auto simp: pull_start_def can_promote_delta_def promote_delta_epochs word_le_nat_alt)
  show "get_next_delta_epoch v a (pull_start v a h) = 0 \<or>
      in_epoch_delay_period h \<and> unat (get_next_delta_epoch v a (pull_start v a h)) = unat (epoch h) + 2"
    if "get_delta_epoch v a (pull_start v a h) = 0"
    using assms(1) e that unfolding ordered_def
    by (auto simp: pull_start_def can_promote_delta_def promote_delta_epochs word_le_nat_alt split: if_splits)
qed

lemma pull_cases:
  assumes "ordered v a h" and "unat (epoch h) < 2 ^ 64 - 2"
  defines "g \<equiv> pull_start v a h"
  obtains "\<not> is_epoch_active (get_delta_epoch v a g) g" "\<not> is_epoch_active (get_next_delta_epoch v a g) g"
      "pull_delegator_up_to_date v a h = settle_active_stake v a g"
  | "is_epoch_active (get_delta_epoch v a g) g" "\<not> is_epoch_active (get_next_delta_epoch v a g) g"
      "pull_delegator_up_to_date v a h = tryR (compound_and_credit v a g) (settle_active_stake v a)"
  | "is_epoch_active (get_delta_epoch v a g) g" "is_epoch_active (get_next_delta_epoch v a g) g"
      "pull_delegator_up_to_date v a h =
         tryR (compound_and_credit v a g) (\<lambda>g. tryR (compound_and_credit v a g) (settle_active_stake v a))"
proof -
  have "is_epoch_active (get_delta_epoch v a g) g" if "is_epoch_active (get_next_delta_epoch v a g) g"
    using that pull_start_ordered [OF assms(1,2)] unfolding g_def [symmetric]
    by (auto simp: is_epoch_active_def ordered_def word_le_nat_alt word_less_nat_alt g_def unat_eq_zero)
  then show thesis
    using that unfolding pull_delegator_up_to_date_def Let_def pull_start_def [symmetric] g_def [symmetric]
    by (cases "is_epoch_active (get_next_delta_epoch v a g) g"; cases "is_epoch_active (get_delta_epoch v a g) g") auto
qed

lemma pull_epochs:
  assumes "pull_delegator_up_to_date v a h = Inr h'" and "ordered v a h" and "unat (epoch h) < 2 ^ 64 - 2"
  shows "settled v a h'"
proof -
  let ?g = "pull_start v a h"
  have same: "epoch h' = epoch h" "in_epoch_delay_period h' = in_epoch_delay_period h"
    by (simp_all add: modifies_load(1) [OF pull_frame [OF assms(1)]] write_set_iffs)
  note o = pull_start_ordered [OF assms(2,3)]
  show ?thesis
    using assms(2,3)
  proof (cases rule: pull_cases)
    case 1
    have "get_delta_epoch v a h' = get_delta_epoch v a ?g" "get_next_delta_epoch v a h' = get_next_delta_epoch v a ?g"
      using settle_epochs [of v a ?g h'] 1(3) assms(1) by simp_all
    then show ?thesis
      using 1(1,2) o unfolding settled_def same
      by (auto simp: is_epoch_active_def ordered_def not_le word_less_nat_alt split: if_splits)
  next
    case 2
    have "tryR (compound_and_credit v a ?g) (settle_active_stake v a) = Inr h'"
      using 2(3) assms(1) by simp
    then obtain g1 where g1: "compound_and_credit v a ?g = Inr g1" "settle_active_stake v a g1 = Inr h'"
      by (auto simp: tryR_eq_Inr)
    then show ?thesis
      using 2(1,2) o(1) compound_and_credit_epochs [OF g1(1)] settle_epochs [OF g1(2)] unfolding settled_def same
      by (auto simp: is_epoch_active_def ordered_def not_le word_less_nat_alt word_le_nat_alt split: if_splits)
  next
    case 3
    have "tryR (compound_and_credit v a ?g) (\<lambda>g. tryR (compound_and_credit v a g) (settle_active_stake v a)) = Inr h'"
      using 3(3) assms(1) by simp
    then obtain g1 g2 where g: "compound_and_credit v a ?g = Inr g1" "compound_and_credit v a g1 = Inr g2"
      "settle_active_stake v a g2 = Inr h'"
      by (auto simp: tryR_eq_Inr)
    then show ?thesis
      using compound_and_credit_epochs [OF g(1)] compound_and_credit_epochs [OF g(2)] settle_epochs [OF g(3)]
      by (simp add: settled_def)
  qed
qed

lemma settled_ordered: "settled v a h \<Longrightarrow> ordered v a h"
  by (auto simp: settled_def ordered_def word_less_nat_alt)

section \<open>References to accumulators\<close>

definition waits :: "u64 \<Rightarrow> u64 \<Rightarrow> address \<Rightarrow> host \<Rightarrow> nat" where
  "waits e v a h = of_bool (get_delta_epoch v a h = e) + of_bool (get_next_delta_epoch v a h = e)"

definition open_withdrawal :: "u64 \<Rightarrow> u64 \<Rightarrow> address \<times> u8 \<Rightarrow> host \<Rightarrow> nat" where
  "open_withdrawal e v p h = of_bool (wr_epoch (withdrawal_request v (fst p) (snd p) h) = e)"

definition refs :: "u64 \<Rightarrow> u64 \<Rightarrow> host \<Rightarrow> nat" where
  "refs e v h = (\<Sum>a\<in>UNIV. waits e v a h) + (\<Sum>p\<in>UNIV. open_withdrawal e v p h)"

definition ref_ok :: "u64 \<Rightarrow> host \<Rightarrow> bool" where
  "ref_ok v h \<longleftrightarrow> (\<forall>e. e \<noteq> 0 \<longrightarrow> unat (refcount (accumulator e v h)) = refs e v h)"

lemma refs_bound: "refs e v h < 2 ^ 256 - 1"
proof -
  have "(\<Sum>a\<in>UNIV. waits e v a h) \<le> (\<Sum>a\<in>(UNIV :: address set). 2)"
    by (rule sum_mono) (simp add: waits_def of_bool_def)
  moreover have "(\<Sum>p\<in>UNIV. open_withdrawal e v p h) \<le> (\<Sum>p\<in>(UNIV :: (address \<times> u8) set). 1)"
    by (rule sum_mono) (simp add: open_withdrawal_def of_bool_def)
  ultimately show ?thesis
    by (simp add: refs_def card_word card_prod)
qed

lemma waits_le_refs: "waits e v a h \<le> refs e v h" "open_withdrawal e v p h \<le> refs e v h"
  using sum_member_le [of "\<lambda>a. waits e v a h" a] sum_member_le [of "\<lambda>p. open_withdrawal e v p h" p]
  by (simp_all add: refs_def)

text \<open>What changes one delegator, or one withdrawal, changes the references by as much as it changes the count.\<close>

lemma ref_ok_delegator:
  assumes "ref_ok v h" and m: "modifies X h h'" and "\<forall>b. b \<noteq> a \<longrightarrow> DEpochs v b \<notin> X" and "\<forall>b w. Withdrawal v b w \<notin> X"
    and "\<And>e. e \<noteq> 0 \<Longrightarrow>
      unat (refcount (accumulator e v h')) + waits e v a h = unat (refcount (accumulator e v h)) + waits e v a h'"
  shows "ref_ok v h'"
  unfolding ref_ok_def
proof (intro allI impI)
  fix e :: u64
  assume "e \<noteq> 0"
  have upd: "(\<lambda>b. waits e v b h') = (\<lambda>b. waits e v b h)(a := waits e v a h')"
    using epochs_modifies [OF m, of v] assms(3) by (auto simp: waits_def fun_eq_iff)
  have "(\<Sum>b\<in>UNIV. waits e v b h') + waits e v a h = (\<Sum>b\<in>UNIV. waits e v b h) + waits e v a h'"
    unfolding upd by (rule sum_fun_upd)
  moreover have "open_withdrawal e v p h' = open_withdrawal e v p h" for p
    using modifies_load(1) [OF m, of "Withdrawal v (fst p) (snd p)" withdrawal_codec] assms(4)
    by (simp add: open_withdrawal_def)
  ultimately have "refs e v h' + waits e v a h = refs e v h + waits e v a h'"
    by (simp add: refs_def)
  then show "unat (refcount (accumulator e v h')) = refs e v h'"
    using assms(1) assms(5) [OF \<open>e \<noteq> 0\<close>] \<open>e \<noteq> 0\<close> by (simp add: ref_ok_def)
qed

lemma ref_ok_withdrawal:
  assumes "ref_ok v h" and m: "modifies X h h'" and "\<forall>b. DEpochs v b \<notin> X"
    and "\<forall>b u. (b, u) \<noteq> (a, w) \<longrightarrow> Withdrawal v b u \<notin> X"
    and "\<And>e. e \<noteq> 0 \<Longrightarrow> unat (refcount (accumulator e v h')) + open_withdrawal e v (a, w) h =
      unat (refcount (accumulator e v h)) + open_withdrawal e v (a, w) h'"
  shows "ref_ok v h'"
  unfolding ref_ok_def
proof (intro allI impI)
  fix e :: u64
  assume "e \<noteq> 0"
  have "open_withdrawal e v p h' = open_withdrawal e v p h" if "p \<noteq> (a, w)" for p
    using modifies_load(1) [OF m, of "Withdrawal v (fst p) (snd p)" withdrawal_codec] assms(4) that
    by (cases p) (auto simp: open_withdrawal_def)
  then have upd: "(\<lambda>p. open_withdrawal e v p h') = (\<lambda>p. open_withdrawal e v p h)((a, w) := open_withdrawal e v (a, w) h')"
    by (simp add: fun_eq_iff)
  have "(\<Sum>p\<in>UNIV. open_withdrawal e v p h') + open_withdrawal e v (a, w) h =
      (\<Sum>p\<in>UNIV. open_withdrawal e v p h) + open_withdrawal e v (a, w) h'"
    unfolding upd by (rule sum_fun_upd)
  moreover have "waits e v b h' = waits e v b h" for b
    using epochs_modifies [OF m, of v b] assms(3) by (simp add: waits_def)
  ultimately have "refs e v h' + open_withdrawal e v (a, w) h = refs e v h + open_withdrawal e v (a, w) h'"
    by (simp add: refs_def)
  then show "unat (refcount (accumulator e v h')) = refs e v h'"
    using assms(1) assms(5) [OF \<open>e \<noteq> 0\<close>] \<open>e \<noteq> 0\<close> by (simp add: ref_ok_def)
qed

text \<open>Counting up and down.\<close>

lemma increment_count:
  assumes "unat (refcount (accumulator (get_activation_epoch h) v h)) < 2 ^ 256 - 1"
  shows "unat (refcount (accumulator e v (increment_accumulator_refcount v h))) =
    unat (refcount (accumulator e v h)) + of_bool (e = get_activation_epoch h)"
  using assms by (auto simp: increment_accumulator_refcount_def Let_def unat_word_ariths)

lemma decrement_count:
  assumes "decrement_accumulator_refcount d v h = (x, h')" and "0 < unat (refcount (accumulator d v h))"
  shows "unat (refcount (accumulator e v h')) + of_bool (e = d) = unat (refcount (accumulator e v h))"
    and "x = ra_value (accumulator d v h)"
proof -
  let ?c = "refcount (accumulator d v h)"
  have c: "?c \<noteq> 0" "unat (?c - 1) = unat ?c - 1"
    using assms(2) by (auto simp: unat_minus_one unat_gt_0)
  show "x = ra_value (accumulator d v h)"
    using assms(1) c(1) by (auto simp: decrement_accumulator_refcount_def Let_def)
  have "refcount (accumulator e v h') = (if e = d then ?c - 1 else refcount (accumulator e v h))"
    using assms(1) c(1) by (auto simp: decrement_accumulator_refcount_def Let_def)
  then show "unat (refcount (accumulator e v h')) + of_bool (e = d) = unat (refcount (accumulator e v h))"
    using c assms(2) by auto
qed

lemma accumulator_modifies:
  assumes "modifies X h h'" and "Accumulator e v \<notin> X"
  shows "accumulator e v h' = accumulator e v h"
  by (rule modifies_load(1) [OF assms]) simp

lemma compound_and_credit_refs:
  assumes "compound_and_credit v a h = Inr h'" and "ref_ok v h" and "get_delta_epoch v a h \<noteq> 0"
  shows "ref_ok v h'"
proof (rule ref_ok_delegator [OF assms(2) compound_and_credit_frame [OF assms(1)], of a])
  fix e :: u64
  assume "e \<noteq> 0"
  let ?d = "get_delta_epoch v a h"
  obtain acc h1 s r h2 n where 1: "decrement_accumulator_refcount ?d v h = (acc, h1)"
    "reward_invariant v r (promote_delta v a (store u256_be (DStake v a) s (store u256_be (DAcc v a) acc h1))) = Inr h2"
    "h' = store u256_be (DRewards v a) n h2"
    using assms(1) by (rule compound_and_creditE)
  have "1 \<le> waits ?d v a h"
    by (simp add: waits_def)
  then have "0 < unat (refcount (accumulator ?d v h))"
    using waits_le_refs(1) [of ?d v a h] assms(2,3) by (simp add: ref_ok_def)
  then have "unat (refcount (accumulator e v h1)) + of_bool (e = ?d) = unat (refcount (accumulator e v h))"
    by (rule decrement_count(1) [OF 1(1)])
  moreover have "accumulator e v h' = accumulator e v h1"
    using accumulator_modifies [OF reward_invariant_frame [OF 1(2)], of e v]
      accumulator_modifies [OF promote_delta_frame, of e v v a "store u256_be (DStake v a) s (store u256_be (DAcc v a) acc h1)"]
    unfolding 1(3) by simp
  ultimately show "unat (refcount (accumulator e v h')) + waits e v a h = unat (refcount (accumulator e v h)) + waits e v a h'"
    using compound_and_credit_epochs [OF assms(1)] \<open>e \<noteq> 0\<close> by (auto simp: waits_def)
qed (auto simp: write_set_iffs)

lemma settle_refs:
  assumes "settle_active_stake v a h = Inr h'" and "ref_ok v h"
  shows "ref_ok v h'"
proof (rule ref_ok_delegator [OF assms(2) settle_frame [OF assms(1)], of a])
  fix e :: u64
  have "modifies {VUnclaimed v, DRewards v a, DAcc v a} h h'"
    by (rule settle_writes [OF assms(1)])
  then show "unat (refcount (accumulator e v h')) + waits e v a h = unat (refcount (accumulator e v h)) + waits e v a h'"
    using settle_epochs [OF assms(1)] accumulator_modifies [of _ h h' e v] by (simp add: waits_def)
qed (auto simp: write_set_iffs)

lemma pull_start_refs:
  assumes "ref_ok v h"
  shows "ref_ok v (pull_start v a h)"
proof (cases "can_promote_delta v a (epoch h) h")
  case True
  have "ref_ok v (promote_delta v a h)"
  proof (rule ref_ok_delegator [OF assms promote_delta_frame, of a])
    fix e :: u64
    assume "e \<noteq> 0"
    then show "unat (refcount (accumulator e v (promote_delta v a h))) + waits e v a h =
        unat (refcount (accumulator e v h)) + waits e v a (promote_delta v a h)"
      using True accumulator_modifies [OF promote_delta_frame, of e v v a h]
      by (simp add: waits_def promote_delta_epochs can_promote_delta_def)
  qed simp_all
  then show ?thesis
    using True by (simp add: pull_start_def)
qed (simp add: pull_start_def assms)

lemma pull_refs:
  assumes "pull_delegator_up_to_date v a h = Inr h'" and "ordered v a h" and "unat (epoch h) < 2 ^ 64 - 2" and "ref_ok v h"
  shows "ref_ok v h'"
  using assms(2,3)
proof (cases rule: pull_cases)
  case 1
  then show ?thesis
    using settle_refs [OF _ pull_start_refs [OF assms(4)]] assms(1) by simp
next
  case 2
  have "tryR (compound_and_credit v a (pull_start v a h)) (settle_active_stake v a) = Inr h'"
    using 2(3) assms(1) by simp
  then obtain g1 where g1: "compound_and_credit v a (pull_start v a h) = Inr g1" "settle_active_stake v a g1 = Inr h'"
    by (auto simp: tryR_eq_Inr)
  show ?thesis
    using settle_refs [OF g1(2) compound_and_credit_refs [OF g1(1) pull_start_refs [OF assms(4)]]] 2(1)
    by (simp add: is_epoch_active_def)
next
  case 3
  have "tryR (compound_and_credit v a (pull_start v a h)) (\<lambda>g. tryR (compound_and_credit v a g) (settle_active_stake v a)) = Inr h'"
    using 3(3) assms(1) by simp
  then obtain g1 g2 where g: "compound_and_credit v a (pull_start v a h) = Inr g1" "compound_and_credit v a g1 = Inr g2"
    "settle_active_stake v a g2 = Inr h'"
    by (auto simp: tryR_eq_Inr)
  have "ref_ok v g1"
    using compound_and_credit_refs [OF g(1) pull_start_refs [OF assms(4)]] 3(1) by (simp add: is_epoch_active_def)
  then have "ref_ok v g2"
    using compound_and_credit_refs [OF g(2)] compound_and_credit_epochs(1) [OF g(1)] 3(2) by (simp add: is_epoch_active_def)
  then show ?thesis
    by (rule settle_refs [OF g(3)])
qed

section \<open>The invariant\<close>

definition boundary_ok :: "host \<Rightarrow> bool" where
  "boundary_ok h \<longleftrightarrow> (load_checked bool_codec InBoundary h \<noteq> None \<longleftrightarrow> in_epoch_delay_period h)"

definition schedule_inv :: "host \<Rightarrow> bool" where
  "schedule_inv h \<longleftrightarrow> boundary_ok h \<and> (\<forall>v a. ordered v a h) \<and> (\<forall>v. ref_ok v h)"

lemma activation_epoch:
  assumes "boundary_ok h" and "unat (epoch h) < 2 ^ 64 - 2"
  shows "unat (get_activation_epoch h) = unat (epoch h) + (if in_epoch_delay_period h then 2 else 1)"
  using assms by (simp add: get_activation_epoch_def boundary_ok_def unat_word_ariths)

text \<open>An operation that touches the epochs of one delegator and its withdrawals only.\<close>

lemma schedule_inv_one:
  assumes "schedule_inv h" and m: "modifies X h h'" and "Epoch \<notin> X" "InBoundary \<notin> X"
    and other: "\<forall>u b. (u, b) \<noteq> (v, a) \<longrightarrow> DEpochs u b \<notin> X"
      "\<forall>u. u \<noteq> v \<longrightarrow> (\<forall>e. Accumulator e u \<notin> X) \<and> (\<forall>b w. Withdrawal u b w \<notin> X)"
    and "ordered v a h'" and "ref_ok v h'"
  shows "schedule_inv h'"
  unfolding schedule_inv_def
proof (intro conjI allI)
  have same: "epoch h' = epoch h" "in_epoch_delay_period h' = in_epoch_delay_period h"
    "load_checked bool_codec InBoundary h' = load_checked bool_codec InBoundary h"
    using assms(3,4) by (simp_all add: modifies_load [OF m])
  show "boundary_ok h'"
    using assms(1) by (simp add: schedule_inv_def boundary_ok_def same)
  fix u b
  show "ordered u b h'"
    using assms(1,7) other(1) epochs_modifies [OF m, of u b]
    by (cases "(u, b) = (v, a)") (auto simp: schedule_inv_def ordered_def same)
  show "ref_ok u h'"
  proof (cases "u = v")
    case False
    show ?thesis
    proof (rule ref_ok_delegator [OF _ m, of u undefined])
      show "unat (refcount (accumulator e u h')) + waits e u undefined h =
          unat (refcount (accumulator e u h)) + waits e u undefined h'" for e
        using other False accumulator_modifies [OF m, of e u] epochs_modifies [OF m, of u undefined]
        by (simp add: waits_def)
    qed (use other False assms(1) in \<open>auto simp: schedule_inv_def\<close>)
  qed (simp add: assms(8))
qed

lemma schedule_inv_modifies:
  assumes "schedule_inv h" and m: "modifies X h h'" and "Epoch \<notin> X" "InBoundary \<notin> X"
    and "\<forall>u b. DEpochs u b \<notin> X" "\<forall>u e. Accumulator e u \<notin> X" "\<forall>u b w. Withdrawal u b w \<notin> X"
  shows "schedule_inv h'"
proof (rule schedule_inv_one [OF assms(1-4), of 0 0])
  have same: "epoch h' = epoch h" "in_epoch_delay_period h' = in_epoch_delay_period h"
    using assms(3,4) by (simp_all add: modifies_load [OF m])
  show "ordered 0 0 h'"
    using assms(1,5) epochs_modifies [OF m, of 0 0] by (auto simp: schedule_inv_def ordered_def same)
  show "ref_ok 0 h'"
  proof (rule ref_ok_delegator [OF _ m, of 0 0])
    show "unat (refcount (accumulator e 0 h')) + waits e 0 0 h = unat (refcount (accumulator e 0 h)) + waits e 0 0 h'" for e
      using assms(5,6) accumulator_modifies [OF m, of e 0] epochs_modifies [OF m, of 0 0] by (simp add: waits_def)
  qed (use assms(1,5,7) in \<open>auto simp: schedule_inv_def\<close>)
qed (use assms(5-7) in auto)

lemma pull_schedule_inv:
  assumes "pull_delegator_up_to_date v a h = Inr h'" and "schedule_inv h" and "unat (epoch h) < 2 ^ 64 - 2"
  shows "schedule_inv h'" and "settled v a h'"
proof -
  have o: "ordered v a h" "ref_ok v h"
    using assms(2) by (simp_all add: schedule_inv_def)
  show "settled v a h'"
    by (rule pull_epochs [OF assms(1) o(1) assms(3)])
  then show "schedule_inv h'"
    by (intro schedule_inv_one [OF assms(2) pull_frame [OF assms(1)], of v a] settled_ordered
        pull_refs [OF assms(1) o(1) assms(3) o(2)]) (auto simp: write_set_iffs)
qed

lemma delegate_stake_count:
  assumes "modifies {DDelta v a, DNextDelta v a, DEpochs v a} h g" and "ref_ok v h" and "get_activation_epoch h \<noteq> 0"
  shows "unat (refcount (accumulator e v (emit_delegation_event v a s act
      (if need then increment_accumulator_refcount v g else g)))) =
    unat (refcount (accumulator e v h)) + of_bool (need \<and> e = get_activation_epoch h)"
proof -
  have g: "accumulator e v g = accumulator e v h" "get_activation_epoch g = get_activation_epoch h" for e
    by (simp_all add: modifies_load [OF assms(1)] get_activation_epoch_def)
  have "unat (refcount (accumulator (get_activation_epoch g) v g)) < 2 ^ 256 - 1"
    using assms(2,3) refs_bound [of "get_activation_epoch h" v h] by (simp add: g ref_ok_def)
  from increment_count [OF this, of e] show ?thesis
    by (simp add: event_defs g)
qed

lemma delegate_stake_schedule:
  assumes "delegate_stake v s a h = Inr h'" and "settled v a h" and "boundary_ok h" and "ref_ok v h"
    and "unat (epoch h) < 2 ^ 64 - 2"
  shows "ordered v a h' \<and> ref_ok v h'"
proof -
  note m = delegate_stake_frame [OF assms(1)]
  have same: "epoch h' = epoch h" "in_epoch_delay_period h' = in_epoch_delay_period h"
    by (simp_all add: modifies_load(1) [OF m] write_set_iffs)
  note act = activation_epoch [OF assms(3,5)] and nz = activation_epoch_nonzero [OF assms(5)]
  have eq: "x = get_activation_epoch h \<longleftrightarrow> unat x = unat (epoch h) + (if in_epoch_delay_period h then 2 else 1)" for x :: u64
    using act by (metis word_unat_eq_iff)
  show ?thesis
    using assms(1)
  proof (cases rule: delegate_stakeE)
    case (1 n g)
    have e: "get_delta_epoch v a h' = get_delta_epoch v a h" "get_next_delta_epoch v a h' = get_activation_epoch h"
      using epochs_modifies [OF increment_frame(1), of v a g v]
      by (auto simp: 1(3,4) event_defs get_delta_epoch_def get_next_delta_epoch_def set_next_delta_epoch_def)
    have g: "modifies {DDelta v a, DNextDelta v a, DEpochs v a} h g"
      unfolding 1(3) set_next_delta_epoch_def by (intro modifies_store modifies_refl) simp_all
    have "ordered v a h'"
      using assms(2) 1(1) act by (auto simp: ordered_def settled_def e same)
    moreover have "ref_ok v h'"
      using delegate_stake_count [OF g assms(4) nz, of _ s "get_activation_epoch h" "get_next_delta_epoch v a h = 0"]
        assms(2) 1(1) eq [of "get_next_delta_epoch v a h"]
      by (intro ref_ok_delegator [OF assms(4) m, of a]) (auto simp: 1(4) [symmetric] waits_def e settled_def write_set_iffs)
    ultimately show ?thesis ..
  next
    case (2 n g)
    have e: "get_delta_epoch v a h' = get_activation_epoch h" "get_next_delta_epoch v a h' = get_next_delta_epoch v a h"
      using epochs_modifies [OF increment_frame(1), of v a g v]
      by (auto simp: 2(3,4) event_defs get_delta_epoch_def get_next_delta_epoch_def set_delta_epoch_def)
    have g: "modifies {DDelta v a, DNextDelta v a, DEpochs v a} h g"
      unfolding 2(3) set_delta_epoch_def by (intro modifies_store modifies_refl) simp_all
    have "ordered v a h'"
      using assms(2) 2(1) act by (auto simp: ordered_def settled_def e same)
    moreover have "ref_ok v h'"
      using delegate_stake_count [OF g assms(4) nz, of _ s "get_activation_epoch h" "get_delta_epoch v a h = 0"]
        assms(2) 2(1) eq [of "get_delta_epoch v a h"]
      by (intro ref_ok_delegator [OF assms(4) m, of a]) (auto simp: 2(4) [symmetric] waits_def e settled_def write_set_iffs)
    ultimately show ?thesis ..
  qed
qed

lemma delegate_schedule_inv:
  assumes "delegate t v s a h = Inr h'" and "schedule_inv h" and "unat (epoch h) < 2 ^ 64 - 2"
  shows "schedule_inv h'"
  using assms(1)
proof (cases rule: delegateE)
  case (1 h1 h2 n h3)
  note p = pull_schedule_inv [OF 1(3) assms(2,3)]
  have "epoch h1 = epoch h"
    by (rule modifies_load(1) [OF pull_frame [OF 1(3)]]) (simp_all add: write_set_iffs)
  then have "ordered v a h2 \<and> ref_ok v h2"
    using delegate_stake_schedule [OF 1(4) p(2)] p(1) assms(3) by (simp add: schedule_inv_def)
  then have "schedule_inv h2"
    by (intro schedule_inv_one [OF p(1) delegate_stake_frame [OF 1(4)], of v a]) (auto simp: write_set_iffs)
  then have "schedule_inv (store u256_be (VStake v) n h2)"
    by (rule schedule_inv_modifies [where X = "{VStake v}"]) (auto intro: modifies_store)
  then show ?thesis
    by (rule schedule_inv_modifies [OF _ delegate_after_stake [OF 1(6,7)]]) (auto simp: val_bitset_bucket_def)
qed

text \<open>An undelegation opens a withdrawal at the activation epoch.\<close>

lemma record_withdrawal_refs:
  assumes "load_checked withdrawal_codec (Withdrawal v a w) h = None" and "ref_ok v h" and "get_activation_epoch h \<noteq> 0"
  shows "ref_ok v (record_withdrawal t v n vs ds w a h)"
proof -
  define f where "f = undelegate_flags t v vs a (store u256_be (DStake v a) ds (store u256_be (VStake v) vs h))"
  define g where "g = store withdrawal_codec (Withdrawal v a w)
    \<lparr>wr_amount = n, wr_acc = del_acc v a f, wr_epoch = get_activation_epoch h\<rparr>
    (emit_undelegate_event v a w n (get_activation_epoch h) f)"
  let ?h' = "record_withdrawal t v n vs ds w a h"
  have act: "get_activation_epoch (store u256_be (DStake v a) ds (store u256_be (VStake v) vs h)) = get_activation_epoch h"
    by (simp add: get_activation_epoch_def)
  have h': "?h' = (let h = increment_accumulator_refcount v g in
      if del_stake v a h = 0 then clear u256_be (DAcc v a) h else h)"
    by (simp add: record_withdrawal_def Let_def f_def g_def act event_defs)
  have m: "modifies {VStake v, DStake v a, VAddressFlags v, Withdrawal v a w} h g"
    unfolding g_def f_def event_defs
    by (intro modifies_store modifies_emit_log modifies_then [OF _ flags_frame(2)]) simp_all
  have g: "accumulator e v g = accumulator e v h" "get_activation_epoch g = get_activation_epoch h" for e
    by (simp_all add: modifies_load [OF m] get_activation_epoch_def)
  have "unat (refcount (accumulator (get_activation_epoch g) v g)) < 2 ^ 256 - 1"
    using assms(2,3) refs_bound [of "get_activation_epoch h" v h] by (simp add: g ref_ok_def)
  note count = increment_count [OF this]
  have all: "modifies ({VStake v, DStake v a, VAddressFlags v, Withdrawal v a w, DAcc v a} \<union> range (\<lambda>e. Accumulator e v)) h ?h'"
    by (rule modifies_then [OF _ record_withdrawal_rest]) (auto intro!: modifies_store)
  show ?thesis
  proof (rule ref_ok_withdrawal [where a = a and w = w, OF assms(2) all])
    fix e :: u64
    assume "e \<noteq> 0"
    have "unat (refcount (accumulator e v ?h')) = unat (refcount (accumulator e v h)) + of_bool (e = get_activation_epoch h)"
      unfolding h' using count [of e] by (simp add: Let_def g)
    moreover have "withdrawal_request v a w ?h' = withdrawal_request v a w g"
      unfolding h' by (simp add: Let_def modifies_load(1) [OF increment_frame(1)])
    moreover have "wr_epoch (withdrawal_request v a w h) = 0"
      using load_checked_load(2) [OF assms(1)] by simp
    ultimately show "unat (refcount (accumulator e v ?h')) + open_withdrawal e v (a, w) h =
        unat (refcount (accumulator e v h)) + open_withdrawal e v (a, w) ?h'"
      using \<open>e \<noteq> 0\<close> by (auto simp: open_withdrawal_def g_def)
  qed (auto simp: write_set_iffs)
qed

lemma undelegate_schedule_inv:
  assumes "undelegate t v n w a h = Inr h'" and "schedule_inv h" and "unat (epoch h) < 2 ^ 64 - 2"
  shows "schedule_inv h'"
  using assms(1)
proof (cases rule: undelegateE)
  case (2 h1 n' vs ds h2)
  note p = pull_schedule_inv [OF 2(4) assms(2,3)]
  have "load_checked withdrawal_codec (Withdrawal v a w) h1 = None" "epoch h1 = epoch h"
    using 2(3) by (simp_all add: modifies_load [OF pull_frame [OF 2(4)]] write_set_iffs)
  then have r: "ref_ok v h2"
    unfolding 2(7) using p(1) assms(3) activation_epoch_nonzero [of h1]
    by (intro record_withdrawal_refs) (simp_all add: schedule_inv_def)
  note m = record_withdrawal_rest [of v a w ds vs h1 t n', folded 2(7)]
  have "epoch h2 = epoch h1" "in_epoch_delay_period h2 = in_epoch_delay_period h1"
    "get_delta_epoch v a h2 = get_delta_epoch v a h1" "get_next_delta_epoch v a h2 = get_next_delta_epoch v a h1"
    using epochs_modifies [OF m, of v a] by (simp_all add: modifies_load(1) [OF m] image_iff)
  then have "ordered v a h2"
    using p(1) by (simp add: schedule_inv_def ordered_def)
  with r have "schedule_inv h2"
    using schedule_inv_one [OF p(1) record_withdrawal_frame [of v a w h1 t n' vs ds, folded 2(7)], of v a]
    by (auto simp: write_set_iffs)
  moreover have "modifies list_nodes h2 h'"
    using 2(8) list_frame(3,4) modifies_then [OF _ _ order_refl] by fastforce
  ultimately show ?thesis
    by (rule schedule_inv_modifies) auto
qed (use assms(2) in simp)

lemma withdraw_schedule_inv:
  assumes "withdraw v w a h = Inr h'" and "schedule_inv h"
  shows "schedule_inv h'"
  using assms(1)
proof (cases rule: withdrawE)
  case (1 r acc h1 rewards h2 amount h3)
  let ?d = "wr_epoch r" and ?c = "clear withdrawal_codec (Withdrawal v a w) h"
  have r: "withdrawal_request v a w h = r"
    by (rule load_checked_load(1) [OF 1(1)])
  have refs: "ref_ok v h"
    using assms(2) by (simp add: schedule_inv_def)
  note m = withdraw_frame [OF assms(1)]
  have s: "storage h' = storage h2"
    using 1(7,8) by (auto simp: send_tokens_def try_simps event_defs
        dest!: subtract_from_balance_Inr(3) add_to_balance_Inr(3))
  have acc: "accumulator e v h' = accumulator e v h1" for e
    using s accumulator_modifies [OF reward_invariant_frame [OF 1(5)], of e v] by (simp add: load_def)
  have "withdrawal_request v a w h' = withdrawal_request v a w h2"
    using s by (simp add: load_def)
  then have req: "withdrawal_request v a w h' = \<lparr>wr_amount = 0, wr_acc = 0, wr_epoch = 0\<rparr>"
    using modifies_load(1) [OF reward_invariant_frame [OF 1(5)], of "Withdrawal v a w" withdrawal_codec]
      modifies_load(1) [OF decrement_frame(1) [OF 1(3)], of "Withdrawal v a w" withdrawal_codec] by simp
  have "ref_ok v h'"
  proof (rule ref_ok_withdrawal [OF refs m, of a w])
    fix e :: u64
    assume "e \<noteq> 0"
    have "unat (refcount (accumulator e v h1)) + of_bool (e = ?d) = unat (refcount (accumulator e v h))" if "?d \<noteq> 0"
    proof -
      have "open_withdrawal ?d v (a, w) h = 1"
        by (simp add: open_withdrawal_def r)
      then have "0 < unat (refcount (accumulator ?d v h))"
        using waits_le_refs(2) [of ?d v "(a, w)" h] refs that by (simp add: ref_ok_def)
      then show ?thesis
        using decrement_count(1) [OF 1(3), of e] by simp
    qed
    then show "unat (refcount (accumulator e v h')) + open_withdrawal e v (a, w) h =
        unat (refcount (accumulator e v h)) + open_withdrawal e v (a, w) h'"
      using \<open>e \<noteq> 0\<close> accumulator_modifies [OF decrement_frame(1) [OF 1(3)], of e v]
      by (cases "?d = 0") (auto simp: open_withdrawal_def acc req r)
  qed (auto simp: write_set_iffs)
  moreover have "ordered v a h'"
    using assms(2) epochs_modifies [OF m, of v a]
    by (auto simp: schedule_inv_def ordered_def modifies_load(1) [OF m] write_set_iffs)
  ultimately show ?thesis
    by (intro schedule_inv_one [OF assms(2) m, of v a]) (auto simp: write_set_iffs)
qed

lemma compound_schedule_inv:
  assumes "compound t v a h = Inr h'" and "schedule_inv h" and "unat (epoch h) < 2 ^ 64 - 2"
  shows "schedule_inv h'"
proof -
  have reset: "schedule_inv (store u256_be (DRewards v a) x h1)"
    if "pull_delegator_up_to_date v a h = Inr h1" for x h1
    using pull_schedule_inv(1) [OF that assms(2,3)]
    by (rule schedule_inv_modifies [where X = "{DRewards v a}"]) (auto intro: modifies_store)
  show ?thesis
    using assms(1)
  proof (cases rule: compoundE)
    case (2 h1)
    let ?g = "emit_claim_rewards_event v a (del_rewards v a h1) (store u256_be (DRewards v a) 0 h1)"
    have "schedule_inv ?g"
      using reset [OF 2(1)]
      by (rule schedule_inv_modifies [where X = "{}"]) (auto simp: event_defs intro: modifies_emit_log)
    moreover have "epoch ?g = epoch h"
      using modifies_load(1) [OF pull_frame [OF 2(1)], of Epoch u64_be] by (simp add: event_defs write_set_iffs)
    ultimately show ?thesis
      using delegate_schedule_inv [OF 2(3)] assms(3) by simp
  qed (simp add: reset)
qed

text \<open>A change of the epoch refreshes values of accumulators and keeps their counts.\<close>

lemma refresh_count: "refcount (accumulator e v (refresh_accumulator e' u h)) = refcount (accumulator e v h)"
proof (cases "load_checked accumulator_codec (Accumulator e' u) h")
  case (Some acc)
  then show ?thesis
    using load_checked_load(1) [OF Some] by (cases "(e, v) = (e', u)") (auto simp: refresh_accumulator_def)
qed (simp add: refresh_accumulator_def)

lemma epoch_change_count:
  "refcount (accumulator e v (fold (epoch_change_step n) is h)) = refcount (accumulator e v h)"
  by (induction "is" arbitrary: h) (simp_all add: epoch_change_step_def refresh_count Let_def)

lemma epoch_change_schedule_inv:
  assumes "syscall_on_epoch_change data x h = Inr h'" and "schedule_inv h"
  shows "schedule_inv h'"
  using assms(1)
proof (cases rule: epoch_changeE)
  case (1 e)
  note m = epoch_change_frame [OF assms(1)]
  have count: "refcount (accumulator d v h') = refcount (accumulator d v h)" for d v
    unfolding 1(4) by (simp add: epoch_change_count event_defs)
  have b: "boundary_ok h'" "\<not> in_epoch_delay_period h'" "epoch h' = e"
    unfolding 1(4) by (simp_all add: boundary_ok_def)
  have ep: "get_delta_epoch v a h' = get_delta_epoch v a h" "get_next_delta_epoch v a h' = get_next_delta_epoch v a h" for v a
    using epochs_modifies [OF m, of v a] by (simp_all add: write_set_iffs)
  have "ordered v a h'" for v a
    using assms(2) 1(3) b(2,3) unfolding schedule_inv_def ordered_def ep
    by (auto simp: word_less_nat_alt split: if_splits dest!: spec [of _ v] spec [of _ a])
  moreover have "ref_ok v h'" for v
  proof (rule ref_ok_delegator [OF _ m, of v 0])
    show "unat (refcount (accumulator e v h')) + waits e v 0 h = unat (refcount (accumulator e v h)) + waits e v 0 h'" for e
      by (simp add: count waits_def ep)
  qed (use assms(2) in \<open>auto simp: schedule_inv_def write_set_iffs\<close>)
  ultimately show ?thesis
    using b(1) by (simp add: schedule_inv_def)
qed

lemma snapshot_schedule_inv:
  assumes "syscall_snapshot data x h = Inr h'" and "schedule_inv h"
  shows "schedule_inv h'"
proof -
  note m = snapshot_frame [OF assms(1)]
  have b: "boundary_ok h'" "in_epoch_delay_period h'"
    using assms(1) by (auto elim!: snapshotE simp: boundary_ok_def)
  have same: "epoch h' = epoch h" "accumulator e v h' = accumulator e v h" for e v
    by (simp_all add: modifies_load(1) [OF m] write_set_iffs)
  have ep: "get_delta_epoch v a h' = get_delta_epoch v a h" "get_next_delta_epoch v a h' = get_next_delta_epoch v a h" for v a
    using epochs_modifies [OF m, of v a] by (simp_all add: write_set_iffs)
  have "ordered v a h'" for v a
    using assms(2) b(2) unfolding schedule_inv_def ordered_def ep same
    by (auto split: if_splits dest!: spec [of _ v] spec [of _ a])
  moreover have "ref_ok v h'" for v
  proof (rule ref_ok_delegator [OF _ m, of v 0])
    show "unat (refcount (accumulator e v h')) + waits e v 0 h = unat (refcount (accumulator e v h)) + waits e v 0 h'" for e
      by (simp add: same waits_def ep)
  qed (use assms(2) in \<open>auto simp: schedule_inv_def write_set_iffs\<close>)
  ultimately show ?thesis
    using b(1) by (simp add: schedule_inv_def)
qed

interpretation schedules: storage_invariant schedule_inv
proof
  fix h h' :: host and t a x data v
  show "schedule_inv h" if "storage h = (\<lambda>_. 0)"
  proof -
    have "get_delta_epoch v a h = 0" "get_next_delta_epoch v a h = 0" "withdrawal_request v a w h = \<lparr>wr_amount = 0, wr_acc = 0, wr_epoch = 0\<rparr>"
      "accumulator e v h = \<lparr>ra_value = 0, refcount = 0\<rparr>" for v a w e
      using that by (simp_all add: get_delta_epoch_def get_next_delta_epoch_def load_def sv_epochs.load_zero_storage
          sv_withdrawal.load_zero_storage sv_acc.load_zero_storage)
    moreover have "\<not> in_epoch_delay_period h" "load_checked bool_codec InBoundary h = None"
      using that by (simp_all add: load_def sv_bool.load_zero_storage load_checked_def sv_load_checked_def load_slots_def Let_def list_ex_iff)
    ultimately show ?thesis
      by (simp add: schedule_inv_def boundary_ok_def ordered_def ref_ok_def refs_def waits_def open_withdrawal_def)
  qed
  show "schedule_inv h'" if "schedule_inv h" "storage h' = storage h"
    by (rule schedule_inv_modifies [OF that(1) modifies_storage [OF that(2)], of "{}"]) simp_all
  show "schedule_inv h'" if "schedule_inv h" "in_range h" "contract_op t a x h h'"
    using that(3)
  proof (cases rule: contract_op.cases)
    case (op_add_validator m s b v h1)
    note c = create_validator_frame(2) [OF op_add_validator(3)]
    have "schedule_inv h1" "epoch h1 = epoch h"
      using schedule_inv_modifies [OF that(1) c] by (simp_all add: modifies_load(1) [OF c] write_set_iffs)
    then show ?thesis
      using delegate_schedule_inv [OF op_add_validator(4)] that(2) by (simp add: in_range_def)
  next
    case (op_claim v)
    obtain h1 where 1: "pull_delegator_up_to_date v a h = Inr h1" and m: "modifies {DRewards v a} h1 h'"
      using op_claim(2) by (rule claim_after_pull)
    then show ?thesis
      using schedule_inv_modifies [OF pull_schedule_inv(1) [OF 1 that(1)] m] that(2) by (simp add: in_range_def)
  next
    case (op_commission v c)
    then show ?thesis
      using schedule_inv_modifies [OF that(1) change_commission_frame] by simp
  next
    case (op_external v)
    then show ?thesis
      using schedule_inv_modifies [OF that(1) external_reward_frame] by simp
  qed (use that in \<open>auto simp: in_range_def intro: pull_schedule_inv(1) delegate_schedule_inv undelegate_schedule_inv
        compound_schedule_inv withdraw_schedule_inv\<close>)
  show "schedule_inv h'" if "schedule_inv h" "syscall_reward t data x h = Inr h'"
    using reward_frame [OF that(2)] schedule_inv_modifies [OF that(1)] by (fastforce simp: write_set_iffs)
  show "schedule_inv (store u64_be ProposerValId v h)" if "schedule_inv h"
    using that by (rule schedule_inv_modifies [where X = "{ProposerValId}"]) (auto intro: modifies_store)
qed (auto intro: snapshot_schedule_inv epoch_change_schedule_inv)

text \<open>C6. In every reachable state the reference count of the accumulator of a validator at an epoch is exact: it is
  the number of waiting amounts and of open withdrawals that refer to it. So an accumulator is kept
  as long as it is needed, and freed with its last use.\<close>

theorem accumulator_refcounts_exact:
  assumes "reachable h" and "e \<noteq> 0"
  shows "unat (refcount (accumulator e v h)) =
    card {a. get_delta_epoch v a h = e} + card {a. get_next_delta_epoch v a h = e} +
    card {(a, w). wr_epoch (withdrawal_request v a w h) = e}"
proof -
  have "unat (refcount (accumulator e v h)) = refs e v h"
    using schedules.reachable [OF assms(1)] assms(2) by (simp add: schedule_inv_def ref_ok_def)
  also have "refs e v h = card {a. get_delta_epoch v a h = e} + card {a. get_next_delta_epoch v a h = e} +
      card {p. wr_epoch (withdrawal_request v (fst p) (snd p) h) = e}"
    by (simp add: refs_def waits_def open_withdrawal_def sum.distrib)
  also have "{p. wr_epoch (withdrawal_request v (fst p) (snd p) h) = e} =
      {(a, w). wr_epoch (withdrawal_request v a w h) = e}"
    by auto
  finally show ?thesis .
qed

end
