(* ===== verification/Lists.thy ===== *)
theory Lists
  imports StakeSums
begin

text \<open>
  The linked lists of the contract over all reachable states: the list of a validator holds the accounts
  that have a position with it, the list of an account holds the validators it has a position with. A
  client that reads a list page by page gets the whole list.
\<close>

section \<open>Lists and positions\<close>

definition delegators_listed :: "u64 \<Rightarrow> host \<Rightarrow> bool" where
  "delegators_listed v h \<longleftrightarrow> (\<exists>xs. list_repr delegators_of v h xs \<and> (\<forall>a. a \<in> set xs \<longleftrightarrow> position v a h \<noteq> 0))"

definition validators_listed :: "address \<Rightarrow> host \<Rightarrow> bool" where
  "validators_listed a h \<longleftrightarrow> (\<exists>xs. list_repr validators_of a h xs \<and> (\<forall>v. v \<in> set xs \<longleftrightarrow> position v a h \<noteq> 0))"

definition list_inv :: "host \<Rightarrow> bool" where
  "list_inv h \<longleftrightarrow> (\<forall>v. delegators_listed v h) \<and> (\<forall>a. validators_listed a h)"

lemma list_repr_modifies:
  assumes "modifies X h h'" and "\<forall>v a. DListNode v a \<notin> X"
  shows "list_repr delegators_of v h' xs \<longleftrightarrow> list_repr delegators_of v h xs"
    and "list_repr validators_of a h' ys \<longleftrightarrow> list_repr validators_of a h ys"
  using dels.repr_modifies [OF assms(1)] vals.repr_modifies [OF assms(1)] assms(2) by simp_all

lemma list_inv_keep:
  assumes "list_inv h" and m: "modifies X h h'" and "\<forall>v a. DListNode v a \<notin> X"
    and p: "\<And>v a. position v a h' = 0 \<longleftrightarrow> position v a h = 0"
  shows "list_inv h'"
  using assms(1) list_repr_modifies [OF assms(2,3)] p
  by (simp add: list_inv_def delegators_listed_def validators_listed_def)

lemma list_inv_modifies:
  assumes "list_inv h" and m: "modifies X h h'" and "\<forall>v a. DListNode v a \<notin> X" and "\<And>v a. X \<inter> position_vars v a = {}"
  shows "list_inv h'"
  using list_inv_keep [OF assms(1-3)] position_modifies(1) [OF m assms(4)] by simp

text \<open>One position changes, and with it one list of each kind.\<close>

lemma list_inv_update:
  assumes "list_inv h"
    and d: "\<And>u xs. list_repr delegators_of u h xs \<Longrightarrow> list_repr delegators_of u h' (if u = v then f xs else xs)"
    and w: "\<And>b xs. list_repr validators_of b h xs \<Longrightarrow> list_repr validators_of b h' (if b = a then g xs else xs)"
    and f: "\<And>xs. distinct xs \<Longrightarrow> set (f xs) = (if position v a h' = 0 then set xs - {a} else insert a (set xs))"
    and g: "\<And>xs. distinct xs \<Longrightarrow> set (g xs) = (if position v a h' = 0 then set xs - {v} else insert v (set xs))"
    and other: "\<And>u b. (u, b) \<noteq> (v, a) \<Longrightarrow> position u b h' = position u b h"
  shows "list_inv h'"
  unfolding list_inv_def
proof (intro conjI allI)
  fix u
  obtain xs where xs: "list_repr delegators_of u h xs" "\<forall>b. b \<in> set xs \<longleftrightarrow> position u b h \<noteq> 0"
    using assms(1) unfolding list_inv_def delegators_listed_def by blast
  have "distinct xs"
    using xs(1) unfolding list_repr_def by (rule dll_distinct(4))
  then have "b \<in> set (if u = v then f xs else xs) \<longleftrightarrow> position u b h' \<noteq> 0" for b
    using xs(2) f [of xs] other [of u b] by (cases "u = v"; cases "b = a") auto
  then show "delegators_listed u h'"
    unfolding delegators_listed_def using d [OF xs(1)] by blast
next
  fix b
  obtain xs where xs: "list_repr validators_of b h xs" "\<forall>u. u \<in> set xs \<longleftrightarrow> position u b h \<noteq> 0"
    using assms(1) unfolding list_inv_def validators_listed_def by blast
  have "distinct xs"
    using xs(1) unfolding list_repr_def by (rule dll_distinct(4))
  then have "u \<in> set (if b = a then g xs else xs) \<longleftrightarrow> position u b h' \<noteq> 0" for u
    using xs(2) g [of xs] other [of u b] by (cases "b = a"; cases "u = v") auto
  then show "validators_listed b h'"
    unfolding validators_listed_def using w [OF xs(1)] by blast
qed

lemma list_inv_insert:
  assumes "list_inv h" and m: "modifies X h g" "\<forall>v a. DListNode v a \<notin> X"
    and i: "linked_list_insert delegators_of v a g = Inr h1" "linked_list_insert validators_of a v h1 = Inr h'"
    and "position v a h' \<noteq> 0" and "\<And>u b. (u, b) \<noteq> (v, a) \<Longrightarrow> position u b h' = position u b h"
  shows "list_inv h'"
proof (rule list_inv_update [OF assms(1), where v = v and a = a])
  show "list_repr delegators_of u h' (if u = v then if a \<in> set xs then xs else a # xs else xs)"
    if "list_repr delegators_of u h xs" for u xs
  proof -
    have "list_repr delegators_of u h1 (if u = v then if a \<in> set xs then xs else a # xs else xs)"
      using dels.insert_repr [OF _ i(1)] dels.other_key [of u v a g h1] that list_repr_modifies(1) [OF m] i(1)
      by (cases "u = v") simp_all
    then show ?thesis
      using other_trait(1) i(2) by blast
  qed
  show "list_repr validators_of b h' (if b = a then if v \<in> set xs then xs else v # xs else xs)"
    if "list_repr validators_of b h xs" for b xs
  proof -
    have "list_repr validators_of b h1 xs"
      using other_trait(2) i(1) that list_repr_modifies(2) [OF m] by blast
    then show ?thesis
      using vals.insert_repr [OF _ i(2)] vals.other_key [of b a v h1 h'] i(2) by (cases "b = a") simp_all
  qed
qed (use assms(6,7) in auto)

lemma list_inv_remove:
  assumes "list_inv h" and m: "modifies X h g" "\<forall>v a. DListNode v a \<notin> X"
    and i: "linked_list_remove delegators_of v a g = Inr h1" "linked_list_remove validators_of a v h1 = Inr h'"
    and "position v a h' = 0" and "\<And>u b. (u, b) \<noteq> (v, a) \<Longrightarrow> position u b h' = position u b h"
  shows "list_inv h'"
proof (rule list_inv_update [OF assms(1), where v = v and a = a])
  show "list_repr delegators_of u h' (if u = v then remove1 a xs else xs)" if "list_repr delegators_of u h xs" for u xs
  proof -
    have "list_repr delegators_of u h1 (if u = v then remove1 a xs else xs)"
      using dels.remove_repr [OF _ i(1)] dels.other_key [of u v a g h1] that list_repr_modifies(1) [OF m] i(1)
      by (cases "u = v") simp_all
    then show ?thesis
      using other_trait(1) i(2) by blast
  qed
  show "list_repr validators_of b h' (if b = a then remove1 v xs else xs)" if "list_repr validators_of b h xs" for b xs
  proof -
    have "list_repr validators_of b h1 xs"
      using other_trait(2) i(1) that list_repr_modifies(2) [OF m] by blast
    then show ?thesis
      using vals.remove_repr [OF _ i(2)] vals.other_key [of b a v h1 h'] i(2) by (cases "b = a") simp_all
  qed
qed (use assms(6,7) in auto)

section \<open>Operations\<close>

lemma position_other:
  assumes "modifies X h h'" and "(u, b) \<noteq> (v, a)" and "X \<subseteq> delegate_vars v a \<union> undelegate_vars v a w"
  shows "position u b h' = position u b h"
  by (rule position_modifies(1) [OF modifies_mono [OF assms(1,3)]])
    (use assms(2) in \<open>auto simp: position_vars_def write_set_iffs val_bitset_bucket_def\<close>)

lemma delegate_list_inv:
  assumes "delegate t v s a h = Inr h'" and "stake_inv h" and "unat (epoch h) < 2 ^ 64 - 2" and "list_inv h"
  shows "list_inv h'"
  using assms(1)
proof (cases rule: delegateE)
  case (1 h1 h2 n h3)
  let ?k = "store u256_be (VStake v) n h2" and ?X = "delegate_vars v a - list_nodes"
  have "modifies ?X h h1"
    by (rule modifies_mono [OF pull_frame [OF 1(3)]]) (auto simp: write_set_iffs)
  then have "modifies ?X h h2"
    by (rule modifies_then [OF _ delegate_stake_frame [OF 1(4)]]) (auto simp: write_set_iffs)
  then have "modifies ?X h ?k"
    by (rule modifies_store) (auto simp: write_set_iffs)
  then have "modifies ?X h (delegate_flags t v n a ?k)"
    by (rule modifies_then [OF _ flags_frame(1)]) (auto simp: write_set_iffs)
  then have m: "modifies ?X h (delegate_valset v (delegate_flags t v n a ?k))"
    by (rule modifies_then [OF _ delegate_valset_frame]) (auto simp: write_set_iffs val_bitset_bucket_def)
  have "position v a h' \<noteq> 0"
    using delegate_stake_inv(2) [OF assms(1-3)] 1(2) by (auto simp: dust_threshold_def word_le_nat_alt)
  then show ?thesis
    using list_inv_insert [OF assms(4) m _ 1(6,7)] position_other [OF delegate_frame [OF assms(1)]] by simp
qed

lemma undelegate_list_inv:
  assumes "undelegate t v n w a h = Inr h'" and "stake_inv h" and "list_inv h"
  shows "list_inv h'"
  using assms(1)
proof (cases rule: undelegateE)
  case (2 h1 n' vs ds h2)
  let ?X = "undelegate_vars v a w - list_nodes"
  have "modifies ?X h h1"
    by (rule modifies_mono [OF pull_frame [OF 2(4)]]) (auto simp: write_set_iffs)
  then have m: "modifies ?X h h2"
    unfolding 2(7) by (rule modifies_then [OF _ record_withdrawal_frame]) (auto simp: write_set_iffs)
  have other: "position u b h' = position u b h" if "(u, b) \<noteq> (v, a)" for u b
    by (rule position_other [OF undelegate_frame [OF assms(1)] that Un_upper2])
  have before: "position v a h \<noteq> 0"
    using pull_position [OF 2(4)] assms(2) 2(1,5)
    by (auto simp: stake_inv_def position_def word_le_nat_alt unat_eq_0)
  note exact = next_epoch_stake_exact [OF undelegate_stake_inv [OF assms(1,2)], of v a]
  have keep: "get_next_epoch_stake v a h' = get_next_epoch_stake v a h2"
    if "linked_list_remove delegators_of v a h2 = Inr h3" "linked_list_remove validators_of a v h3 = Inr h'" for h3
    using modifies_load(1) [of list_nodes h2 h3 _ u256_be] modifies_load(1) [of list_nodes h3 h' _ u256_be]
      list_frame(3) [OF that(1)] list_frame(4) [OF that(2)]
    by (simp add: get_next_epoch_stake_def)
  show ?thesis
  proof (cases "get_next_epoch_stake v a h2 = 0")
    case True
    then obtain h3 where 3: "linked_list_remove delegators_of v a h2 = Inr h3" "linked_list_remove validators_of a v h3 = Inr h'"
      using 2(8) by blast
    have "position v a h' = 0"
      using exact keep [OF 3] True by simp
    then show ?thesis
      using list_inv_remove [OF assms(3) m _ 3 _ other] by simp
  next
    case False
    then have "h' = h2" "position v a h' \<noteq> 0"
      using exact 2(8) by (simp, metis unat_eq_zero)
    then have "position u b h' = 0 \<longleftrightarrow> position u b h = 0" for u b
      using before other [of u b] by (cases "(u, b) = (v, a)") auto
    then show ?thesis
      using list_inv_keep [OF assms(3) m] \<open>h' = h2\<close> by simp
  qed
qed (use assms(3) in simp)

lemma pull_list_inv:
  assumes "pull_delegator_up_to_date v a h = Inr h'" and "stake_inv h" and "list_inv h"
  shows "list_inv h'"
proof -
  note m = pull_frame [OF assms(1)]
  have "position u b h' = position u b h" for u b
    using pull_position [OF assms(1)] position_modifies(1) [OF m, of u b] assms(2)
    by (cases "(u, b) = (v, a)") (auto simp: stake_inv_def position_vars_def write_set_iffs)
  then show ?thesis
    using list_inv_keep [OF assms(3) m] by (auto simp: write_set_iffs)
qed

lemma compound_list_inv:
  assumes "compound t v a h = Inr h'" and "stake_inv h" and "unat (epoch h) < 2 ^ 64 - 2" and "list_inv h"
  shows "list_inv h'"
proof -
  have reset: "stake_inv (store u256_be (DRewards v a) x h1)" "list_inv (store u256_be (DRewards v a) x h1)"
    if "pull_delegator_up_to_date v a h = Inr h1" for x h1
    using stake_inv_modifies [OF pull_stake_inv [OF that assms(2)], of "{DRewards v a}"]
      list_inv_modifies [OF pull_list_inv [OF that assms(2,4)], of "{DRewards v a}"]
    by (simp_all add: position_vars_def modifies_store)
  show ?thesis
    using assms(1)
  proof (cases rule: compoundE)
    case (2 h1)
    let ?g = "emit_claim_rewards_event v a (del_rewards v a h1) (store u256_be (DRewards v a) 0 h1)"
    have m: "modifies {} (store u256_be (DRewards v a) 0 h1) ?g"
      unfolding event_defs by (intro modifies_emit_log modifies_refl)
    have "stake_inv ?g" "list_inv ?g"
      using stake_inv_modifies [OF reset(1) [OF 2(1)] m] list_inv_modifies [OF reset(2) [OF 2(1)] m] by simp_all
    moreover have "epoch ?g = epoch h"
      using modifies_load(1) [OF pull_frame [OF 2(1)], of Epoch u64_be] by (simp add: event_defs write_set_iffs)
    ultimately show ?thesis
      using delegate_list_inv [OF 2(3)] assms(3) by simp
  qed (simp add: reset)
qed

section \<open>The invariant\<close>

interpretation lists: relative_invariant stake_inv list_inv
proof
  fix h h' :: host and t a x data v
  show "list_inv h" if "storage h = (\<lambda>_. 0)"
  proof -
    have "list_repr delegators_of v h []" "list_repr validators_of a h []" "position v a h = 0" for v a
      using dels.zero_repr [OF that] vals.zero_repr [OF that] that
      by (simp_all add: delegators_of_def validators_of_def position_def load_def sv_u256.load_zero_storage)
    then show ?thesis
      unfolding list_inv_def delegators_listed_def validators_listed_def by (metis empty_iff empty_set)
  qed
  show "list_inv h'" if "list_inv h" "storage h' = storage h"
    by (rule list_inv_modifies [OF that(1) modifies_storage [OF that(2)], of "{}"]) simp_all
  show "list_inv h'" if "stake_inv h" "list_inv h" "in_range h" "contract_op t a x h h'"
    using that(4)
  proof (cases rule: contract_op.cases)
    case (op_add_validator m s b v h1)
    note c = create_validator_frame(2) [OF op_add_validator(3)]
    have "stake_inv h1" "list_inv h1" "epoch h1 = epoch h"
      using stake_inv_modifies [OF that(1) c] list_inv_modifies [OF that(2) c] modifies_load(1) [OF c, of Epoch u64_be]
      by (auto simp: write_set_iffs position_vars_def)
    then show ?thesis
      using delegate_list_inv [OF op_add_validator(4)] that(3) by (simp add: in_range_def)
  next
    case (op_withdraw v w)
    then show ?thesis
      using list_inv_modifies [OF that(2) withdraw_frame] by (auto simp: write_set_iffs position_vars_def)
  next
    case (op_claim v)
    obtain h1 where 1: "pull_delegator_up_to_date v a h = Inr h1" and m: "modifies {DRewards v a} h1 h'"
      using op_claim(2) by (rule claim_after_pull)
    then show ?thesis
      using list_inv_modifies [OF pull_list_inv [OF 1 that(1,2)] m] by (auto simp: position_vars_def)
  next
    case (op_commission v c)
    then show ?thesis
      using list_inv_modifies [OF that(2) change_commission_frame] by (auto simp: position_vars_def)
  next
    case (op_external v)
    then show ?thesis
      using list_inv_modifies [OF that(2) external_reward_frame] by (auto simp: position_vars_def)
  qed (use that in \<open>auto simp: in_range_def intro: pull_list_inv delegate_list_inv undelegate_list_inv compound_list_inv\<close>)
  show "list_inv h'" if "list_inv h" "syscall_reward t data x h = Inr h'"
    using reward_frame [OF that(2)] list_inv_modifies [OF that(1)] by (fastforce simp: write_set_iffs position_vars_def)
  show "list_inv h'" if "list_inv h" "syscall_snapshot data x h = Inr h'"
    using that(1) snapshot_frame [OF that(2)] by (rule list_inv_modifies) (auto simp: write_set_iffs position_vars_def)
  show "list_inv h'" if "list_inv h" "syscall_on_epoch_change data x h = Inr h'"
    using that(1) epoch_change_frame [OF that(2)] by (rule list_inv_modifies) (auto simp: write_set_iffs position_vars_def)
  show "list_inv (store u64_be ProposerValId v h)" if "list_inv h"
    using that by (rule list_inv_modifies [where X = "{ProposerValId}"]) (auto simp: position_vars_def intro: modifies_store)
qed

text \<open>C15. In every reachable state, reading the delegators of a validator page by page, starting at the null
  address and continuing at the returned pointer until the query reports the end, ends after at most one
  query per delegator and returns every account with a position exactly once.\<close>

theorem delegators_read_completely:
  assumes "reachable h" and "0 < limit"
  shows "\<exists>xs. distinct xs \<and>
    set xs = {a. del_stake v a h \<noteq> 0 \<or> delta_stake v a h \<noteq> 0 \<or> next_delta_stake v a h \<noteq> 0} \<and>
    (\<forall>n. 0 < n \<and> length xs \<le> n \<longrightarrow> read_pages n delegators_of v 0 limit h = xs)"
proof -
  have "list_inv h"
    using lists.joint.reachable [OF assms(1)] by simp
  then obtain xs where xs: "list_repr delegators_of v h xs" "\<forall>a. a \<in> set xs \<longleftrightarrow> position v a h \<noteq> 0"
    unfolding list_inv_def delegators_listed_def by blast
  have "distinct xs"
    using xs(1) unfolding list_repr_def by (rule dll_distinct(4))
  moreover have "set xs = {a. del_stake v a h \<noteq> 0 \<or> delta_stake v a h \<noteq> 0 \<or> next_delta_stake v a h \<noteq> 0}"
    using xs(2) by (auto simp: position_def unat_eq_zero)
  moreover have "\<forall>n. 0 < n \<and> length xs \<le> n \<longrightarrow> read_pages n delegators_of v 0 limit h = xs"
    using dels.read_pages [OF xs(1) assms(2)] by (simp add: delegators_of_def)
  ultimately show ?thesis
    by blast
qed

text \<open>C16. The same for the validators an account delegates to; both kinds of list describe the same relation
  between accounts and validators.\<close>

theorem validators_read_completely:
  assumes "reachable h" and "0 < limit"
  shows "\<exists>xs. distinct xs \<and>
    set xs = {v. del_stake v a h \<noteq> 0 \<or> delta_stake v a h \<noteq> 0 \<or> next_delta_stake v a h \<noteq> 0} \<and>
    (\<forall>n. 0 < n \<and> length xs \<le> n \<longrightarrow> read_pages n validators_of a 0 limit h = xs)"
proof -
  have "list_inv h"
    using lists.joint.reachable [OF assms(1)] by simp
  then obtain xs where xs: "list_repr validators_of a h xs" "\<forall>v. v \<in> set xs \<longleftrightarrow> position v a h \<noteq> 0"
    unfolding list_inv_def validators_listed_def by blast
  have "distinct xs"
    using xs(1) unfolding list_repr_def by (rule dll_distinct(4))
  moreover have "set xs = {v. del_stake v a h \<noteq> 0 \<or> delta_stake v a h \<noteq> 0 \<or> next_delta_stake v a h \<noteq> 0}"
    using xs(2) by (auto simp: position_def unat_eq_zero)
  moreover have "\<forall>n. 0 < n \<and> length xs \<le> n \<longrightarrow> read_pages n validators_of a 0 limit h = xs"
    using vals.read_pages [OF xs(1) assms(2)] by (simp add: validators_of_def)
  ultimately show ?thesis
    by blast
qed

end
