(* ===== verification/Assertions.thy ===== *)
theory Assertions
  imports Schedule Lists
begin

text \<open>
  The assertions of the contract. A failed assertion is an exception that aborts the block, or ends the
  process; the operations that move stake never raise one in a reachable state, whatever their arguments
  are. The assertions on balances are the subject of the theories \<open>Solvency\<close> and \<open>Calls\<close>.
\<close>

section \<open>Results that are exceptions\<close>

fun throws :: "'a result \<Rightarrow> bool" where
  "throws (Inl (Thrown m)) = True"
| "throws (Inl Aborted) = True"
| "throws _ = False"

lemma throws_try: "throws (tryR r k) \<longleftrightarrow> throws r \<or> (\<exists>y. r = Inr y \<and> throws (k y))"
  by (cases r rule: throws.cases) auto

lemma throws_Inl: "throws r \<Longrightarrow> r = Inr y \<Longrightarrow> P"
  by simp

lemma math_throws [simp]: "\<not> throws (checked_add x y)" "\<not> throws (checked_sub x y)" "\<not> throws (checked_mul_div x y z)"
  by (auto simp: checked_add_eq checked_sub_eq checked_mul_div_def checked_mul_def checked_div_def throws_try Let_def)

lemma reward_throws [simp]: "\<not> throws (calculate_rewards s c l)" "\<not> throws (reward_invariant v r h)"
  "\<not> throws (apply_compound v a h)" "\<not> throws (compound_and_credit v a h)" "\<not> throws (settle_active_stake v a h)"
proof -
  show c: "\<not> throws (calculate_rewards s c l)" for s c l
    by (simp add: calculate_rewards_def throws_try)
  show r: "\<not> throws (reward_invariant v r h)" for v r h
    by (simp add: reward_invariant_def throws_try Let_def)
  show a: "\<not> throws (apply_compound v a h)" for v a h
    by (auto simp: apply_compound_def throws_try Let_def c split: prod.splits)
  show "\<not> throws (compound_and_credit v a h)" "\<not> throws (settle_active_stake v a h)"
    by (auto simp: compound_and_credit_def settle_active_stake_def throws_try Let_def a c r)
qed

section \<open>Operations\<close>

lemma pull_never_throws:
  assumes "schedule_inv h" and "unat (epoch h) < 2 ^ 64 - 2"
  shows "\<not> throws (pull_delegator_up_to_date v a h)"
proof -
  have "ordered v a h"
    using assms(1) by (simp add: schedule_inv_def)
  then show ?thesis
    using assms(2) by (cases rule: pull_cases) (auto simp: throws_try)
qed

lemma insert_throws: "\<not> throws (linked_list_insert T k p h)"
  by (simp add: linked_list_insert_def Let_def)

lemma remove_throws: "p \<noteq> empty_ptr T \<and> p \<noteq> sentinel T \<Longrightarrow> \<not> throws (linked_list_remove T k p h)"
  by (simp add: linked_list_remove_def Let_def)

lemma delegate_throws:
  assumes "schedule_inv h" and "unat (epoch h) < 2 ^ 64 - 2"
  shows "\<not> throws (delegate t v s a h)"
  by (auto simp: delegate_def delegate_stake_def throws_try Let_def insert_throws pull_never_throws [OF assms])

lemma compound_throws:
  assumes "schedule_inv h" and "unat (epoch h) < 2 ^ 64 - 2"
  shows "\<not> throws (compound t v a h)"
proof -
  have "\<not> throws (delegate t v s a (emit_claim_rewards_event v a x (store u256_be (DRewards v a) y h1)))" (is "\<not> throws (delegate t v s a ?g)")
    if "pull_delegator_up_to_date v a h = Inr h1" for h1 s x y
  proof (rule delegate_throws)
    have m: "modifies {DRewards v a} h1 ?g"
      unfolding event_defs by (intro modifies_emit_log modifies_store modifies_refl) simp_all
    show "schedule_inv ?g"
      using pull_schedule_inv(1) [OF that assms(1)] assms(2) schedule_inv_modifies [OF _ m] by simp
    show "unat (epoch ?g) < 2 ^ 64 - 2"
      using assms(2) by (simp add: modifies_load(1) [OF m] modifies_load(1) [OF pull_frame [OF that]] write_set_iffs)
  qed
  then show ?thesis
    by (auto simp: compound_def throws_try Let_def pull_never_throws [OF assms])
qed

text \<open>Whoever has something to undelegate is in both lists, so the removals find a proper entry.\<close>

lemma position_pointers:
  assumes "list_inv h" and "position v a h \<noteq> 0"
  shows "a \<noteq> empty_ptr delegators_of \<and> a \<noteq> sentinel delegators_of"
    and "v \<noteq> empty_ptr validators_of \<and> v \<noteq> sentinel validators_of"
proof -
  obtain xs where xs: "list_repr delegators_of v h xs" "a \<in> set xs"
    using assms unfolding list_inv_def delegators_listed_def by blast
  then show "a \<noteq> empty_ptr delegators_of \<and> a \<noteq> sentinel delegators_of"
    using dll_distinct(2,3) [OF xs(1) [unfolded list_repr_def]] by blast
  obtain ys where ys: "list_repr validators_of a h ys" "v \<in> set ys"
    using assms unfolding list_inv_def validators_listed_def by blast
  then show "v \<noteq> empty_ptr validators_of \<and> v \<noteq> sentinel validators_of"
    using dll_distinct(2,3) [OF ys(1) [unfolded list_repr_def]] by blast
qed

lemma undelegate_throws:
  assumes "schedule_inv h" and "unat (epoch h) < 2 ^ 64 - 2" and "stake_inv h" and "list_inv h"
  shows "\<not> throws (undelegate t v n w a h)"
proof
  assume t: "throws (undelegate t v n w a h)"
  then have "n \<noteq> 0"
    by (auto simp: undelegate_def)
  obtain h1 g where h1: "pull_delegator_up_to_date v a h = Inr h1" "n \<le> del_stake v a h1"
    and g: "throws (linked_list_remove delegators_of v a g) \<or> (\<exists>g'. throws (linked_list_remove validators_of a v g'))"
    using t pull_never_throws [OF assms(1,2)]
    by (fastforce simp: undelegate_def undelegate_amounts_def throws_try Let_def not_less split: if_splits prod.splits)
  have "position v a h1 \<noteq> 0"
    using h1(2) \<open>n \<noteq> 0\<close> by (auto simp: position_def word_le_nat_alt unat_eq_zero)
  then have "position v a h \<noteq> 0"
    using pull_position [OF h1(1)] assms(3) by (simp add: stake_inv_def)
  note p = position_pointers [OF assms(4) this]
  show False
    using g remove_throws [OF p(1)] remove_throws [OF p(2)] by blast
qed

end
