(* ===== verification/Solvency.thy ===== *)
theory Solvency
  imports Frames
begin

text \<open>
  The contract can always pay. \<open>liabilities\<close> adds up everything the contract owes: the unclaimed rewards
  of the validator pools, the claimable rewards and the stake of every delegator in each of its three
  stages, and the pending withdrawals. Every operation keeps \<open>liabilities\<close> within the balance of
  \<open>STAKING_CA\<close>; as a consequence a withdrawal or a claim never fails for lack of funds.
\<close>

section \<open>What the contract owes\<close>

definition claims :: "svar set" where
  "claims = range VUnclaimed \<union> range (case_prod DStake) \<union> range (case_prod DRewards) \<union>
     range (case_prod DDelta) \<union> range (case_prod DNextDelta) \<union> range (\<lambda>(v, a, w). Withdrawal v a w)"

fun owed :: "svar \<Rightarrow> host \<Rightarrow> nat" where
  "owed (VUnclaimed v) h = unat (unclaimed_rewards v h)"
| "owed (DStake v a) h = unat (del_stake v a h)"
| "owed (DRewards v a) h = unat (del_rewards v a h)"
| "owed (DDelta v a) h = unat (delta_stake v a h)"
| "owed (DNextDelta v a) h = unat (next_delta_stake v a h)"
| "owed (Withdrawal v a w) h = unat (wr_amount (withdrawal_request v a w h))"
| "owed _ h = 0"

definition liabilities :: "host \<Rightarrow> nat" where
  "liabilities h = (\<Sum>x\<in>claims. owed x h)"

definition solvent :: "host \<Rightarrow> bool" where
  "solvent h \<longleftrightarrow> liabilities h \<le> unat (get_balance STAKING_CA h)"

lemma finite_claims: "finite claims"
  by (simp add: claims_def)

lemma claims_iff [simp]:
  "VUnclaimed v \<in> claims" "DStake v a \<in> claims" "DRewards v a \<in> claims" "DDelta v a \<in> claims"
  "DNextDelta v a \<in> claims" "Withdrawal v a w \<in> claims"
  "Epoch \<notin> claims" "InBoundary \<notin> claims" "LastValId \<notin> claims" "ProposerValId \<notin> claims"
  "ValsetLen vs \<notin> claims" "ValsetElem vs i \<notin> claims" "ValIdSecp a \<notin> claims" "ValIdBls a \<notin> claims"
  "ValBitset b \<notin> claims" "VStake v \<notin> claims" "VAcc v \<notin> claims" "VCommission v \<notin> claims"
  "VKeys v \<notin> claims" "VAddressFlags v \<notin> claims" "ConsStake v \<notin> claims" "ConsCommission v \<notin> claims"
  "SnapStake v \<notin> claims" "SnapCommission v \<notin> claims" "DAcc v a \<notin> claims" "DEpochs v a \<notin> claims"
  "DListNode v a \<notin> claims" "Accumulator e v \<notin> claims"
  by (auto simp: claims_def image_iff split: prod.splits)

lemma owed_frame:
  assumes "modifies X h h'" and "x \<notin> X"
  shows "owed x h' = owed x h"
  using assms(2) by (cases x) (simp_all add: modifies_load(1) [OF assms(1)])

lemma liabilities_modifies:
  assumes "modifies X h h'" and "X \<inter> claims = {}"
  shows "liabilities h' = liabilities h"
  unfolding liabilities_def using assms by (intro sum.cong refl owed_frame) auto

lemma liabilities_store_claim:
  assumes "x \<in> claims" and "sv_slots c = svar_slots x"
  shows "liabilities (store c x v h) + owed x h = liabilities h + owed x (store c x v h)"
proof -
  have "owed y (store c x v h) = owed y h" if "y \<noteq> x" for y
    using that assms(2) by (intro owed_frame [of "{x}"] modifies_store) auto
  then have "(\<Sum>y\<in>claims - {x}. owed y (store c x v h)) = (\<Sum>y\<in>claims - {x}. owed y h)"
    by (intro sum.cong) auto
  then show ?thesis
    using sum.remove [OF finite_claims assms(1), of "\<lambda>y. owed y (store c x v h)"]
      sum.remove [OF finite_claims assms(1), of "\<lambda>y. owed y h"]
    by (simp add: liabilities_def)
qed

lemma liabilities_store_other [simp]:
  "x \<notin> claims \<Longrightarrow> sv_slots c = svar_slots x \<Longrightarrow> liabilities (store c x v h) = liabilities h"
  by (rule liabilities_modifies [of "{x}"]) (auto intro!: modifies_store)

lemma liabilities_storage: "storage h' = storage h \<Longrightarrow> liabilities h' = liabilities h"
  by (rule liabilities_modifies [of "{}"]) (simp_all add: modifies_storage)

lemma liabilities_emit_log [simp]: "liabilities (emit_log l h) = liabilities h"
  by (rule liabilities_storage) simp

text \<open>The rules that carry the proofs below: writing a claim changes \<open>liabilities\<close> by the difference.\<close>

lemma liabilities_claim:
  "liabilities (store u256_be (VUnclaimed v) n h) + unat (unclaimed_rewards v h) = liabilities h + unat n"
  "liabilities (store u256_be (DStake v a) n h) + unat (del_stake v a h) = liabilities h + unat n"
  "liabilities (store u256_be (DRewards v a) n h) + unat (del_rewards v a h) = liabilities h + unat n"
  "liabilities (store u256_be (DDelta v a) n h) + unat (delta_stake v a h) = liabilities h + unat n"
  "liabilities (store u256_be (DNextDelta v a) n h) + unat (next_delta_stake v a h) = liabilities h + unat n"
  "liabilities (store withdrawal_codec (Withdrawal v a w) r h) + unat (wr_amount (withdrawal_request v a w h)) =
     liabilities h + unat (wr_amount r)"
  using liabilities_store_claim [of "VUnclaimed v" u256_be n h]
    liabilities_store_claim [of "DStake v a" u256_be n h]
    liabilities_store_claim [of "DRewards v a" u256_be n h]
    liabilities_store_claim [of "DDelta v a" u256_be n h]
    liabilities_store_claim [of "DNextDelta v a" u256_be n h]
    liabilities_store_claim [of "Withdrawal v a w" withdrawal_codec r h]
  by simp_all

section \<open>Operations that owe the same or less\<close>

lemma liabilities_promote_delta:
  "liabilities (promote_delta v a h) + unat (delta_stake v a h) = liabilities h"
proof -
  define n where "n = next_delta_stake v a h"
  define h1 where "h1 = store u256_be (DDelta v a) n h"
  define h2 where "h2 = store u256_be (DNextDelta v a) 0 h1"
  have "liabilities (promote_delta v a h) = liabilities h2"
    by (simp add: promote_delta_def Let_def set_delta_epoch_def set_next_delta_epoch_def h2_def h1_def n_def)
  moreover have "next_delta_stake v a h1 = n"
    by (simp add: h1_def n_def)
  ultimately show ?thesis
    using liabilities_claim(4) [of v a n h] liabilities_claim(5) [of v a 0 h1]
    by (simp add: h1_def [symmetric] h2_def [symmetric])
qed

lemma liabilities_apply_compound:
  assumes "apply_compound v a h = Inr (r, h')"
  shows "liabilities h' = liabilities h" "accounts h' = accounts h"
proof -
  obtain acc h1 where h1: "decrement_accumulator_refcount (get_delta_epoch v a h) v h = (acc, h1)"
    by fastforce
  note d = decrement_frame [OF h1]
  define h2 where "h2 = store u256_be (DAcc v a) acc h1"
  obtain s where s: "checked_add (del_stake v a h1) (delta_stake v a h1) = Inr s"
    and h': "h' = promote_delta v a (store u256_be (DStake v a) s h2)"
    using assms by (auto simp: apply_compound_def h1 try_simps h2_def Let_def)
  have "liabilities h2 = liabilities h"
    using liabilities_modifies [OF d(1)] by (simp add: h2_def)
  moreover have "unat s = unat (del_stake v a h2) + unat (delta_stake v a h2)"
    using s by (simp add: checked_add_Inr h2_def)
  ultimately show "liabilities h' = liabilities h"
    using liabilities_claim(2) [of v a s h2] liabilities_promote_delta [of v a "store u256_be (DStake v a) s h2"]
    by (simp add: h')
  show "accounts h' = accounts h"
    using d(2) by (simp add: h' h2_def promote_delta_def Let_def set_delta_epoch_def set_next_delta_epoch_def)
qed

lemma liabilities_reward_invariant:
  assumes "reward_invariant v r h = Inr h'"
  shows "liabilities h' + unat r = liabilities h" "accounts h' = accounts h"
proof -
  obtain n where "unat (unclaimed_rewards v h) = unat n + unat r" and "h' = store u256_be (VUnclaimed v) n h"
    using assms by (auto simp: reward_invariant_def Let_def try_simps checked_sub_Inr split: if_splits)
  then show "liabilities h' + unat r = liabilities h" "accounts h' = accounts h"
    using liabilities_claim(1) [of v n h] by simp_all
qed

lemma liabilities_credit:
  assumes "reward_invariant v r h = Inr h1" and "checked_add (del_rewards v a h1) r = Inr n"
  shows "liabilities (store u256_be (DRewards v a) n h1) = liabilities h"
  using liabilities_reward_invariant [OF assms(1)] liabilities_claim(3) [of v a n h1] assms(2)
  by (simp add: checked_add_Inr)

lemma liabilities_compound_and_credit:
  assumes "compound_and_credit v a h = Inr h'"
  shows "liabilities h' = liabilities h" "accounts h' = accounts h"
proof -
  obtain r h1 h2 n where "apply_compound v a h = Inr (r, h1)" "reward_invariant v r h1 = Inr h2"
    "checked_add (del_rewards v a h2) r = Inr n" "h' = store u256_be (DRewards v a) n h2"
    using assms by (auto simp: compound_and_credit_def try_simps)
  then show "liabilities h' = liabilities h" "accounts h' = accounts h"
    using liabilities_apply_compound liabilities_credit liabilities_reward_invariant(2) by auto
qed

lemma liabilities_settle:
  assumes "settle_active_stake v a h = Inr h'"
  shows "liabilities h' = liabilities h" "accounts h' = accounts h"
  using assms
  by (auto simp: settle_active_stake_def try_simps Let_def liabilities_credit split: if_splits
      dest: liabilities_reward_invariant(2))

lemma liabilities_pull:
  assumes "pull_delegator_up_to_date v a h = Inr h'"
  shows "liabilities h' \<le> liabilities h" "accounts h' = accounts h"
proof -
  have "liabilities h' \<le> liabilities h \<and> accounts h' = accounts h"
    using assms
  proof (rule pull_preserves)
    show "liabilities (promote_delta v a h) \<le> liabilities h \<and> accounts (promote_delta v a h) = accounts h"
      using liabilities_promote_delta [of v a h]
      by (simp add: promote_delta_def Let_def set_delta_epoch_def set_next_delta_epoch_def)
  qed (auto dest: liabilities_compound_and_credit liabilities_settle)
  then show "liabilities h' \<le> liabilities h" "accounts h' = accounts h"
    by simp_all
qed

section \<open>Delegation\<close>

lemma liabilities_increment [simp]: "liabilities (increment_accumulator_refcount v h) = liabilities h"
  by (rule liabilities_modifies [OF increment_frame(1)]) simp

lemma liabilities_delegate_stake:
  assumes "delegate_stake v s a h = Inr h'"
  shows "liabilities h' = liabilities h + unat s" "accounts h' = accounts h"
proof -
  obtain n where "in_epoch_delay_period h \<and> unat n = unat (next_delta_stake v a h) + unat s \<and>
        liabilities h' = liabilities (store u256_be (DNextDelta v a) n h) \<or>
      \<not> in_epoch_delay_period h \<and> unat n = unat (delta_stake v a h) + unat s \<and>
        liabilities h' = liabilities (store u256_be (DDelta v a) n h)"
    and "accounts h' = accounts h"
    using assms
    by (auto simp: delegate_stake_def Let_def try_simps checked_add_Inr event_defs set_next_delta_epoch_def
        set_delta_epoch_def increment_frame split: if_splits)
  then show "liabilities h' = liabilities h + unat s" "accounts h' = accounts h"
    using liabilities_claim(4) [of v a n h] liabilities_claim(5) [of v a n h] by auto
qed

lemma set_flag_keep [simp]:
  "liabilities (set_flag v f h) = liabilities h" "accounts (set_flag v f h) = accounts h"
  "liabilities (clear_flag v f h) = liabilities h" "accounts (clear_flag v f h) = accounts h"
  by (simp_all add: set_flag_def clear_flag_def Let_def)

lemma flags_keep [simp]:
  "liabilities (delegate_flags t v s a h) = liabilities h" "accounts (delegate_flags t v s a h) = accounts h"
  "liabilities (undelegate_flags t v s a h) = liabilities h" "accounts (undelegate_flags t v s a h) = accounts h"
  by (simp_all add: delegate_flags_def undelegate_flags_def Let_def event_defs)

lemma delegate_valset_keep [simp]:
  "liabilities (delegate_valset v h) = liabilities h" "accounts (delegate_valset v h) = accounts h"
  by (simp_all add: delegate_valset_def add_to_valset_def val_bitset_bucket_def Let_def array_push_eq)

lemma liabilities_list:
  "linked_list_insert delegators_of v a h = Inr h' \<Longrightarrow> liabilities h' = liabilities h \<and> accounts h' = accounts h"
  "linked_list_insert validators_of a v h = Inr h' \<Longrightarrow> liabilities h' = liabilities h \<and> accounts h' = accounts h"
  "linked_list_remove delegators_of v a h = Inr h' \<Longrightarrow> liabilities h' = liabilities h \<and> accounts h' = accounts h"
  "linked_list_remove validators_of a v h = Inr h' \<Longrightarrow> liabilities h' = liabilities h \<and> accounts h' = accounts h"
  by (auto dest!: list_frame intro!: liabilities_modifies [of list_nodes])

lemma liabilities_delegate:
  assumes "delegate t v s a h = Inr h'"
  shows "liabilities h' \<le> liabilities h + unat s" "accounts h' = accounts h"
proof -
  have "liabilities h' \<le> liabilities h + unat s \<and> accounts h' = accounts h"
    using assms
  proof (cases rule: delegateE)
    case (1 h1 h2 n h3)
    have "liabilities h' = liabilities h2 \<and> accounts h' = accounts h2"
      using 1(6,7) by (auto dest!: liabilities_list)
    then show ?thesis
      using liabilities_pull [OF 1(3)] liabilities_delegate_stake [OF 1(4)] by simp
  qed
  then show "liabilities h' \<le> liabilities h + unat s" "accounts h' = accounts h"
    by simp_all
qed

section \<open>Paying out\<close>

lemma send_tokens_balance:
  assumes "send_tokens to amount h = Inr h'"
  shows "unat (get_balance STAKING_CA h) \<le> unat (get_balance STAKING_CA h') + unat amount"
    and "storage h' = storage h"
proof -
  obtain h1 where 1: "add_to_balance to amount h = Inr h1" and 2: "subtract_from_balance STAKING_CA amount h1 = Inr h'"
    using assms by (auto simp: send_tokens_def try_simps)
  have "unat (get_balance STAKING_CA h) \<le> unat (get_balance STAKING_CA h1)"
    using add_to_balance_Inr(1,2) [OF 1] by (cases "to = STAKING_CA") auto
  then show "unat (get_balance STAKING_CA h) \<le> unat (get_balance STAKING_CA h') + unat amount"
    using subtract_from_balance_Inr(1) [OF 2] by simp
  show "storage h' = storage h"
    using add_to_balance_Inr(3) [OF 1] subtract_from_balance_Inr(3) [OF 2] by simp
qed

text \<open>A call is paid for when the balance covers the liabilities and the value that came with it.\<close>

definition covered :: "u256 \<Rightarrow> host \<Rightarrow> bool" where
  "covered x h \<longleftrightarrow> liabilities h + unat x \<le> unat (get_balance STAKING_CA h)"

lemma get_balance_accounts: "accounts h' = accounts h \<Longrightarrow> get_balance a h' = get_balance a h"
  by (simp add: get_balance_def)

lemma solventI: "covered x h \<Longrightarrow> liabilities h' \<le> liabilities h + unat x \<Longrightarrow> accounts h' = accounts h \<Longrightarrow> solvent h'"
  using get_balance_accounts [of h' h STAKING_CA] by (simp add: covered_def solvent_def)

lemma liabilities_create_validator:
  assumes "create_validator s b m h = Inr (v, h')"
  shows "liabilities h' = liabilities h" "accounts h' = accounts h"
  using assms by (auto simp: create_validator_def Let_def event_defs split: if_splits)

lemma liabilities_undelegate_amounts:
  assumes "undelegate_amounts amount vs ds = Inr (amount', vs', ds')"
  shows "unat ds = unat amount' + unat ds'" and "unat vs = unat amount' + unat vs'"
  using assms by (auto simp: undelegate_amounts_def try_simps checked_sub_Inr checked_add_Inr split: if_splits)

lemma liabilities_record_withdrawal:
  "liabilities (record_withdrawal t v n vs ds w a h) + unat (del_stake v a h) \<le> liabilities h + unat n + unat ds"
  "accounts (record_withdrawal t v n vs ds w a h) = accounts h"
proof -
  define h2 where "h2 = store u256_be (DStake v a) ds (store u256_be (VStake v) vs h)"
  define h3 where "h3 = emit_undelegate_event v a w n (get_activation_epoch h2) (undelegate_flags t v vs a h2)"
  define r where "r = \<lparr>wr_amount = n, wr_acc = del_acc v a h3, wr_epoch = get_activation_epoch h2\<rparr>"
  have "liabilities (record_withdrawal t v n vs ds w a h) = liabilities (store withdrawal_codec (Withdrawal v a w) r h3)"
    unfolding record_withdrawal_def Let_def h2_def [symmetric] h3_def [symmetric] r_def [symmetric] by simp
  moreover have "liabilities (store withdrawal_codec (Withdrawal v a w) r h3) \<le> liabilities h3 + unat n"
    using liabilities_claim(6) [of v a w r h3] by (simp add: r_def)
  moreover have "liabilities h3 = liabilities h2"
    by (simp add: h3_def event_defs)
  ultimately show "liabilities (record_withdrawal t v n vs ds w a h) + unat (del_stake v a h) \<le> liabilities h + unat n + unat ds"
    using liabilities_claim(2) [of v a ds "store u256_be (VStake v) vs h"] by (simp add: h2_def)
  show "accounts (record_withdrawal t v n vs ds w a h) = accounts h"
    by (simp add: record_withdrawal_def Let_def increment_frame event_defs)
qed

lemma liabilities_undelegate:
  assumes "undelegate t v n w a h = Inr h'"
  shows "liabilities h' \<le> liabilities h" "accounts h' = accounts h"
proof -
  have "liabilities h' \<le> liabilities h \<and> accounts h' = accounts h"
    using assms
  proof (cases rule: undelegateE)
    case (2 h1 n' vs ds h2)
    have "liabilities h' = liabilities h2 \<and> accounts h' = accounts h2"
      using 2(8) by (auto dest!: liabilities_list)
    then show ?thesis
      using liabilities_record_withdrawal [of t v n' vs ds w a h1] liabilities_pull [OF 2(4)]
        liabilities_undelegate_amounts(1) [OF 2(6)] by (auto simp: 2(7))
  qed simp
  then show "liabilities h' \<le> liabilities h" "accounts h' = accounts h"
    by simp_all
qed

lemma liabilities_compound:
  assumes "compound t v a h = Inr h'"
  shows "liabilities h' \<le> liabilities h" "accounts h' = accounts h"
proof -
  obtain h1 where 1: "pull_delegator_up_to_date v a h = Inr h1"
    and 2: "h' = store u256_be (DRewards v a) 0 h1 \<or> delegate t v (del_rewards v a h1) a
        (emit_claim_rewards_event v a (del_rewards v a h1) (store u256_be (DRewards v a) 0 h1)) = Inr h'"
    using assms by (auto simp: compound_def try_simps Let_def split: if_splits)
  have "liabilities h' \<le> liabilities h1 \<and> accounts h' = accounts h1"
    using 2 liabilities_claim(3) [of v a 0 h1] by (auto simp: event_defs dest: liabilities_delegate)
  then show "liabilities h' \<le> liabilities h" "accounts h' = accounts h"
    using liabilities_pull [OF 1] by auto
qed

lemma liabilities_apply_reward:
  assumes "apply_reward v from r s h = Inr h'"
  shows "liabilities h' = liabilities h + unat r" "accounts h' = accounts h"
proof -
  obtain acc n where n: "unat n = unat (unclaimed_rewards v h) + unat r"
    and h': "liabilities h' = liabilities (store u256_be (VUnclaimed v) n (store u256_be (VAcc v) acc h))"
    and "accounts h' = accounts h"
    using assms by (auto simp: apply_reward_def try_simps Let_def checked_add_Inr event_defs)
  then show "liabilities h' = liabilities h + unat r" "accounts h' = accounts h"
    using liabilities_claim(1) [of v n "store u256_be (VAcc v) acc h"] by simp_all
qed

text \<open>Withdrawing and claiming pay out exactly what they take off the liabilities.\<close>

lemma withdraw_solvent:
  assumes "withdraw v w a h = Inr h'" and "solvent h"
  shows "solvent h'"
  using assms(1)
proof (rule withdrawE)
  fix r acc h1 rewards h2 amount h3
  assume r: "load_checked withdrawal_codec (Withdrawal v a w) h = Some r"
    and d: "decrement_accumulator_refcount (wr_epoch r) v (clear withdrawal_codec (Withdrawal v a w) h) = (acc, h1)"
    and ri: "reward_invariant v rewards h1 = Inr h2" and amount: "checked_add (wr_amount r) rewards = Inr amount"
    and send: "send_tokens a amount h2 = Inr h3" and h': "h' = emit_withdraw_event v a w amount h3"
  have "withdrawal_request v a w h = r"
    using r by (simp add: load_checked_def load_def sv_load_checked_def sv_load_def Let_def split: if_splits)
  then have "liabilities h1 + unat (wr_amount r) = liabilities h"
    using liabilities_modifies [OF decrement_frame(1) [OF d]]
      liabilities_claim(6) [of v a w "\<lparr>wr_amount = 0, wr_acc = 0, wr_epoch = 0\<rparr>" h] by simp
  moreover have "unat amount = unat (wr_amount r) + unat rewards"
    using amount by (simp add: checked_add_Inr)
  moreover have "liabilities h3 = liabilities h2" "liabilities h' = liabilities h3"
    using liabilities_storage [OF send_tokens_balance(2) [OF send]] by (simp_all add: h' event_defs Let_def)
  moreover have "unat (get_balance STAKING_CA h2) = unat (get_balance STAKING_CA h)"
    using get_balance_accounts [of h2 h] liabilities_reward_invariant(2) [OF ri] decrement_frame(2) [OF d] by simp
  moreover have "unat (get_balance STAKING_CA h') = unat (get_balance STAKING_CA h3)"
    by (simp add: h' event_defs Let_def)
  ultimately show "solvent h'"
    using assms(2) send_tokens_balance(1) [OF send] liabilities_reward_invariant(1) [OF ri]
    unfolding solvent_def by linarith
qed

lemma claim_solvent:
  assumes "claim_rewards v a h = Inr h'" and "solvent h"
  shows "solvent h'"
proof -
  obtain h1 where 1: "pull_delegator_up_to_date v a h = Inr h1"
    and 2: "h' = h1 \<or> (\<exists>h2. send_tokens a (del_rewards v a h1) h1 = Inr h2 \<and>
      h' = emit_claim_rewards_event v a (del_rewards v a h1) (store u256_be (DRewards v a) 0 h2))"
    using assms(1) by (auto simp: claim_rewards_def try_simps Let_def split: if_splits)
  have s1: "solvent h1"
    using liabilities_pull [OF 1] assms(2) get_balance_accounts [of h1 h STAKING_CA] by (simp add: solvent_def)
  show ?thesis
  proof (cases "h' = h1")
    case False
    then obtain h2 where send: "send_tokens a (del_rewards v a h1) h1 = Inr h2"
      and h': "h' = emit_claim_rewards_event v a (del_rewards v a h1) (store u256_be (DRewards v a) 0 h2)"
      using 2 by blast
    have "del_rewards v a h2 = del_rewards v a h1" "liabilities h2 = liabilities h1"
      using send_tokens_balance(2) [OF send] liabilities_storage [of h2 h1] by (simp_all add: load_def)
    then have "liabilities h' + unat (del_rewards v a h1) = liabilities h1"
      using liabilities_claim(3) [of v a 0 h2] by (simp add: h' event_defs)
    then show ?thesis
      using s1 send_tokens_balance(1) [OF send] by (simp add: solvent_def h' event_defs)
  qed (use s1 in simp)
qed

text \<open>Every operation of the contract keeps what it owes within its balance.\<close>

lemma op_solvent:
  assumes "contract_op t a x h h'" and "covered x h"
  shows "solvent h'"
proof -
  have s: "solvent h" if "x = 0"
    using assms(2) that by (simp add: covered_def solvent_def)
  show ?thesis
    using assms(1)
  proof (cases rule: contract_op.cases)
    case op_read
    then show ?thesis using s by simp
  next
    case (op_pull v b)
    then show ?thesis using liabilities_pull [OF op_pull(2)] by (intro solventI [OF assms(2)]) auto
  next
    case (op_add_validator m s b v h1)
    then show ?thesis
      using liabilities_create_validator [OF op_add_validator(3)] liabilities_delegate [OF op_add_validator(4)]
      by (intro solventI [OF assms(2)]) auto
  next
    case (op_delegate v)
    then show ?thesis using liabilities_delegate [OF op_delegate(1)] by (intro solventI [OF assms(2)]) auto
  next
    case (op_undelegate v n w)
    then show ?thesis using liabilities_undelegate [OF op_undelegate(2)] by (intro solventI [OF assms(2)]) auto
  next
    case (op_compound v)
    then show ?thesis using liabilities_compound [OF op_compound(2)] by (intro solventI [OF assms(2)]) auto
  next
    case (op_withdraw v w)
    then show ?thesis using s withdraw_solvent by simp
  next
    case (op_claim v)
    then show ?thesis using s claim_solvent by simp
  next
    case (op_commission v c)
    then have "liabilities h' = liabilities h" "accounts h' = accounts h"
      by (auto simp: change_commission_def Let_def event_defs split: if_splits)
    then show ?thesis by (intro solventI [OF assms(2)]) auto
  next
    case (op_external v)
    then obtain s where "apply_reward v a x s h = Inr h'"
      by (auto simp: external_reward_def Let_def split: if_splits)
    then show ?thesis using liabilities_apply_reward [of v a x s h h'] by (intro solventI [OF assms(2)]) auto
  qed
qed

section \<open>System calls\<close>

lemma fold_keeps:
  assumes "\<And>x g. liabilities (f x g) = liabilities g \<and> accounts (f x g) = accounts g"
  shows "liabilities (fold f xs h) = liabilities h \<and> accounts (fold f xs h) = accounts h"
  using assms by (induction xs arbitrary: h) simp_all

lemma array_push_keeps [simp]:
  "liabilities (array_push vs v h) = liabilities h" "accounts (array_push vs v h) = accounts h"
  by (simp_all add: array_push_eq Let_def)

lemma array_pop_keeps:
  "array_pop vs h = Inr (v, h') \<Longrightarrow> liabilities h' = liabilities h \<and> accounts h' = accounts h"
  by (auto simp: array_pop_eq Let_def split: if_splits)

lemma throw_out_view_keeps:
  "throw_out_view vs h = Inr h' \<Longrightarrow> liabilities h' = liabilities h \<and> accounts h' = accounts h"
proof (induction vs h rule: throw_out_view.induct)
  case (1 vs h)
  show ?case
  proof (cases "array_empty vs h")
    case False
    then obtain v h1 where pop: "array_pop vs h = Inr (v, h1)"
      and "throw_out_view vs (clear u256_be (view_commission vs v) (clear u256_be (view_stake vs v) h1)) = Inr h'"
      using 1(2) by (auto simp: throw_out_view.simps [of vs h] split: sum.splits)
    then show ?thesis
      using 1(1) [OF False pop refl] array_pop_keeps [OF pop]
      by (simp add: view_stake_def view_commission_def split: if_splits)
  qed (use 1(2) in \<open>simp add: throw_out_view.simps [of vs h]\<close>)
qed

lemma process_removals_keeps:
  "process_removals is h = Inr h' \<Longrightarrow> liabilities h' = liabilities h \<and> accounts h' = accounts h"
  by (induction "is" arbitrary: h)
    (auto simp: try_simps Let_def remove_from_valset_def val_bitset_bucket_def array_access dest!: array_pop_keeps)

lemma snapshot_keeps:
  assumes "syscall_snapshot data x h = Inr h'"
  shows "liabilities h' = liabilities h \<and> accounts h' = accounts h"
proof -
  have copy: "liabilities (fold copy_view_step xs g) = liabilities g \<and>
      accounts (fold copy_view_step xs g) = accounts g" for xs g
    by (rule fold_keeps) (simp add: copy_view_step_def Let_def)
  have select: "liabilities (fold select_step xs g) = liabilities g \<and>
      accounts (fold select_step xs g) = accounts g" for xs g
    by (rule fold_keeps) (simp add: select_step_def Let_def split: prod.splits)
  show ?thesis
    using assms by (rule snapshotE) (auto simp: copy select dest!: throw_out_view_keeps process_removals_keeps)
qed

lemma epoch_change_keeps:
  assumes "syscall_on_epoch_change data x h = Inr h'"
  shows "liabilities h' = liabilities h \<and> accounts h' = accounts h"
proof -
  have step: "liabilities (epoch_change_step e i g) = liabilities g \<and>
      accounts (epoch_change_step e i g) = accounts g" for e i g
    by (simp add: epoch_change_step_def refresh_accumulator_def Let_def split: option.splits)
  have "liabilities (fold (epoch_change_step e) xs g) = liabilities g \<and>
      accounts (fold (epoch_change_step e) xs g) = accounts g" for e xs g
    by (rule fold_keeps) (rule step)
  then show ?thesis
    using assms by (auto simp: syscall_on_epoch_change_def try_simps Let_def event_defs split: if_splits)
qed

text \<open>A reward is minted, and exactly its amount is owed: the commission to the auth address and the rest
  to the pool.\<close>

lemma reward_owed:
  assumes "syscall_reward t data r h = Inr h'"
  shows "liabilities h' = liabilities h + unat r"
    and "unat (get_balance STAKING_CA h') = unat (get_balance STAKING_CA h) + unat r"
proof -
  obtain v h1 c n d s h2 where mint: "add_to_balance STAKING_CA r h = Inr h1"
    and n: "checked_add (del_rewards v (val_auth_address v h1) h1) c = Inr n"
    and d: "checked_sub r c = Inr d"
    and ap: "apply_reward v SYSTEM_SENDER d s (store u256_be (DRewards v (val_auth_address v h1)) n h1) = Inr h2"
    and h': "h' = h2 \<or> h' = store u64_be ProposerValId v h2"
    using assms by (auto simp: syscall_reward_def mint_tokens_def try_simps Let_def split: if_splits option.splits)
  have "liabilities h1 = liabilities h"
    by (rule liabilities_storage [OF add_to_balance_Inr(3) [OF mint]])
  then show "liabilities h' = liabilities h + unat r"
    using liabilities_apply_reward(1) [OF ap] liabilities_claim(3) [of v "val_auth_address v h1" n h1] n d h'
    by (auto simp: checked_add_Inr checked_sub_Inr)
  have "accounts h' = accounts h1"
    using liabilities_apply_reward(2) [OF ap] h' by auto
  then show "unat (get_balance STAKING_CA h') = unat (get_balance STAKING_CA h) + unat r"
    using add_to_balance_Inr(1) [OF mint] get_balance_accounts [of h' h1] by simp
qed

lemma syscall_solvent:
  assumes "execute_staking_syscall t data x h = Inr h'" and "solvent h"
  shows "solvent h'"
proof -
  obtain h1 where 1: "add_to_balance STAKING_CA 0 h = Inr h1"
    and s: "syscall_reward t (drop 4 data) x h1 = Inr h' \<or> syscall_snapshot (drop 4 data) x h1 = Inr h' \<or>
      syscall_on_epoch_change (drop 4 data) x h1 = Inr h'"
    using assms(1) by (auto simp: execute_staking_syscall_def try_simps Let_def split: if_splits)
  have "solvent h1"
    using assms(2) add_to_balance_Inr(1) [OF 1] liabilities_storage [OF add_to_balance_Inr(3) [OF 1]]
    by (simp add: solvent_def)
  moreover have "solvent h'" if "liabilities h' = liabilities h1 \<and> accounts h' = accounts h1"
    using that calculation get_balance_accounts [of h' h1 STAKING_CA] by (simp add: solvent_def)
  ultimately show ?thesis
    using s reward_owed [of t "drop 4 data" x h1 h'] snapshot_keeps epoch_change_keeps
    by (auto simp: solvent_def)
qed

section \<open>Solvency of the contract\<close>

lemma transfer_covers:
  assumes "transfer_balances lg msg STAKING_CA h = Inr h1" and "sender msg \<noteq> STAKING_CA" and "solvent h"
  shows "covered (msg_value msg) h1"
proof -
  obtain g g' where g: "subtract_from_balance (sender msg) (msg_value msg) h = Inr g"
    and g': "add_to_balance STAKING_CA (msg_value msg) g = Inr g'"
    and h1: "h1 = emit_native_transfer_event lg (sender msg) STAKING_CA (msg_value msg) g'"
    using assms(1) by (auto simp: transfer_balances_def try_simps)
  have "liabilities h1 = liabilities h"
    using subtract_from_balance_Inr(3) [OF g] add_to_balance_Inr(3) [OF g']
    by (intro liabilities_storage) (simp add: h1 emit_native_transfer_event_def)
  moreover have "get_balance STAKING_CA h1 = get_balance STAKING_CA g'"
    by (simp add: h1 emit_native_transfer_event_def)
  ultimately show ?thesis
    using assms(2,3) add_to_balance_Inr(1) [OF g'] subtract_from_balance_Inr(2) [OF g]
    by (auto simp: covered_def solvent_def)
qed

lemma step_solvent:
  assumes "staking_step h h'" and "solvent h"
  shows "solvent h'"
  using assms(1)
proof (cases rule: staking_step.cases)
  case step_call
  then show ?thesis using transfer_covers op_solvent assms(2) by blast
next
  case step_syscall
  then show ?thesis using syscall_solvent assms(2) by blast
next
  case step_prelude
  then show ?thesis using assms(2) by (simp add: solvent_def execute_block_prelude_def)
next
  case step_chain
  then show ?thesis
    using assms(2) liabilities_storage [of h' h] by (simp add: solvent_def word_le_nat_alt)
qed

lemma liabilities_init: "storage h = (\<lambda>_. 0) \<Longrightarrow> liabilities h = 0"
proof -
  assume z: "storage h = (\<lambda>_. 0)"
  have "owed x h = 0" for x
    using z by (cases x) (simp_all add: load_def sv_u256.load_zero_storage sv_withdrawal.load_zero_storage)
  then show ?thesis
    by (simp add: liabilities_def)
qed

lemma send_tokens_fails:
  assumes "send_tokens a n h = Inl e" and "unat n \<le> unat (get_balance STAKING_CA h)"
  shows "e = Thrown ''balance overflow''"
proof -
  have "unat (get_balance STAKING_CA h) \<le> unat (get_balance STAKING_CA h1)" if "add_to_balance a n h = Inr h1" for h1
    using add_to_balance_Inr(1,2) [OF that] by (cases "a = STAKING_CA") auto
  then show ?thesis
    using assms
    by (fastforce simp: send_tokens_def try_simps add_to_balance_fails_iff subtract_from_balance_fails_iff)
qed

lemma no_throw [simp]:
  "calculate_rewards s c l \<noteq> Inl (Thrown m)" "checked_add x y \<noteq> Inl (Thrown m)" "checked_sub x y \<noteq> Inl (Thrown m)"
  "checked_mul_div x y z \<noteq> Inl (Thrown m)"
  by (simp_all add: calculate_rewards_def try_simps checked_add_eq checked_sub_eq checked_mul_div_def checked_mul_eq
      checked_div_eq)

lemma reward_invariant_no_throw [simp]: "reward_invariant v r h \<noteq> Inl (Thrown m)"
  by (simp add: reward_invariant_def Let_def try_simps)

lemma pull_throws:
  assumes "pull_delegator_up_to_date v a h = Inl (Thrown m)"
  shows "m = ''staking compound logic error''"
  using assms
  by (auto simp: pull_delegator_up_to_date_def compound_and_credit_def settle_active_stake_def apply_compound_def
      try_simps Let_def split: if_splits prod.splits)

text \<open>The payments that a withdrawal or a claim attempts are covered by the balance.\<close>

lemma withdraw_exception:
  assumes "solvent h" and "withdraw v w a h = Inl (Thrown m)"
  obtains n h2 where "send_tokens a n h2 = Inl (Thrown m)" and "accounts h2 = accounts h"
    and "unat n \<le> unat (get_balance STAKING_CA h)"
proof (cases "load_checked withdrawal_codec (Withdrawal v a w) h")
  case (Some r)
  obtain acc h1 where d: "decrement_accumulator_refcount (wr_epoch r) v (clear withdrawal_codec (Withdrawal v a w) h) = (acc, h1)"
    by fastforce
  have l1: "liabilities h1 + unat (wr_amount r) = liabilities h"
    using Some liabilities_modifies [OF decrement_frame(1) [OF d]]
      liabilities_claim(6) [of v a w "\<lparr>wr_amount = 0, wr_acc = 0, wr_epoch = 0\<rparr>" h]
    by (simp add: load_checked_def load_def sv_load_checked_def sv_load_def Let_def split: if_splits)
  have paid: "unat n \<le> unat (get_balance STAKING_CA h) \<and> accounts h2 = accounts h \<and>
      get_balance STAKING_CA h2 = get_balance STAKING_CA h"
    if "reward_invariant v rw h1 = Inr h2" "unat n = unat (wr_amount r) + unat rw" for rw h2 n
    using assms(1) that(2) l1 liabilities_reward_invariant [OF that(1)] decrement_frame(2) [OF d]
      get_balance_accounts [of h2 h STAKING_CA] by (simp add: solvent_def)
  obtain rw h2 n where r: "reward_invariant v rw h1 = Inr h2" "unat n = unat (wr_amount r) + unat rw"
    and fail: "\<not> n \<le> get_balance STAKING_CA h2 \<or> send_tokens a n h2 = Inl (Thrown m)"
    using assms(2) d Some by (auto simp: withdraw_def Let_def try_simps checked_add_Inr split: if_splits)
  then show thesis
    using paid [OF r] that by (auto simp: word_le_nat_alt)
next
  case None
  then show thesis
    using assms(2) by (simp add: withdraw_def)
qed

lemma claim_exception:
  assumes "solvent h" and "claim_rewards v a h = Inl (Thrown m)" and "pull_delegator_up_to_date v a h \<noteq> Inl (Thrown m)"
  obtains n h2 where "send_tokens a n h2 = Inl (Thrown m)" and "accounts h2 = accounts h"
    and "unat n \<le> unat (get_balance STAKING_CA h)"
proof -
  obtain h1 where 1: "pull_delegator_up_to_date v a h = Inr h1" and send: "send_tokens a (del_rewards v a h1) h1 = Inl (Thrown m)"
    using assms(2,3) by (auto simp: claim_rewards_def try_simps Let_def split: if_splits)
  have "unat (del_rewards v a h1) \<le> liabilities h1"
    using member_le_sum [of "DRewards v a" claims "\<lambda>x. owed x h1"] finite_claims by (simp add: liabilities_def)
  also have "\<dots> \<le> unat (get_balance STAKING_CA h)"
    using assms(1) liabilities_pull [OF 1] by (simp add: solvent_def)
  finally show thesis
    using that send liabilities_pull(2) [OF 1] by blast
qed

lemma reachable_is_solvent: "reachable h \<Longrightarrow> solvent h"
proof (induction rule: reachable.induct)
  case (reachable_step h h')
  then show ?case
    using step_solvent [of h h'] by simp
qed (simp add: solvent_def liabilities_init)

text \<open>C1. In every reachable state the balance of the staking contract covers everything it owes: all
  unclaimed pool rewards, all claimable rewards, all stake in its three stages and all pending
  withdrawals.\<close>

theorem reachable_solvent:
  assumes "reachable h"
  shows "liabilities h \<le> unat (get_balance STAKING_CA h)"
  using reachable_is_solvent [OF assms] by (simp add: solvent_def)

text \<open>C7. A contract that covers its liabilities can pay: a withdrawal or a claim of rewards never fails
  with the exceptions for a missing balance.\<close>

theorem payouts_never_insolvent:
  assumes "solvent h"
  shows "withdraw v w a h \<noteq> Inl (Thrown ''withdrawal insolvent'') \<and>
    withdraw v w a h \<noteq> Inl (Thrown ''balance underflow'') \<and>
    claim_rewards v a h \<noteq> Inl (Thrown ''balance underflow'')"
proof -
  have "m = ''balance overflow''" if "send_tokens a n h2 = Inl (Thrown m)" "accounts h2 = accounts h"
    "unat n \<le> unat (get_balance STAKING_CA h)" for m n h2
    using send_tokens_fails [OF that(1)] that(3) get_balance_accounts [OF that(2), of STAKING_CA] by simp
  then have "withdraw v w a h = Inl (Thrown m) \<Longrightarrow> m = ''balance overflow''"
    "claim_rewards v a h = Inl (Thrown m) \<Longrightarrow> pull_delegator_up_to_date v a h \<noteq> Inl (Thrown m) \<Longrightarrow> m = ''balance overflow''" for m
    using withdraw_exception [OF assms, of v w a] claim_exception [OF assms, of v a] by metis+
  then show ?thesis
    using pull_throws [of v a h] by fastforce
qed

end
