(* ===== verification/Valset.thy ===== *)
theory Valset
  imports Frames
begin

text \<open>
  The execution set of validators: an array of ids and a bitset over all ids with the same members. The
  set holds every validator whose flags are clean; every existing validator has an id between one and the
  last id given out.
\<close>

section \<open>Arrays of the contract\<close>

lemma array_contents_eq:
  "array_contents vs h =
     map (\<lambda>i. load u64_be (ValsetElem vs (word_of_nat i)) h) [0..<unat (load u64_be (ValsetLen vs) h)]"
  by (simp add: array_contents_def sa_contents_def sa_length_def load_def valset_slot_keys)

interpretation valset_array: array_contract "array_contents vs" "array_length vs" "array_get vs" "array_push vs" "array_pop vs"
  for vs
proof
  fix h i v
  let ?s = "valset_slot vs"
  show "unat (array_length vs h) = length (array_contents vs h)"
    by (simp add: array_length_def array_contents_def val_array.len_contents)
  show "array_get vs (word_of_nat i) h = array_contents vs h ! i" if "i < length (array_contents vs h)"
    using that val_array.get_contents [of i ?s "storage h"] by (simp add: array_get_def array_contents_def)
  show "array_contents vs (array_push vs v h) = array_contents vs h @ [v]"
    if "length (array_contents vs h) < 2 ^ 64 - 1"
    using that val_array.push_contents [of ?s "storage h" v] by (simp add: array_push_def array_contents_def)
  show "\<exists>h'. array_pop vs h = Inr (last (array_contents vs h), h') \<and> array_contents vs h' = butlast (array_contents vs h)"
    if ne: "array_contents vs h \<noteq> []"
  proof -
    obtain s' where "sa_pop u64_be ?s (storage h) = Inr (last (array_contents vs h), s')"
      and "sa_contents u64_be ?s s' = butlast (array_contents vs h)"
      using val_array.pop_contents [of ?s "storage h"] ne by (auto simp: array_contents_def)
    then show ?thesis
      by (intro exI [of _ "h\<lparr>storage := s'\<rparr>"]) (simp add: array_pop_def, simp add: array_contents_def)
  qed
  show "array_pop vs h = Inl Aborted" if "array_contents vs h = []"
    using that val_array.pop_empty [of ?s "storage h"] by (simp add: array_pop_def array_contents_def)
qed

lemma array_contents_modifies:
  assumes "modifies X h h'" and "ValsetLen vs \<notin> X" and "\<And>i. ValsetElem vs i \<notin> X"
  shows "array_contents vs h' = array_contents vs h"
  by (simp add: array_contents_eq modifies_load(1) [OF assms(1,2)] modifies_load(1) [OF assms(1,3)])

lemma array_contents_store:
  assumes "x \<noteq> ValsetLen vs" and "\<And>i. x \<noteq> ValsetElem vs i" and "sv_slots c = svar_slots x"
  shows "array_contents vs (store c x v h) = array_contents vs h"
  by (rule array_contents_modifies [of "{x}"]) (use assms in \<open>auto intro: modifies_store\<close>)

lemma array_contents_set:
  "array_contents vs (array_set vs (word_of_nat i) v h) = (array_contents vs h)[i := v]"
  if "i < 2 ^ 64"
proof (rule nth_equalityI)
  fix j
  assume "j < length (array_contents vs (array_set vs (word_of_nat i) v h))"
  then have j: "j < length (array_contents vs h)"
    by (simp add: array_contents_eq array_access)
  then have "j < 2 ^ 64"
    using valset_array.len_contents [of vs h] unat_u64_less [of "array_length vs h"] by simp
  then have "(word_of_nat j = (word_of_nat i :: u64)) = (j = i)"
    using that by (simp add: word_unat_eq_iff unat_of_nat)
  then show "array_contents vs (array_set vs (word_of_nat i) v h) ! j = (array_contents vs h)[i := v] ! j"
    using j by (auto simp: array_contents_eq array_access nth_list_update)
qed (simp add: array_contents_eq array_access)

lemma array_other:
  assumes "vs' \<noteq> vs"
  shows "array_contents vs' (array_push vs v h) = array_contents vs' h"
    and "array_contents vs' (array_set vs i v h) = array_contents vs' h"
    and "array_pop vs h = Inr (x, h') \<Longrightarrow> array_contents vs' h' = array_contents vs' h"
  using assms by (auto simp: array_push_eq array_access Let_def array_contents_store array_pop_eq split: if_splits)

section \<open>The bitset\<close>

definition in_valset :: "u64 \<Rightarrow> host \<Rightarrow> bool" where
  "in_valset v h \<longleftrightarrow> load u256_be (val_bitset_bucket v) h AND valset_mask v \<noteq> 0"

lemma in_valset_bit: "in_valset v h \<longleftrightarrow> bit (load u256_be (val_bitset_bucket v) h) (unat (v AND 0xFF))"
  by (simp add: in_valset_def valset_mask_def bit_iff_and_push_bit_not_eq_0)

lemma valset_position:
  assumes "drop_bit 8 u = drop_bit 8 (v :: u64)" and "unat (u AND 0xFF) = unat (v AND 0xFF)"
  shows "u = v"
proof (rule bit_word_eqI)
  fix n
  assume "n < LENGTH(64)"
  have m: "(0xFF :: u64) = mask 8"
    by (simp add: mask_eq_exp_minus_1)
  have low: "u AND mask 8 = v AND mask 8"
    using assms(2) by (simp add: word_unat_eq_iff m)
  show "bit u n = bit v n"
  proof (cases "n < 8")
    case True
    have "bit (u AND mask 8) n = bit (v AND mask 8) n"
      by (simp add: low)
    with True show ?thesis
      by (simp add: bit_simps)
  next
    case False
    then have "bit u n = bit (drop_bit 8 u) (n - 8)" "bit v n = bit (drop_bit 8 v) (n - 8)"
      by (simp_all add: bit_simps)
    then show ?thesis
      by (simp add: assms(1))
  qed
qed

text \<open>The operations on the bitset, as a set interface.\<close>

locale set_interface =
  fixes isin :: "'a \<Rightarrow> 's \<Rightarrow> bool" and ins :: "'a \<Rightarrow> 's \<Rightarrow> bool \<times> 's" and del :: "'a \<Rightarrow> 's \<Rightarrow> 's"
  assumes isin_ins: "isin x (snd (ins y s)) \<longleftrightarrow> x = y \<or> isin x s"
    and ins_new: "fst (ins y s) \<longleftrightarrow> \<not> isin y s"
    and isin_del: "isin x (del y s) \<longleftrightarrow> x \<noteq> y \<and> isin x s"
begin

definition members :: "'s \<Rightarrow> 'a set" where
  "members s = {x. isin x s}"

lemma members_ins: "members (snd (ins y s)) = insert y (members s)"
  by (auto simp: members_def isin_ins)

lemma members_del: "members (del y s) = members s - {y}"
  by (auto simp: members_def isin_del)

lemma ins_twice: "\<not> fst (ins y (snd (ins y s)))"
  by (simp add: ins_new isin_ins)

end

interpretation bitset: set_interface in_valset add_to_valset remove_from_valset
proof
  fix x y :: u64 and s :: host
  have small: "unat (u AND 0xFF) < 256" for u :: u64
    using word_and_le1 [of u "0xFF"] by (simp add: word_le_nat_alt)
  have mask: "bit (valset_mask y) n \<longleftrightarrow> n = unat (y AND 0xFF)" if "n < 256" for n
    using that by (auto simp: valset_mask_def bit_simps)
  show "in_valset x (snd (add_to_valset y s)) \<longleftrightarrow> x = y \<or> in_valset x s"
    using valset_position [of x y] small [of x]
    by (cases "drop_bit 8 x = drop_bit 8 y")
      (auto simp: in_valset_bit add_to_valset_def Let_def val_bitset_bucket_def bit_or_iff mask)
  show "fst (add_to_valset y s) \<longleftrightarrow> \<not> in_valset y s"
    by (simp add: in_valset_def add_to_valset_def Let_def)
  show "in_valset x (remove_from_valset y s) \<longleftrightarrow> x \<noteq> y \<and> in_valset x s"
    using valset_position [of x y] small [of x]
    by (cases "drop_bit 8 x = drop_bit 8 y")
      (auto simp: in_valset_bit remove_from_valset_def Let_def val_bitset_bucket_def bit_and_iff bit_not_iff mask)
qed

lemma in_valset_modifies:
  assumes "modifies X h h'" and "val_bitset_bucket v \<notin> X"
  shows "in_valset v h' \<longleftrightarrow> in_valset v h"
  using modifies_load(1) [OF assms, of u256_be] by (simp add: in_valset_def val_bitset_bucket_def)

section \<open>The invariant\<close>

definition valset_inv :: "host \<Rightarrow> bool" where
  "valset_inv h \<longleftrightarrow> distinct (array_contents Execution h) \<and>
     (\<forall>v. in_valset v h \<longleftrightarrow> v \<in> set (array_contents Execution h)) \<and>
     (\<forall>v. val_exists v h \<longleftrightarrow> v \<noteq> 0 \<and> v \<le> last_val_id h) \<and>
     (\<forall>v. in_valset v h \<longrightarrow> val_exists v h) \<and>
     (\<forall>v. val_exists v h \<and> get_flags v h = ValidatorFlagsOk \<longrightarrow> in_valset v h)"

lemma valset_invD:
  assumes "valset_inv h"
  shows "distinct (array_contents Execution h)" "in_valset v h \<longleftrightarrow> v \<in> set (array_contents Execution h)"
    "val_exists v h \<longleftrightarrow> v \<noteq> 0 \<and> v \<le> last_val_id h" "in_valset v h \<Longrightarrow> val_exists v h"
    "val_exists v h \<Longrightarrow> get_flags v h = ValidatorFlagsOk \<Longrightarrow> in_valset v h"
  using assms unfolding valset_inv_def by blast+

definition valset_vars :: "svar set" where
  "valset_vars = {LastValId, ValsetLen Execution} \<union> range (ValsetElem Execution) \<union> range ValBitset \<union> range VAddressFlags"

lemma address_flags_modifies:
  assumes "modifies X h h'" and "VAddressFlags v \<notin> X"
  shows "get_flags v h' = get_flags v h" "val_auth_address v h' = val_auth_address v h" "val_exists v h' = val_exists v h"
  using modifies_load(1) [OF assms, of address_flags_codec]
  by (simp_all add: get_flags_def val_auth_address_def val_exists_def)

lemma valset_inv_modifies:
  assumes "valset_inv h" and m: "modifies X h h'" and "\<And>y. y \<in> valset_vars \<Longrightarrow> y \<notin> X"
  shows "valset_inv h'"
proof -
  have X: "LastValId \<notin> X" "ValsetLen Execution \<notin> X" "ValsetElem Execution i \<notin> X" "val_bitset_bucket v \<notin> X"
    "VAddressFlags v \<notin> X" for i v
    by (rule assms(3); simp add: valset_vars_def val_bitset_bucket_def)+
  have "last_val_id h' = last_val_id h"
    by (rule modifies_load(1) [OF m X(1)]) simp
  then have "valset_inv h' = valset_inv h"
    unfolding valset_inv_def array_contents_modifies [OF m X(2,3)] in_valset_modifies [OF m X(4)]
      address_flags_modifies [OF m X(5)] by (simp only:)
  then show ?thesis
    using assms(1) by simp
qed

lemma execution_set_bound:
  assumes "valset_inv h"
  shows "length (array_contents Execution h) \<le> unat (last_val_id h)"
    and "val_exists v h \<Longrightarrow> \<not> in_valset v h \<Longrightarrow> length (array_contents Execution h) < unat (last_val_id h)"
proof -
  have ids: "unat u \<in> {1..unat (last_val_id h)}" if "val_exists u h" for u
  proof -
    have "u \<noteq> 0" "u \<le> last_val_id h"
      using assms that unfolding valset_inv_def by blast+
    then show ?thesis
      by (simp add: word_le_nat_alt Suc_le_eq unat_gt_0)
  qed
  have mem: "val_exists u h" if "u \<in> set (array_contents Execution h)" for u
    using assms that unfolding valset_inv_def by blast
  have sub: "unat ` set (array_contents Execution h) \<subseteq> {1..unat (last_val_id h)}"
    using ids mem by blast
  have "distinct (array_contents Execution h)"
    using assms unfolding valset_inv_def by blast
  then have card: "card (unat ` set (array_contents Execution h)) = length (array_contents Execution h)"
    by (subst card_image) (auto intro!: inj_onI simp: distinct_card word_unat_eq_iff)
  show "length (array_contents Execution h) \<le> unat (last_val_id h)"
    using card_mono [OF _ sub] card by simp
  assume v: "val_exists v h" "\<not> in_valset v h"
  have "v \<notin> set (array_contents Execution h)"
    using assms v(2) unfolding valset_inv_def by blast
  then have "unat v \<in> {1..unat (last_val_id h)}" "unat v \<notin> unat ` set (array_contents Execution h)"
    using ids [OF v(1)] by (auto simp: word_unat_eq_iff [symmetric])
  then have "unat ` set (array_contents Execution h) \<subset> {1..unat (last_val_id h)}"
    using sub by blast
  then have "card (unat ` set (array_contents Execution h)) < card {1..unat (last_val_id h)}"
    by (rule psubset_card_mono [OF finite_atLeastAtMost])
  then show "length (array_contents Execution h) < unat (last_val_id h)"
    using card by simp
qed

section \<open>Operations\<close>

lemma delegate_valset_spec:
  fixes h :: host
  assumes "val_exists v h" "distinct (array_contents Execution h)"
    and "\<And>u. in_valset u h \<longleftrightarrow> u \<in> set (array_contents Execution h)"
    and "in_valset v h \<or> length (array_contents Execution h) < 2 ^ 64 - 1"
  shows "array_contents Execution (delegate_valset v h) =
      (if get_flags v h = ValidatorFlagsOk \<and> \<not> in_valset v h then array_contents Execution h @ [v]
       else array_contents Execution h)"
    and "in_valset u (delegate_valset v h) \<longleftrightarrow> in_valset u h \<or> (u = v \<and> get_flags v h = ValidatorFlagsOk)"
proof -
  obtain b g where g: "add_to_valset v h = (b, g)"
    by fastforce
  have m: "modifies {val_bitset_bucket v} h g"
    using g by (auto simp: add_to_valset_def Let_def val_bitset_bucket_def intro!: modifies_store)
  have arr: "array_contents Execution g = array_contents Execution h"
    by (rule array_contents_modifies [OF m]) (simp_all add: val_bitset_bucket_def)
  have b: "b \<longleftrightarrow> \<not> in_valset v h" and mem: "in_valset u g \<longleftrightarrow> u = v \<or> in_valset u h" for u
    using bitset.ins_new [of v h] bitset.isin_ins [of u v h] g by simp_all
  have push: "in_valset u (array_push Execution v g) \<longleftrightarrow> in_valset u g" for u
    unfolding array_push_eq Let_def
    by (rule in_valset_modifies [of "{ValsetLen Execution} \<union> range (ValsetElem Execution)"])
      (auto simp: val_bitset_bucket_def intro!: modifies_store)
  show "array_contents Execution (delegate_valset v h) =
      (if get_flags v h = ValidatorFlagsOk \<and> \<not> in_valset v h then array_contents Execution h @ [v]
       else array_contents Execution h)"
  proof (cases b)
    case True
    then have "array_contents Execution (array_push Execution v g) = array_contents Execution h @ [v]"
      using assms(4) b arr valset_array.push_contents [of Execution g v] by simp
    with True show ?thesis
      unfolding delegate_valset_def g using b by simp
  next
    case False
    then show ?thesis
      unfolding delegate_valset_def g using b arr by simp
  qed
  show "in_valset u (delegate_valset v h) \<longleftrightarrow> in_valset u h \<or> (u = v \<and> get_flags v h = ValidatorFlagsOk)"
    unfolding delegate_valset_def g using mem push by auto
qed

lemma flags_auth [simp]:
  "val_auth_address u (set_flag v f h) = val_auth_address u h"
  "val_auth_address u (clear_flag v f h) = val_auth_address u h"
  by (cases "u = v"; simp add: set_flag_def clear_flag_def Let_def val_auth_address_def)+

lemma flags_auth_ops [simp]:
  "val_auth_address u (delegate_flags t v n a h) = val_auth_address u h"
  "val_auth_address u (undelegate_flags t v n a h) = val_auth_address u h"
proof -
  have log: "val_auth_address u (emit_log l g) = val_auth_address u g" for l g
    by (simp add: val_auth_address_def)
  show "val_auth_address u (delegate_flags t v n a h) = val_auth_address u h"
    "val_auth_address u (undelegate_flags t v n a h) = val_auth_address u h"
    by (simp_all add: delegate_flags_def undelegate_flags_def Let_def event_defs log)
qed

lemma get_flags_log [simp]: "get_flags v (emit_log l h) = get_flags v h"
  by (simp add: get_flags_def)

lemma get_flags_update [simp]:
  "get_flags v (set_flag v f h) = get_flags v h OR f" "get_flags v (clear_flag v f h) = get_flags v h AND NOT f"
  by (simp_all add: get_flags_def set_flag_def clear_flag_def Let_def)

lemma undelegate_flags_only_set:
  "get_flags v (undelegate_flags t v n a h) = ValidatorFlagsOk \<Longrightarrow> get_flags v h = ValidatorFlagsOk"
  by (auto simp: undelegate_flags_def Let_def event_defs ValidatorFlagsOk_def or_eq_0_iff split: if_splits)

text \<open>What remains of the invariant when the flags of one validator change.\<close>

lemma valset_inv_but_flags:
  assumes "valset_inv h" and m: "modifies X h g" and other: "X \<inter> valset_vars \<subseteq> {VAddressFlags v}"
    and auth: "val_auth_address v g = val_auth_address v h"
  shows "array_contents Execution g = array_contents Execution h" "in_valset u g = in_valset u h"
    "last_val_id g = last_val_id h" "val_exists u g = val_exists u h" "u \<noteq> v \<Longrightarrow> get_flags u g = get_flags u h"
proof -
  have out: "y \<notin> X" if "y \<in> valset_vars" "y \<noteq> VAddressFlags v" for y
    using other that by blast
  have X: "LastValId \<notin> X" "ValsetLen Execution \<notin> X" "ValsetElem Execution i \<notin> X" "val_bitset_bucket u \<notin> X"
    "u \<noteq> v \<Longrightarrow> VAddressFlags u \<notin> X" for i u
    by (rule out; simp add: valset_vars_def val_bitset_bucket_def)+
  show "array_contents Execution g = array_contents Execution h"
    by (rule array_contents_modifies [OF m X(2,3)])
  show "in_valset u g = in_valset u h"
    by (rule in_valset_modifies [OF m X(4)])
  show "last_val_id g = last_val_id h"
    by (rule modifies_load(1) [OF m X(1)]) simp
  show "val_exists u g = val_exists u h"
    using auth address_flags_modifies(3) [OF m X(5), of u] by (cases "u = v") (auto simp: val_exists_def)
  show "get_flags u g = get_flags u h" if "u \<noteq> v"
    by (rule address_flags_modifies(1) [OF m X(5) [OF that]])
qed

lemma valset_inv_flags:
  assumes "valset_inv h" and "modifies X h g" and "X \<inter> valset_vars \<subseteq> {VAddressFlags v}"
    and "val_auth_address v g = val_auth_address v h"
    and "get_flags v g = ValidatorFlagsOk \<Longrightarrow> get_flags v h = ValidatorFlagsOk"
  shows "valset_inv g"
proof -
  note same = valset_inv_but_flags [OF assms(1-4)] and inv = valset_invD [OF assms(1)]
  have "get_flags u g = ValidatorFlagsOk \<Longrightarrow> get_flags u h = ValidatorFlagsOk" for u
    using assms(5) same(5) by (cases "u = v") auto
  then show ?thesis
    unfolding valset_inv_def same(1-4) using inv by blast
qed

lemma delegate_valset_inv:
  assumes "delegate t v s a h = Inr h'" and "valset_inv h"
  shows "valset_inv h'"
  using assms(1)
proof (cases rule: delegateE)
  case (1 h1 h2 n h3)
  define g where "g = delegate_flags t v n a (store u256_be (VStake v) n h2)"
  let ?X = "pull_vars v a \<union> {VStake v, VAddressFlags v}"
  have "modifies ?X h h1"
    by (rule modifies_mono [OF pull_frame [OF 1(3)]]) auto
  then have "modifies ?X h h2"
    by (rule modifies_then [OF _ delegate_stake_frame [OF 1(4)]]) auto
  then have h2: "modifies ?X h (store u256_be (VStake v) n h2)"
    by (rule modifies_store) simp_all
  then have g: "modifies ?X h g"
    unfolding g_def by (rule modifies_then [OF _ flags_frame(1)]) auto
  have "load address_flags_codec (VAddressFlags v) h2 = address_flags v h"
    using modifies_load(1) [OF pull_frame [OF 1(3)], of "VAddressFlags v" address_flags_codec]
      modifies_load(1) [OF delegate_stake_frame [OF 1(4)], of "VAddressFlags v" address_flags_codec]
    by (simp add: write_set_iffs)
  then have auth: "val_auth_address v g = val_auth_address v h"
    by (simp add: g_def) (simp add: val_auth_address_def)
  have X: "?X \<inter> valset_vars \<subseteq> {VAddressFlags v}"
    by (auto simp: valset_vars_def write_set_iffs)
  note same = valset_inv_but_flags [OF assms(2) g X auth] and inv = valset_invD [OF assms(2)]
  have ex: "val_exists v g"
    using 1(1) same(4) by simp
  note new = delegate_valset_spec [OF ex, unfolded same(1-4), OF inv(1,2)]
  have room: "in_valset v h \<or> length (array_contents Execution h) < 2 ^ 64 - 1"
    using execution_set_bound(2) [OF assms(2) 1(1)] unat_u64_less [of "last_val_id h"] by fastforce
  note m = delegate_after_flags(2) [OF 1(6,7), folded g_def]
  note rest = address_flags_modifies [OF delegate_after_flags(1) [OF 1(6,7), folded g_def]]
    modifies_load(1) [OF delegate_after_flags(1) [OF 1(6,7), folded g_def], of LastValId u64_be]
  have fl: "get_flags u h' = get_flags u g" "val_exists u h' = val_exists u h" "last_val_id h' = last_val_id h" for u
    using rest same(3,4) by (auto simp: val_bitset_bucket_def)
  have arr: "array_contents Execution h' = array_contents Execution (delegate_valset v g)"
    and mem: "in_valset u h' = in_valset u (delegate_valset v g)" for u
    using array_contents_modifies [OF m, of Execution] in_valset_modifies [OF m, of u] by (simp_all add: val_bitset_bucket_def)
  have mem': "in_valset u h' \<longleftrightarrow> in_valset u h \<or> (u = v \<and> get_flags v g = ValidatorFlagsOk)" for u
    unfolding mem by (rule new(2) [OF room])
  have arr': "distinct (array_contents Execution h')" "u \<in> set (array_contents Execution h') \<longleftrightarrow> in_valset u h'" for u
    unfolding arr mem' new(1) [OF room] using inv(1,2) by auto
  have ok: "in_valset u h'" if "val_exists u h" "get_flags u g = ValidatorFlagsOk" for u
    using that inv(5) [of u] same(5) [of u] mem' by (cases "u = v") auto
  show ?thesis
    unfolding valset_inv_def fl
  proof (intro conjI allI impI)
    fix u
    show "val_exists u h \<longleftrightarrow> u \<noteq> 0 \<and> u \<le> last_val_id h"
      by (rule inv(3))
    show "val_exists u h" if "in_valset u h'"
      using that mem' inv(4) 1(1) by blast
  qed (use arr' ok in auto)
qed

lemma undelegate_valset_inv:
  assumes "undelegate t v n w a h = Inr h'" and "valset_inv h"
  shows "valset_inv h'"
  using assms(1)
proof (cases rule: undelegateE)
  case (2 h1 n' vs ds h2)
  let ?h1 = "store u256_be (DStake v a) ds (store u256_be (VStake v) vs h1)"
  let ?f = "undelegate_flags t v vs a ?h1"
  have af1: "address_flags v ?h1 = address_flags v h"
    using modifies_load(1) [OF pull_frame [OF 2(4)], of "VAddressFlags v" address_flags_codec] by (simp add: write_set_iffs)
  have "address_flags v h2 = address_flags v ?f"
    unfolding 2(7) by (rule modifies_load(1) [OF record_withdrawal_after_flags]) auto
  moreover have "modifies list_nodes h2 h'"
    using 2(8) list_frame(3,4) modifies_then [OF _ _ order_refl] by fastforce
  ultimately have af: "address_flags v h' = address_flags v ?f"
    using modifies_load(1) [of list_nodes h2 h' "VAddressFlags v" address_flags_codec] by simp
  show ?thesis
  proof (rule valset_inv_flags [OF assms(2) undelegate_frame [OF assms(1)]])
    show "val_auth_address v h' = val_auth_address v h"
      using af af1 flags_auth_ops(2) [of v t v vs a ?h1] by (simp add: val_auth_address_def)
    show "get_flags v h = ValidatorFlagsOk" if "get_flags v h' = ValidatorFlagsOk"
      using that af af1 undelegate_flags_only_set [of v t vs a ?h1] by (simp add: get_flags_def)
  qed (auto simp: valset_vars_def write_set_iffs)
qed (use assms in simp)

end
