(* ===== verification/Snapshot.thy ===== *)
theory Snapshot
  imports Valset "HOL-Library.Multiset"
begin

text \<open>
  The snapshot that opens the epoch delay period: its three loops over arrays, the selection of the
  consensus set and the removals from the execution set, each described by what it does to the lists that
  the arrays hold. The result is the functional specification of \<open>syscall_snapshot\<close>, which never fails
  once its guards hold.
\<close>

section \<open>Clearing a view\<close>

definition view_vars :: "valset \<Rightarrow> svar set" where
  "view_vars vs = {ValsetLen vs} \<union> range (ValsetElem vs) \<union> range (view_stake vs) \<union> range (view_commission vs)"

lemma view_simps [simp]:
  "svar_slots (view_stake vs v) = 1" "svar_slots (view_commission vs v) = 1"
  "view_stake vs v \<noteq> ValsetLen vs'" "view_stake vs v \<noteq> ValsetElem vs' i"
  "view_commission vs v \<noteq> ValsetLen vs'" "view_commission vs v \<noteq> ValsetElem vs' i"
  "view_stake vs v \<noteq> view_commission vs' u" "view_commission vs' u \<noteq> view_stake vs v"
  "view_stake vs v = view_stake vs u \<longleftrightarrow> v = u" "view_commission vs v = view_commission vs u \<longleftrightarrow> v = u"
  by (simp_all add: view_stake_def view_commission_def)

lemma array_pop_loads:
  assumes "array_pop vs h = Inr (x, h')" and "y \<noteq> ValsetLen vs" and "\<And>i. y \<noteq> ValsetElem vs i" and "svar_slots y = sv_slots c"
  shows "load c y h' = load c y h"
  using assms by (auto simp: array_pop_eq Let_def split: if_splits)

lemma throw_out_view_spec:
  "\<exists>h'. throw_out_view vs h = Inr h' \<and> array_contents vs h' = [] \<and> modifies (view_vars vs) h h' \<and>
     (\<forall>v. load u256_be (view_stake vs v) h' =
            (if v \<in> set (array_contents vs h) then 0 else load u256_be (view_stake vs v) h) \<and>
          load u256_be (view_commission vs v) h' =
            (if v \<in> set (array_contents vs h) then 0 else load u256_be (view_commission vs v) h))"
proof (induction vs h rule: throw_out_view.induct)
  case (1 vs h)
  show ?case
  proof (cases "array_contents vs h = []")
    case True
    then have "array_empty vs h"
      by (simp add: array_empty_def sa_empty_def array_length_def [symmetric] valset_array.len_zero_iff)
    then show ?thesis
      using True by (simp add: throw_out_view.simps)
  next
    case False
    then have ne: "\<not> array_empty vs h"
      by (simp add: array_empty_def sa_empty_def array_length_def [symmetric] valset_array.len_zero_iff)
    define u where "u = last (array_contents vs h)"
    obtain h1 where pop: "array_pop vs h = Inr (u, h1)" and c1: "array_contents vs h1 = butlast (array_contents vs h)"
      using valset_array.pop_contents [OF False] u_def by blast
    define g where "g = clear u256_be (view_commission vs u) (clear u256_be (view_stake vs u) h1)"
    have cg: "array_contents vs g = butlast (array_contents vs h)"
      by (simp add: g_def array_contents_store c1)
    obtain h' where h': "throw_out_view vs g = Inr h'" "array_contents vs h' = []" "modifies (view_vars vs) g h'"
      and loads: "\<And>v. load u256_be (view_stake vs v) h' =
            (if v \<in> set (array_contents vs g) then 0 else load u256_be (view_stake vs v) g) \<and>
          load u256_be (view_commission vs v) h' =
            (if v \<in> set (array_contents vs g) then 0 else load u256_be (view_commission vs v) g)"
      using "1.IH" [OF ne pop refl] unfolding g_def by blast
    have "modifies (view_vars vs) h h1"
      using pop by (auto simp: array_pop_eq Let_def view_vars_def split: if_splits intro!: modifies_store)
    then have "modifies (view_vars vs) h g"
      unfolding g_def by (simp add: modifies_store view_vars_def)
    then have m: "modifies (view_vars vs) h h'"
      by (rule modifies_then [OF _ h'(3)]) simp
    have step: "throw_out_view vs h = Inr h'"
      using ne pop h'(1) by (simp add: throw_out_view.simps [of vs h] g_def)
    have set: "set (array_contents vs h) = insert u (set (butlast (array_contents vs h)))"
      using False unfolding u_def by (metis append_butlast_last_id list.simps(15) rotate1.simps(2) set_rotate1)
    have "load u256_be (view_stake vs v) g = (if v = u then 0 else load u256_be (view_stake vs v) h)"
      "load u256_be (view_commission vs v) g = (if v = u then 0 else load u256_be (view_commission vs v) h)" for v
      using array_pop_loads [OF pop, of _ u256_be] by (simp_all add: g_def)
    then have "load u256_be (view_stake vs v) h' =
            (if v \<in> set (array_contents vs h) then 0 else load u256_be (view_stake vs v) h) \<and>
          load u256_be (view_commission vs v) h' =
            (if v \<in> set (array_contents vs h) then 0 else load u256_be (view_commission vs v) h)" for v
      using loads [of v] unfolding cg set by simp
    then show ?thesis
      using step h'(2) m by blast
  qed
qed

section \<open>Copying the consensus view\<close>

lemma array_push_loads:
  assumes "y \<noteq> ValsetLen vs" and "\<And>i. y \<noteq> ValsetElem vs i" and "svar_slots y = sv_slots c"
  shows "load c y (array_push vs v h) = load c y h"
  using assms by (simp add: array_push_eq Let_def)

definition copy_vars :: "svar set" where
  "copy_vars = {ValsetLen Snapshot} \<union> range (ValsetElem Snapshot) \<union> range SnapStake \<union> range SnapCommission"

lemma copy_step_frame: "modifies copy_vars h (copy_view_step i h)"
  unfolding copy_view_step_def Let_def array_push_eq
  by (intro modifies_store modifies_refl) (simp_all add: copy_vars_def)

lemma copy_view_spec:
  assumes "array_contents Snapshot h = []" and "k \<le> length (array_contents Consensus h)"
  defines "h' \<equiv> fold copy_view_step [0..<k] h"
  shows "array_contents Snapshot h' = take k (array_contents Consensus h)" and "modifies copy_vars h h'"
    and "load u256_be (SnapStake v) h' =
      (if v \<in> set (take k (array_contents Consensus h)) then load u256_be (ConsStake v) h else load u256_be (SnapStake v) h)"
    and "load u256_be (SnapCommission v) h' =
      (if v \<in> set (take k (array_contents Consensus h)) then load u256_be (ConsCommission v) h
       else load u256_be (SnapCommission v) h)"
proof -
  let ?C = "array_contents Consensus h"
  have "array_contents Snapshot h' = take k ?C \<and> modifies copy_vars h h' \<and>
    (\<forall>v. load u256_be (SnapStake v) h' =
      (if v \<in> set (take k ?C) then load u256_be (ConsStake v) h else load u256_be (SnapStake v) h) \<and>
     load u256_be (SnapCommission v) h' =
      (if v \<in> set (take k ?C) then load u256_be (ConsCommission v) h else load u256_be (SnapCommission v) h))"
    unfolding h'_def using assms(2)
  proof (induction k)
    case 0
    then show ?case
      using assms(1) by simp
  next
    case (Suc k)
    define g where "g = fold copy_view_step [0..<k] h"
    have k: "k < length ?C"
      using Suc.prems by simp
    have IH: "array_contents Snapshot g = take k ?C" "modifies copy_vars h g"
      "\<And>v. load u256_be (SnapStake v) g = (if v \<in> set (take k ?C) then load u256_be (ConsStake v) h else load u256_be (SnapStake v) h)"
      "\<And>v. load u256_be (SnapCommission v) g =
        (if v \<in> set (take k ?C) then load u256_be (ConsCommission v) h else load u256_be (SnapCommission v) h)"
      using Suc.IH k unfolding g_def by auto
    have cons: "array_contents Consensus g = ?C" "load u256_be (ConsStake v) g = load u256_be (ConsStake v) h"
      "load u256_be (ConsCommission v) g = load u256_be (ConsCommission v) h" for v
      using array_contents_modifies [OF IH(2), of Consensus] modifies_load(1) [OF IH(2), of "ConsStake v" u256_be]
        modifies_load(1) [OF IH(2), of "ConsCommission v" u256_be] by (auto simp: copy_vars_def)
    have get: "array_get Consensus (word_of_nat k) g = ?C ! k"
      using valset_array.get_contents [of k Consensus g] cons(1) k by simp
    have "length ?C < 2 ^ 64"
      using valset_array.len_contents [of Consensus h] unat_u64_less [of "array_length Consensus h"] by simp
    then have push: "array_contents Snapshot (array_push Snapshot v g) = take k ?C @ [v]" for v
      using valset_array.push_contents [of Snapshot g v] IH(1) k by simp
    have "array_contents Snapshot (copy_view_step k g) = take (Suc k) ?C"
      using k by (simp add: copy_view_step_def Let_def get array_contents_store push take_Suc_conv_app_nth)
    moreover have "modifies copy_vars h (copy_view_step k g)"
      by (rule modifies_then [OF IH(2) copy_step_frame order_refl])
    moreover have "load u256_be (SnapStake v) (copy_view_step k g) =
        (if v \<in> set (take (Suc k) ?C) then load u256_be (ConsStake v) h else load u256_be (SnapStake v) h)"
      "load u256_be (SnapCommission v) (copy_view_step k g) =
        (if v \<in> set (take (Suc k) ?C) then load u256_be (ConsCommission v) h else load u256_be (SnapCommission v) h)" for v
      using IH(3,4) [of v] cons k
      by (cases "v = ?C ! k"; simp add: copy_view_step_def Let_def get array_push_loads take_Suc_conv_app_nth)+
    moreover have "fold copy_view_step [0..<Suc k] h = copy_view_step k g"
      by (simp add: g_def)
    ultimately show ?case
      by simp
  qed
  then show "array_contents Snapshot h' = take k ?C" "modifies copy_vars h h'"
    "load u256_be (SnapStake v) h' = (if v \<in> set (take k ?C) then load u256_be (ConsStake v) h else load u256_be (SnapStake v) h)"
    "load u256_be (SnapCommission v) h' =
      (if v \<in> set (take k ?C) then load u256_be (ConsCommission v) h else load u256_be (SnapCommission v) h)"
    by simp_all
qed

section \<open>Candidates and their order\<close>

abbreviation flags_ok :: "host \<Rightarrow> u64 \<Rightarrow> bool" where
  "flags_ok h v \<equiv> get_flags v h = ValidatorFlagsOk"

lemma find_candidates_spec:
  fixes h :: host
  defines "E \<equiv> array_contents Execution h"
  shows "find_candidates h =
    (map (\<lambda>v. (v, val_stake v h)) (filter (flags_ok h) E), filter (\<lambda>i. \<not> flags_ok h (E ! i)) [0..<length E])"
proof -
  have "fold (candidate_step h) [0..<k] ([], []) =
      (map (\<lambda>v. (v, val_stake v h)) (filter (flags_ok h) (take k E)), filter (\<lambda>i. \<not> flags_ok h (E ! i)) [0..<k])"
    if "k \<le> length E" for k
    using that
  proof (induction k)
    case (Suc k)
    then have "array_get Execution (word_of_nat k) h = E ! k"
      using valset_array.get_contents [of k Execution h] by (simp add: E_def)
    then show ?case
      using Suc by (simp add: candidate_step_def Let_def take_Suc_conv_app_nth)
  qed simp
  from this [of "length E"] show ?thesis
    by (simp add: find_candidates_def E_def valset_array.len_contents)
qed

text \<open>A strict total order and the insertion sort that realises \<open>std::partial_sort\<close> for it.\<close>

locale strict_order =
  fixes lt :: "'a \<Rightarrow> 'a \<Rightarrow> bool"
  assumes irrefl: "\<not> lt x x" and trans: "lt x y \<Longrightarrow> lt y z \<Longrightarrow> lt x z" and total: "x \<noteq> y \<Longrightarrow> lt x y \<or> lt y x"
begin

lemma mset_insert_by: "mset (insert_by lt x xs) = add_mset x (mset xs)"
  by (induction xs) simp_all

lemma mset_sort_by: "mset (sort_by lt xs) = mset xs"
  by (induction xs) (simp_all add: mset_insert_by)

lemma set_sort_by: "set (sort_by lt xs) = set xs"
  using mset_sort_by by (metis set_mset_mset)

lemma sorted_insert_by:
  assumes "sorted_wrt lt xs" and "x \<notin> set xs"
  shows "sorted_wrt lt (insert_by lt x xs)"
  using assms
proof (induction xs)
  case (Cons y ys)
  have "set (insert_by lt x ys) = insert x (set ys)"
    using mset_insert_by by (metis set_mset_add_mset_insert set_mset_mset)
  moreover have "lt x y" if "\<not> lt y x"
    using that Cons.prems(2) total by auto
  ultimately show ?case
    using Cons trans by auto
qed simp

lemma sorted_sort_by: "distinct xs \<Longrightarrow> sorted_wrt lt (sort_by lt xs)"
  by (induction xs) (simp_all add: sorted_insert_by set_sort_by)

lemma partial_sort_best:
  assumes "distinct xs" and "x \<in> set (partial_sort n lt xs)" and "y \<in> set xs" and "y \<notin> set (partial_sort n lt xs)"
  shows "lt x y"
proof -
  have "sorted_wrt lt (take n (sort_by lt xs) @ drop n (sort_by lt xs))"
    using sorted_sort_by [OF assms(1)] by simp
  then have "\<forall>a \<in> set (take n (sort_by lt xs)). \<forall>b \<in> set (drop n (sort_by lt xs)). lt a b"
    unfolding sorted_wrt_append by blast
  moreover have "y \<in> set (drop n (sort_by lt xs))"
    using assms(3,4) set_sort_by [of xs] append_take_drop_id [of n "sort_by lt xs"] unfolding partial_sort_def
    by (metis Un_iff set_append)
  ultimately show ?thesis
    using assms(2) unfolding partial_sort_def by blast
qed

lemma partial_sort_sorted: "distinct xs \<Longrightarrow> sorted_wrt lt (partial_sort n lt xs)"
  unfolding partial_sort_def using sorted_sort_by by (metis append_take_drop_id sorted_wrt_append)

lemma partial_sort_subset: "set (partial_sort n lt xs) \<subseteq> set xs"
  unfolding partial_sort_def using set_sort_by set_take_subset by metis

lemma length_partial_sort: "length (partial_sort n lt xs) = min n (length xs)"
  unfolding partial_sort_def using mset_eq_length [OF mset_sort_by [of xs]] by (simp add: min.commute)

lemma distinct_partial_sort: "distinct xs \<Longrightarrow> distinct (partial_sort n lt xs)"
  unfolding partial_sort_def using mset_sort_by mset_eq_imp_distinct_iff distinct_take by metis

end

interpretation by_stake: strict_order cmp
  by unfold_locales (auto simp: cmp_def split: if_splits)

section \<open>Selecting the consensus set\<close>

definition select_vars :: "svar set" where
  "select_vars = {ValsetLen Consensus} \<union> range (ValsetElem Consensus) \<union> range ConsStake \<union> range ConsCommission"

lemma select_step_frame: "modifies select_vars h (select_step c h)"
  unfolding select_step_def Let_def array_push_eq case_prod_unfold
  by (intro modifies_store modifies_refl) (simp_all add: select_vars_def)

lemma select_spec:
  assumes "length (array_contents Consensus h) + length cs < 2 ^ 64"
    and "\<And>v s. (v, s) \<in> set cs \<Longrightarrow> s = val_stake v h"
  shows "array_contents Consensus (fold select_step cs h) = array_contents Consensus h @ map fst cs \<and>
    modifies select_vars h (fold select_step cs h) \<and>
    (\<forall>v. load u256_be (ConsStake v) (fold select_step cs h) =
        (if v \<in> fst ` set cs then val_stake v h else load u256_be (ConsStake v) h) \<and>
      load u256_be (ConsCommission v) (fold select_step cs h) =
        (if v \<in> fst ` set cs then val_commission v h else load u256_be (ConsCommission v) h))"
  using assms
proof (induction cs arbitrary: h)
  case (Cons c cs)
  obtain u s where c: "c = (u, s)" by fastforce
  define g where "g = select_step c h"
  have m: "modifies select_vars h g"
    unfolding g_def by (rule select_step_frame)
  have same: "val_stake v g = val_stake v h" "val_commission v g = val_commission v h" for v
    using modifies_load(1) [OF m, of "VStake v" u256_be] modifies_load(1) [OF m, of "VCommission v" u256_be]
    by (auto simp: select_vars_def)
  have arr: "array_contents Consensus g = array_contents Consensus h @ [u]"
    using valset_array.push_contents [of Consensus h u] Cons.prems(1)
    by (simp add: g_def c select_step_def Let_def array_contents_store)
  have s: "s = val_stake u h"
    using Cons.prems(2) [of u s] by (simp add: c)
  have loads: "load u256_be (ConsStake v) g = (if v = u then val_stake v h else load u256_be (ConsStake v) h)"
    "load u256_be (ConsCommission v) g = (if v = u then val_commission v h else load u256_be (ConsCommission v) h)" for v
    by (cases "v = u"; simp add: g_def c select_step_def Let_def array_push_loads s)+
  have IH: "array_contents Consensus (fold select_step cs g) = array_contents Consensus g @ map fst cs"
    "modifies select_vars g (fold select_step cs g)"
    "\<And>v. load u256_be (ConsStake v) (fold select_step cs g) =
        (if v \<in> fst ` set cs then val_stake v g else load u256_be (ConsStake v) g) \<and>
      load u256_be (ConsCommission v) (fold select_step cs g) =
        (if v \<in> fst ` set cs then val_commission v g else load u256_be (ConsCommission v) g)"
    using Cons.IH [of g] Cons.prems arr same by auto
  have "modifies select_vars h (fold select_step cs g)"
    by (rule modifies_then [OF m IH(2) order_refl])
  moreover have "fold select_step (c # cs) h = fold select_step cs g"
    by (simp add: g_def)
  ultimately show ?case
    using IH(1) IH(3) arr same loads by (simp only:) (auto simp: c)
qed simp

section \<open>Removals\<close>

definition drop_swap :: "'a list \<Rightarrow> nat \<Rightarrow> 'a list" where
  "drop_swap xs i = (butlast xs)[i := last xs]"

lemma mset_drop_swap:
  assumes "i < length xs"
  shows "mset (drop_swap xs i) = mset xs - {#xs ! i#}"
proof -
  obtain ys y where xs: "xs = ys @ [y]"
    using assms by (cases xs rule: rev_cases) auto
  show ?thesis
  proof (cases "i = length ys")
    case False
    then have "i < length ys" "xs ! i = ys ! i"
      using assms by (simp_all add: xs nth_append)
    then show ?thesis
      by (simp add: drop_swap_def xs mset_update)
  qed (simp add: drop_swap_def xs list_update_beyond)
qed

lemma drop_swap_simps [simp]:
  "length (drop_swap xs i) = length xs - 1" "j < i \<Longrightarrow> i < length xs \<Longrightarrow> drop_swap xs i ! j = xs ! j"
  by (simp_all add: drop_swap_def nth_butlast)

definition removal_vars :: "svar set" where
  "removal_vars = {ValsetLen Execution} \<union> range (ValsetElem Execution) \<union> range ValBitset"

lemma process_removals_spec:
  assumes "sorted_wrt (>) is" and "\<forall>i\<in>set is. i < length (array_contents Execution h)"
  shows "\<exists>h'. process_removals is h = Inr h' \<and> modifies removal_vars h h' \<and>
    mset (array_contents Execution h') =
      mset (array_contents Execution h) - mset (map ((!) (array_contents Execution h)) is) \<and>
    (\<forall>v. in_valset v h' \<longleftrightarrow> in_valset v h \<and> v \<notin> (!) (array_contents Execution h) ` set is)"
  using assms
proof (induction "is" arbitrary: h)
  case (Cons i "is")
  define E where "E = array_contents Execution h"
  have i: "i < length E"
    using Cons.prems(2) by (simp add: E_def)
  have len: "length E < 2 ^ 64"
    using valset_array.len_contents [of Execution h] unat_u64_less [of "array_length Execution h"] by (simp add: E_def)
  have get: "array_get Execution (word_of_nat i) h = E ! i"
    using valset_array.get_contents [of i Execution h] i by (simp add: E_def)
  define h1 where "h1 = remove_from_valset (E ! i) h"
  have m1: "modifies removal_vars h h1"
    by (auto simp: h1_def remove_from_valset_def Let_def val_bitset_bucket_def removal_vars_def intro!: modifies_store)
  have c1: "array_contents Execution h1 = E"
    by (simp add: h1_def remove_from_valset_def Let_def val_bitset_bucket_def array_contents_store E_def)
  have b1: "in_valset v h1 \<longleftrightarrow> v \<noteq> E ! i \<and> in_valset v h" for v
    unfolding h1_def by (rule bitset.isin_del)
  obtain h2 where pop: "array_pop Execution h1 = Inr (last E, h2)" and c2: "array_contents Execution h2 = butlast E"
    using valset_array.pop_contents [of Execution h1] c1 i by force
  define g where "g = array_set Execution (word_of_nat i) (last E) h2"
  have m2: "modifies ({ValsetLen Execution} \<union> range (ValsetElem Execution)) h1 g"
    using pop by (auto simp: g_def array_access array_pop_eq Let_def split: if_splits intro!: modifies_store)
  have cg: "array_contents Execution g = drop_swap E i"
    using array_contents_set [of i Execution "last E" h2] i len by (simp add: g_def c2 drop_swap_def)
  have bg: "in_valset v g \<longleftrightarrow> v \<noteq> E ! i \<and> in_valset v h" for v
    using in_valset_modifies [OF m2, of v] b1 by (auto simp: val_bitset_bucket_def)
  have mg: "modifies removal_vars h g"
    by (rule modifies_then [OF m1 m2]) (auto simp: removal_vars_def)
  have lower: "\<forall>j\<in>set is. j < i"
    using Cons.prems(1) by auto
  then have nth: "map ((!) (drop_swap E i)) is = map ((!) E) is"
    using i by simp
  have "sorted_wrt (>) is" "\<forall>j\<in>set is. j < length (array_contents Execution g)"
    using Cons.prems(1) lower i by (auto simp: cg)
  from Cons.IH [OF this] obtain h' where h': "process_removals is g = Inr h'" "modifies removal_vars g h'"
    "mset (array_contents Execution h') = mset (drop_swap E i) - mset (map ((!) E) is)"
    "\<And>v. in_valset v h' \<longleftrightarrow> in_valset v g \<and> v \<notin> set (map ((!) E) is)"
    unfolding cg nth set_map [symmetric] by blast
  have "process_removals (i # is) h = Inr h'"
    using pop h'(1) by (simp add: get h1_def g_def)
  moreover have "modifies removal_vars h h'"
    by (rule modifies_then [OF mg h'(2) order_refl])
  moreover have "mset (array_contents Execution h') = mset E - mset (map ((!) E) (i # is))"
    using h'(3) mset_drop_swap [OF i] by simp
  moreover have "in_valset v h' \<longleftrightarrow> in_valset v h \<and> v \<notin> (!) E ` set (i # is)" for v
    using h'(4) bg by auto
  ultimately show ?case
    unfolding E_def by blast
qed simp

section \<open>The whole system call\<close>

text \<open>Eligible validators: those of the execution set with clean flags; chosen are the first two hundred of
  them by stake, ties by id.\<close>

definition eligible :: "host \<Rightarrow> u64 list" where
  "eligible h = filter (flags_ok h) (array_contents Execution h)"

definition chosen :: "host \<Rightarrow> u64 list" where
  "chosen h = map fst (partial_sort (min (length (eligible h)) active_valset_size) cmp
     (map (\<lambda>v. (v, val_stake v h)) (eligible h)))"

definition snapshot_post :: "host \<Rightarrow> host \<Rightarrow> bool" where
  "snapshot_post h h' \<longleftrightarrow>
     array_contents Snapshot h' = array_contents Consensus h \<and>
     array_contents Consensus h' = chosen h \<and>
     mset (array_contents Execution h') = mset (eligible h) \<and>
     (\<forall>v. in_valset v h' \<longleftrightarrow> in_valset v h \<and> (v \<in> set (array_contents Execution h) \<longrightarrow> flags_ok h v)) \<and>
     (\<forall>v. load u256_be (SnapStake v) h' =
        (if v \<in> set (array_contents Consensus h) then load u256_be (ConsStake v) h
         else if v \<in> set (array_contents Snapshot h) then 0 else load u256_be (SnapStake v) h)) \<and>
     (\<forall>v. load u256_be (SnapCommission v) h' =
        (if v \<in> set (array_contents Consensus h) then load u256_be (ConsCommission v) h
         else if v \<in> set (array_contents Snapshot h) then 0 else load u256_be (SnapCommission v) h)) \<and>
     (\<forall>v. load u256_be (ConsStake v) h' =
        (if v \<in> set (chosen h) then val_stake v h
         else if v \<in> set (array_contents Consensus h) then 0 else load u256_be (ConsStake v) h)) \<and>
     (\<forall>v. load u256_be (ConsCommission v) h' =
        (if v \<in> set (chosen h) then val_commission v h
         else if v \<in> set (array_contents Consensus h) then 0 else load u256_be (ConsCommission v) h)) \<and>
     in_epoch_delay_period h'"

lemma snapshot_postD:
  assumes "snapshot_post h h'"
  shows "array_contents Snapshot h' = array_contents Consensus h" "array_contents Consensus h' = chosen h"
    "mset (array_contents Execution h') = mset (eligible h)"
    "in_valset v h' \<longleftrightarrow> in_valset v h \<and> (v \<in> set (array_contents Execution h) \<longrightarrow> flags_ok h v)"
    "load u256_be (SnapStake v) h' =
        (if v \<in> set (array_contents Consensus h) then load u256_be (ConsStake v) h
         else if v \<in> set (array_contents Snapshot h) then 0 else load u256_be (SnapStake v) h)"
    "load u256_be (SnapCommission v) h' =
        (if v \<in> set (array_contents Consensus h) then load u256_be (ConsCommission v) h
         else if v \<in> set (array_contents Snapshot h) then 0 else load u256_be (SnapCommission v) h)"
    "load u256_be (ConsStake v) h' =
        (if v \<in> set (chosen h) then val_stake v h
         else if v \<in> set (array_contents Consensus h) then 0 else load u256_be (ConsStake v) h)"
    "load u256_be (ConsCommission v) h' =
        (if v \<in> set (chosen h) then val_commission v h
         else if v \<in> set (array_contents Consensus h) then 0 else load u256_be (ConsCommission v) h)"
    "in_epoch_delay_period h'"
  using assms by (simp_all only: snapshot_post_def)

text \<open>The first half: the old consensus view becomes the snapshot view and the consensus view is emptied.\<close>

lemma snapshot_rotate:
  obtains h1 h2 where "throw_out_view Snapshot h = Inr h1"
    "throw_out_view Consensus (fold copy_view_step [0..<unat (array_length Consensus h1)] h1) = Inr h2"
    "modifies (view_vars Snapshot \<union> view_vars Consensus) h h2"
    "array_contents Snapshot h2 = array_contents Consensus h" "array_contents Consensus h2 = []"
    "\<forall>v. load u256_be (SnapStake v) h2 = (if v \<in> set (array_contents Consensus h) then load u256_be (ConsStake v) h
         else if v \<in> set (array_contents Snapshot h) then 0 else load u256_be (SnapStake v) h)"
    "\<forall>v. load u256_be (SnapCommission v) h2 = (if v \<in> set (array_contents Consensus h) then load u256_be (ConsCommission v) h
         else if v \<in> set (array_contents Snapshot h) then 0 else load u256_be (SnapCommission v) h)"
    "\<forall>v. load u256_be (ConsStake v) h2 = (if v \<in> set (array_contents Consensus h) then 0 else load u256_be (ConsStake v) h)"
    "\<forall>v. load u256_be (ConsCommission v) h2 =
       (if v \<in> set (array_contents Consensus h) then 0 else load u256_be (ConsCommission v) h)"
proof -
  let ?C = "array_contents Consensus h"
  have vars: "view_stake Snapshot v = SnapStake v" "view_commission Snapshot v = SnapCommission v"
    "view_stake Consensus v = ConsStake v" "view_commission Consensus v = ConsCommission v" for v
    by (simp_all add: view_stake_def view_commission_def)
  obtain h1 where h1: "throw_out_view Snapshot h = Inr h1" "array_contents Snapshot h1 = []" "modifies (view_vars Snapshot) h h1"
    "\<And>v. load u256_be (SnapStake v) h1 = (if v \<in> set (array_contents Snapshot h) then 0 else load u256_be (SnapStake v) h)"
    "\<And>v. load u256_be (SnapCommission v) h1 = (if v \<in> set (array_contents Snapshot h) then 0 else load u256_be (SnapCommission v) h)"
    using throw_out_view_spec [of Snapshot h] unfolding vars by blast
  have cons1: "array_contents Consensus h1 = ?C" "load u256_be (ConsStake v) h1 = load u256_be (ConsStake v) h"
    "load u256_be (ConsCommission v) h1 = load u256_be (ConsCommission v) h" for v
    using array_contents_modifies [OF h1(3), of Consensus] modifies_load(1) [OF h1(3), of "ConsStake v" u256_be]
      modifies_load(1) [OF h1(3), of "ConsCommission v" u256_be] by (auto simp: view_vars_def vars)
  define g where "g = fold copy_view_step [0..<unat (array_length Consensus h1)] h1"
  have len: "unat (array_length Consensus h1) = length ?C"
    by (simp add: valset_array.len_contents cons1)
  have g: "array_contents Snapshot g = ?C" "modifies copy_vars h1 g"
    "\<And>v. load u256_be (SnapStake v) g = (if v \<in> set ?C then load u256_be (ConsStake v) h else load u256_be (SnapStake v) h1)"
    "\<And>v. load u256_be (SnapCommission v) g = (if v \<in> set ?C then load u256_be (ConsCommission v) h else load u256_be (SnapCommission v) h1)"
    using copy_view_spec [OF h1(2), of "length ?C"] unfolding cons1 len g_def by simp_all
  have consg: "array_contents Consensus g = ?C" "load u256_be (ConsStake v) g = load u256_be (ConsStake v) h"
    "load u256_be (ConsCommission v) g = load u256_be (ConsCommission v) h" for v
    using array_contents_modifies [OF g(2), of Consensus] modifies_load(1) [OF g(2), of "ConsStake v" u256_be]
      modifies_load(1) [OF g(2), of "ConsCommission v" u256_be] cons1 by (auto simp: copy_vars_def)
  obtain h2 where h2: "throw_out_view Consensus g = Inr h2" "array_contents Consensus h2 = []" "modifies (view_vars Consensus) g h2"
    "\<And>v. load u256_be (ConsStake v) h2 = (if v \<in> set ?C then 0 else load u256_be (ConsStake v) h)"
    "\<And>v. load u256_be (ConsCommission v) h2 = (if v \<in> set ?C then 0 else load u256_be (ConsCommission v) h)"
    using throw_out_view_spec [of Consensus g] unfolding vars consg by blast
  have snap2: "array_contents Snapshot h2 = ?C" "load u256_be (SnapStake v) h2 = load u256_be (SnapStake v) g"
    "load u256_be (SnapCommission v) h2 = load u256_be (SnapCommission v) g" for v
    using array_contents_modifies [OF h2(3), of Snapshot] modifies_load(1) [OF h2(3), of "SnapStake v" u256_be]
      modifies_load(1) [OF h2(3), of "SnapCommission v" u256_be] g(1) by (auto simp: view_vars_def vars)
  have "modifies (view_vars Snapshot) h g"
    by (rule modifies_then [OF h1(3) g(2)]) (auto simp: view_vars_def copy_vars_def vars)
  then have "modifies (view_vars Snapshot \<union> view_vars Consensus) h h2"
    by (rule modifies_trans [OF _ h2(3)]) simp
  then show thesis
    using that [OF h1(1) h2(1) [unfolded g_def]] h2(2,4,5) snap2 g(3,4) h1(4,5) by simp
qed

lemma mset_minus_filter: "M - filter_mset (\<lambda>x. \<not> P x) M = filter_mset P M"
  by (simp add: multiset_eq_iff)

lemma sorted_removals: "sorted_wrt (>) (rev (filter P [0..<n]))" for n :: nat
  by (simp add: sorted_wrt_rev sorted_wrt_filter)

lemma nth_filter_image: "(!) xs ` set (filter (\<lambda>i. P (xs ! i)) [0..<length xs]) = {x \<in> set xs. P x}"
  by (auto simp: in_set_conv_nth)

lemma map_nth_filter: "map ((!) xs) (filter (\<lambda>i. P (xs ! i)) [0..<length xs]) = filter P xs"
proof -
  have "filter P xs = filter P (map ((!) xs) [0..<length xs])"
    by (simp only: map_nth)
  then show ?thesis
    by (simp add: filter_map comp_def)
qed

text \<open>The second half: the chosen validators become the consensus set, the others leave the execution set.\<close>

lemma snapshot_elect:
  assumes empty: "array_contents Consensus h = []"
  obtains h' where "process_removals (rev (snd (find_candidates h)))
      (fold select_step (partial_sort (min (length (fst (find_candidates h))) active_valset_size) cmp
        (fst (find_candidates h))) h) = Inr h'"
    "modifies (select_vars \<union> removal_vars) h h'" "array_contents Consensus h' = chosen h"
    "mset (array_contents Execution h') = mset (eligible h)"
    "\<forall>v. in_valset v h' \<longleftrightarrow> in_valset v h \<and> (v \<in> set (array_contents Execution h) \<longrightarrow> flags_ok h v)"
    "\<forall>v. load u256_be (ConsStake v) h' = (if v \<in> set (chosen h) then val_stake v h else load u256_be (ConsStake v) h)"
    "\<forall>v. load u256_be (ConsCommission v) h' =
       (if v \<in> set (chosen h) then val_commission v h else load u256_be (ConsCommission v) h)"
proof -
  let ?E = "array_contents Execution h" and ?c = "map (\<lambda>v. (v, val_stake v h)) (eligible h)"
  define cs where "cs = partial_sort (min (length (eligible h)) active_valset_size) cmp ?c"
  define rs where "rs = filter (\<lambda>i. \<not> flags_ok h (?E ! i)) [0..<length ?E]"
  have fc: "find_candidates h = (?c, rs)"
    by (simp add: find_candidates_spec eligible_def rs_def)
  have "set cs \<subseteq> set ?c"
    unfolding cs_def by (rule by_stake.partial_sort_subset)
  then have csv: "s = val_stake v h" if "(v, s) \<in> set cs" for v s
    using that by auto
  have csl: "length (array_contents Consensus h) + length cs < 2 ^ 64"
    by (simp add: empty cs_def by_stake.length_partial_sort active_valset_size_def)
  define g where "g = fold select_step cs h"
  have g: "array_contents Consensus g = chosen h" "modifies select_vars h g"
    "\<And>v. load u256_be (ConsStake v) g = (if v \<in> set (chosen h) then val_stake v h else load u256_be (ConsStake v) h)"
    "\<And>v. load u256_be (ConsCommission v) g = (if v \<in> set (chosen h) then val_commission v h else load u256_be (ConsCommission v) h)"
    using select_spec [OF csl csv] by (simp_all add: g_def empty chosen_def cs_def)
  have gs: "array_contents Execution g = ?E" "in_valset v g = in_valset v h" for v
    using array_contents_modifies [OF g(2), of Execution] in_valset_modifies [OF g(2), of v]
    by (auto simp: select_vars_def val_bitset_bucket_def)
  have "\<forall>i\<in>set (rev rs). i < length (array_contents Execution g)"
    by (simp add: rs_def gs)
  from process_removals_spec [OF _ this] obtain h' where h': "process_removals (rev rs) g = Inr h'"
    "modifies removal_vars g h'" "mset (array_contents Execution h') = mset ?E - mset (map ((!) ?E) (rev rs))"
    "\<And>v. in_valset v h' \<longleftrightarrow> in_valset v h \<and> v \<notin> (!) ?E ` set (rev rs)"
    unfolding gs using sorted_removals rs_def by blast
  have cons: "array_contents Consensus h' = chosen h" "load u256_be (ConsStake v) h' = load u256_be (ConsStake v) g"
    "load u256_be (ConsCommission v) h' = load u256_be (ConsCommission v) g" for v
    using array_contents_modifies [OF h'(2), of Consensus] g(1)
      modifies_load(1) [OF h'(2), of "ConsStake v" u256_be] modifies_load(1) [OF h'(2), of "ConsCommission v" u256_be]
    by (auto simp: removal_vars_def)
  have "mset (map ((!) ?E) (rev rs)) = mset (filter (\<lambda>v. \<not> flags_ok h v) ?E)"
    using map_nth_filter [of ?E "\<lambda>v. \<not> flags_ok h v"] by (simp only: rs_def rev_map [symmetric] mset_rev)
  then have ex: "mset (array_contents Execution h') = mset (eligible h)"
    using h'(3) by (simp add: eligible_def mset_minus_filter)
  have mem: "in_valset v h' \<longleftrightarrow> in_valset v h \<and> (v \<in> set ?E \<longrightarrow> flags_ok h v)" for v
    using h'(4) [of v] nth_filter_image [of ?E "\<lambda>v. \<not> flags_ok h v"] by (auto simp: rs_def)
  have m: "modifies (select_vars \<union> removal_vars) h h'"
    by (rule modifies_trans [OF g(2) h'(2)]) simp
  show thesis
    using that [of h'] h'(1) m cons(1) ex mem g(3,4) cons(2,3) by (simp add: fc g_def cs_def)
qed

theorem snapshot_correct:
  assumes "\<not> in_epoch_delay_period h"
  shows "\<exists>h'. syscall_snapshot [] 0 h = Inr h' \<and> snapshot_post h h'"
proof -
  let ?E = "array_contents Execution h" and ?C = "array_contents Consensus h" and ?S = "array_contents Snapshot h"
  obtain h1 h2 where rot: "throw_out_view Snapshot h = Inr h1"
    "throw_out_view Consensus (fold copy_view_step [0..<unat (array_length Consensus h1)] h1) = Inr h2"
    "modifies (view_vars Snapshot \<union> view_vars Consensus) h h2"
    "array_contents Snapshot h2 = ?C" "array_contents Consensus h2 = []"
    "\<forall>v. load u256_be (SnapStake v) h2 = (if v \<in> set ?C then load u256_be (ConsStake v) h
         else if v \<in> set ?S then 0 else load u256_be (SnapStake v) h)"
    "\<forall>v. load u256_be (SnapCommission v) h2 = (if v \<in> set ?C then load u256_be (ConsCommission v) h
         else if v \<in> set ?S then 0 else load u256_be (SnapCommission v) h)"
    "\<forall>v. load u256_be (ConsStake v) h2 = (if v \<in> set ?C then 0 else load u256_be (ConsStake v) h)"
    "\<forall>v. load u256_be (ConsCommission v) h2 = (if v \<in> set ?C then 0 else load u256_be (ConsCommission v) h)"
    by (rule snapshot_rotate [of h])
  have no: "y \<notin> view_vars Snapshot \<union> view_vars Consensus"
    if "y = ValsetLen Execution \<or> (\<exists>i. y = ValsetElem Execution i) \<or> (\<exists>v. y = VAddressFlags v) \<or> (\<exists>v. y = VStake v) \<or>
        (\<exists>v. y = VCommission v) \<or> (\<exists>v. y = ValBitset v)" for y
    using that by (auto simp: view_vars_def view_stake_def view_commission_def)
  have same: "array_contents Execution h2 = ?E" "get_flags v h2 = get_flags v h" "val_stake v h2 = val_stake v h"
    "val_commission v h2 = val_commission v h" "in_valset v h2 = in_valset v h" for v
    using array_contents_modifies [OF rot(3), of Execution] address_flags_modifies(1) [OF rot(3), of v]
      modifies_load(1) [OF rot(3), of "VStake v" u256_be] modifies_load(1) [OF rot(3), of "VCommission v" u256_be]
      in_valset_modifies [OF rot(3), of v] no by (auto simp: val_bitset_bucket_def)
  have el: "eligible h2 = eligible h" "chosen h2 = chosen h"
    by (simp_all add: eligible_def chosen_def same)
  obtain h3 where h3: "process_removals (rev (snd (find_candidates h2)))
      (fold select_step (partial_sort (min (length (fst (find_candidates h2))) active_valset_size) cmp
        (fst (find_candidates h2))) h2) = Inr h3"
    "modifies (select_vars \<union> removal_vars) h2 h3" "array_contents Consensus h3 = chosen h"
    "mset (array_contents Execution h3) = mset (eligible h)"
    "\<forall>v. in_valset v h3 \<longleftrightarrow> in_valset v h \<and> (v \<in> set ?E \<longrightarrow> flags_ok h v)"
    "\<forall>v. load u256_be (ConsStake v) h3 = (if v \<in> set (chosen h) then val_stake v h else load u256_be (ConsStake v) h2)"
    "\<forall>v. load u256_be (ConsCommission v) h3 =
       (if v \<in> set (chosen h) then val_commission v h else load u256_be (ConsCommission v) h2)"
    by (rule snapshot_elect [OF rot(5), unfolded same el])
  have snap: "array_contents Snapshot h3 = ?C" "load u256_be (SnapStake v) h3 = load u256_be (SnapStake v) h2"
    "load u256_be (SnapCommission v) h3 = load u256_be (SnapCommission v) h2" for v
    using array_contents_modifies [OF h3(2), of Snapshot] modifies_load(1) [OF h3(2), of "SnapStake v" u256_be]
      modifies_load(1) [OF h3(2), of "SnapCommission v" u256_be] rot(4)
    by (auto simp: select_vars_def removal_vars_def)
  define h' where "h' = store bool_codec InBoundary True h3"
  have "syscall_snapshot [] 0 h = Inr h'"
    using assms rot(1,2) h3(1) by (simp add: syscall_snapshot_def Let_def case_prod_unfold h'_def)
  moreover have "in_valset v h' = in_valset v h3" for v
    by (simp add: in_valset_def h'_def val_bitset_bucket_def)
  then have "snapshot_post h h'"
    using h3(3-7) snap rot(6-9) by (auto simp: snapshot_post_def h'_def array_contents_store)
  ultimately show ?thesis
    by blast
qed

end
