(* ===== verification/Validators.thy ===== *)
theory Validators
  imports Snapshot StakeSums
begin

text \<open>
  The invariants of validators over all reachable states: the execution set, the conditions that the
  flags of a validator stand for, and the views that consensus reads.
\<close>

section \<open>The execution set\<close>

lemma create_validator_loads:
  assumes "create_validator s b m h = Inr (v, h')"
  shows "last_val_id h' = v" "address_flags v h' = \<lparr>auth_address = m_auth_address m, flags = ValidatorFlagsStakeTooLow\<rparr>"
    "val_commission v h' = m_commission m"
  using assms by (auto simp: create_validator_def Let_def event_defs split: if_splits)

lemma snapshot_postI:
  assumes "syscall_snapshot data x h = Inr h'"
  shows "\<not> in_epoch_delay_period h" "snapshot_post h h'"
proof -
  have "x = 0 \<and> data = [] \<and> \<not> in_epoch_delay_period h"
    using assms by (auto elim: snapshotE)
  then show "\<not> in_epoch_delay_period h" "snapshot_post h h'"
    using assms snapshot_correct [of h] by auto
qed

lemma create_validator_valset_inv:
  assumes "create_validator s b m h = Inr (v, h')" and "valset_inv h" and "in_range h" and "val_exists v h'"
  shows "valset_inv h'"
proof -
  note m = create_validator_frame(2) [OF assms(1)] and inv = valset_invD [OF assms(2)]
  have v: "v = last_val_id h + 1"
    by (rule create_validator_frame(1) [OF assms(1)])
  have uv: "unat v = unat (last_val_id h) + 1"
    using assms(3) by (simp add: v in_range_def unat_word_ariths)
  have arr: "array_contents Execution h' = array_contents Execution h" "in_valset u h' = in_valset u h" for u
    using array_contents_modifies [OF m, of Execution] in_valset_modifies [OF m, of u]
    by (auto simp: write_set_iffs val_bitset_bucket_def)
  have old: "get_flags u h' = get_flags u h" "val_exists u h' = val_exists u h" if "u \<noteq> v" for u
    using address_flags_modifies [OF m, of u] that by (auto simp: write_set_iffs)
  have ids: "u \<noteq> 0 \<and> u \<le> v \<longleftrightarrow> u = v \<or> (u \<noteq> 0 \<and> u \<le> last_val_id h)" for u
    using uv by (auto simp: word_le_nat_alt word_unat_eq_iff)
  have new: "\<not> in_valset v h" "get_flags v h' \<noteq> ValidatorFlagsOk"
    using inv(3,4) [of v] uv create_validator_loads(2) [OF assms(1)]
    by (auto simp: word_le_nat_alt get_flags_def ValidatorFlagsOk_def ValidatorFlagsStakeTooLow_def)
  have ex: "val_exists u h' \<longleftrightarrow> u \<noteq> 0 \<and> u \<le> v" for u
    using ids [of u] old(2) [of u] inv(3) [of u] assms(4) by (cases "u = v") auto
  show ?thesis
    unfolding valset_inv_def arr create_validator_loads(1) [OF assms(1)]
  proof (intro conjI allI impI)
    fix u
    show "val_exists u h'" if "in_valset u h"
      using that new(1) inv(4) [of u] old(2) [of u] by (cases "u = v") simp_all
    show "in_valset u h" if "val_exists u h' \<and> get_flags u h' = ValidatorFlagsOk"
      using that new(2) inv(5) [of u] old [of u] by (cases "u = v") simp_all
  qed (fact inv(1), fact inv(2), fact ex)
qed

lemma snapshot_valset_inv:
  assumes "syscall_snapshot data x h = Inr h'" and "valset_inv h"
  shows "valset_inv h'"
proof -
  note m = snapshot_frame [OF assms(1)] and inv = valset_invD [OF assms(2)]
  note post = snapshot_postD [OF snapshot_postI(2) [OF assms(1)]]
  have same: "get_flags u h' = get_flags u h" "val_exists u h' = val_exists u h" "last_val_id h' = last_val_id h" for u
    using address_flags_modifies [OF m, of u] modifies_load(1) [OF m, of LastValId u64_be] by (auto simp: write_set_iffs)
  have d: "distinct (array_contents Execution h')"
    using mset_eq_imp_distinct_iff [OF post(3)] inv(1) by (simp add: eligible_def)
  have set: "set (array_contents Execution h') = set (eligible h)"
    by (rule mset_eq_setD [OF post(3)])
  have mem: "in_valset u h' \<longleftrightarrow> in_valset u h \<and> flags_ok h u" for u
    using post(4) [of u] inv(2) [of u] by blast
  show ?thesis
    unfolding valset_inv_def same
  proof (intro conjI allI impI)
    fix u
    show "in_valset u h' \<longleftrightarrow> u \<in> set (array_contents Execution h')"
      using mem [of u] inv(2) [of u] by (simp add: set eligible_def)
    show "val_exists u h" if "in_valset u h'"
      using that mem [of u] inv(4) [of u] by blast
    show "in_valset u h'" if "val_exists u h \<and> flags_ok h u"
      using that mem [of u] inv(5) [of u] by blast
  qed (fact d, fact inv(3))
qed

interpretation valsets: quiet_invariant valset_inv
proof
  fix h h' :: host and t a x data v
  show "valset_inv h" if "storage h = (\<lambda>_. 0)"
  proof -
    have "array_contents Execution h = []" "\<not> in_valset v h" "\<not> val_exists v h" "last_val_id h = 0" for v
      using that by (simp_all add: array_contents_eq in_valset_def val_exists_def val_auth_address_def load_def
          sv_u64.load_zero_storage sv_u256.load_zero_storage sv_flags.load_zero_storage val_bitset_bucket_def)
    then show ?thesis
      by (simp add: valset_inv_def)
  qed
  show "valset_inv h'" if "valset_inv h" "modifies (Collect quiet) h h'"
    using that by (rule valset_inv_modifies) (auto simp: valset_vars_def)
qed (auto intro: create_validator_valset_inv delegate_valset_inv undelegate_valset_inv snapshot_valset_inv)

section \<open>What clean flags mean\<close>

definition enough_stake :: "u64 \<Rightarrow> host \<Rightarrow> bool" where
  "enough_stake v h \<longleftrightarrow> (get_flags v h AND ValidatorFlagsStakeTooLow = 0 \<longrightarrow>
     unat (active_validator_stake MONAD_FIVE) \<le> unat (val_stake v h))"

definition enough_self_stake :: "u64 \<Rightarrow> host \<Rightarrow> bool" where
  "enough_self_stake v h \<longleftrightarrow> (get_flags v h AND ValidatorFlagWithdrawn = 0 \<longrightarrow>
     unat min_auth_address_stake \<le> position v (val_auth_address v h) h)"

definition validator_ok :: "u64 \<Rightarrow> host \<Rightarrow> bool" where
  "validator_ok v h \<longleftrightarrow> (val_exists v h \<longrightarrow>
     enough_stake v h \<and> enough_self_stake v h \<and> val_commission v h \<le> max_commission)"

definition eligible_inv :: "host \<Rightarrow> bool" where
  "eligible_inv h \<longleftrightarrow> (\<forall>v. validator_ok v h)"

lemma validator_ok_modifies:
  assumes m: "modifies X h h'" and "{VAddressFlags v, VStake v, VCommission v} \<inter> X = {}"
    and "\<And>a. position v a h' = position v a h"
  shows "validator_ok v h' = validator_ok v h"
  using address_flags_modifies [OF m, of v] modifies_load(1) [OF m, of _ u256_be] assms(2,3)
  by (simp add: validator_ok_def enough_stake_def enough_self_stake_def)

lemma eligible_inv_modifies:
  assumes "eligible_inv h" and m: "modifies X h h'" and "\<And>v. {VAddressFlags v, VStake v, VCommission v} \<inter> X = {}"
    and "\<And>v a. position_vars v a \<inter> X = {}"
  shows "eligible_inv h'"
  using assms(1) validator_ok_modifies [OF m assms(3)] position_modifies(1) [OF m] assms(4)
  by (simp add: eligible_inv_def Int_commute)

text \<open>An operation on one validator keeps the conditions of all others.\<close>

lemma eligible_inv_one:
  assumes "eligible_inv h" and m: "modifies X h h'" and "validator_ok v h'"
    and "\<And>u. u \<noteq> v \<Longrightarrow> {VAddressFlags u, VStake u, VCommission u} \<inter> X = {}"
    and "\<And>u a. u \<noteq> v \<Longrightarrow> position_vars u a \<inter> X = {}"
  shows "eligible_inv h'"
  unfolding eligible_inv_def
proof
  fix u
  show "validator_ok u h'"
  proof (cases "u = v")
    case False
    have "position u a h' = position u a h" for a
      by (rule position_modifies(1) [OF m]) (use assms(5) [OF False] in \<open>simp add: Int_commute\<close>)
    then show ?thesis
      using validator_ok_modifies [OF m assms(4) [OF False]] assms(1) by (simp add: eligible_inv_def)
  qed (simp add: assms(3))
qed

lemma active_validator_stake_least: "unat (active_validator_stake MONAD_FIVE) \<le> unat (active_validator_stake t)"
  by (simp add: active_validator_stake_def MON_def)

lemma and_not_disjoint: "a AND b = 0 \<Longrightarrow> (x AND NOT a) AND b = x AND b" for a b x :: u64
proof (rule bit_word_eqI)
  fix n
  assume "a AND b = 0"
  then have "\<not> (bit a n \<and> bit b n)"
    by (metis bit_and_iff bit_0_eq bot_apply bot_bool_def)
  then show "bit ((x AND NOT a) AND b) n = bit (x AND b) n" if "n < LENGTH(64)"
    using that by (auto simp: bit_and_iff bit_not_iff)
qed

lemma flag_bits [simp]:
  "(x AND NOT ValidatorFlagsStakeTooLow) AND ValidatorFlagWithdrawn = x AND ValidatorFlagWithdrawn"
  "(x AND NOT ValidatorFlagWithdrawn) AND ValidatorFlagsStakeTooLow = x AND ValidatorFlagsStakeTooLow"
  using and_not_disjoint [of ValidatorFlagsStakeTooLow ValidatorFlagWithdrawn x]
    and_not_disjoint [of ValidatorFlagWithdrawn ValidatorFlagsStakeTooLow x]
  by (simp_all add: ValidatorFlagsStakeTooLow_def ValidatorFlagWithdrawn_def)

lemma next_epoch_stake_le: "unat (get_next_epoch_stake v a h) \<le> position v a h"
  by (simp add: get_next_epoch_stake_def position_def unat_word_ariths)

lemma get_next_epoch_stake_flag [simp]:
  "get_next_epoch_stake v a (set_flag u f h) = get_next_epoch_stake v a h"
  "get_next_epoch_stake v a (clear_flag u f h) = get_next_epoch_stake v a h"
  by (simp_all add: get_next_epoch_stake_def set_flag_def clear_flag_def Let_def)

lemma or_flag: "(x OR f) AND g = 0 \<longleftrightarrow> x AND g = 0 \<and> f AND g = 0" for x f g :: u64
  by (simp add: bit.conj_disj_distrib2 or_eq_0_iff)

lemma delegate_flags_value:
  "get_flags v (delegate_flags t v n a h) =
     (let f = (if active_validator_stake t \<le> n then get_flags v h AND NOT ValidatorFlagsStakeTooLow else get_flags v h)
      in if val_auth_address v h = a \<and> min_auth_address_stake \<le> get_next_epoch_stake v a h
         then f AND NOT ValidatorFlagWithdrawn else f)"
  by (simp add: delegate_flags_def Let_def event_defs)

lemma undelegate_flags_value:
  "get_flags v (undelegate_flags t v n a h) =
     (let f = (if a = val_auth_address v h \<and> get_next_epoch_stake v a h < min_auth_address_stake
               then get_flags v h OR ValidatorFlagWithdrawn else get_flags v h)
      in if n < active_validator_stake t then f OR ValidatorFlagsStakeTooLow else f)"
  by (auto simp: undelegate_flags_def Let_def event_defs)

lemma delegate_flags_clear:
  "get_flags v (delegate_flags t v n a h) AND ValidatorFlagsStakeTooLow = 0 \<Longrightarrow>
     get_flags v h AND ValidatorFlagsStakeTooLow = 0 \<or> active_validator_stake t \<le> n"
  "get_flags v (delegate_flags t v n a h) AND ValidatorFlagWithdrawn = 0 \<Longrightarrow>
     get_flags v h AND ValidatorFlagWithdrawn = 0 \<or>
     val_auth_address v h = a \<and> min_auth_address_stake \<le> get_next_epoch_stake v a h"
  by (auto simp: delegate_flags_value Let_def split: if_splits)

lemma undelegate_flags_clear:
  "get_flags v (undelegate_flags t v n a h) AND ValidatorFlagsStakeTooLow = 0 \<Longrightarrow>
     get_flags v h AND ValidatorFlagsStakeTooLow = 0 \<and> active_validator_stake t \<le> n"
  "get_flags v (undelegate_flags t v n a h) AND ValidatorFlagWithdrawn = 0 \<Longrightarrow>
     get_flags v h AND ValidatorFlagWithdrawn = 0 \<and>
     (val_auth_address v h = a \<longrightarrow> min_auth_address_stake \<le> get_next_epoch_stake v a h)"
  by (auto simp: undelegate_flags_value Let_def or_flag not_less ValidatorFlagsStakeTooLow_def ValidatorFlagWithdrawn_def
      split: if_splits)

lemma delegate_eligible:
  assumes "delegate t v s a h = Inr h'" and "stake_inv h" and "unat (epoch h) < 2 ^ 64 - 2"
  shows "enough_stake v h \<Longrightarrow> enough_stake v h'"
    and "enough_self_stake v h \<or> a = val_auth_address v h \<and> min_auth_address_stake \<le> s \<Longrightarrow> enough_self_stake v h'"
    and "val_auth_address v h' = val_auth_address v h"
proof -
  obtain h1 h2 n h3 where 1: "val_exists v h" "pull_delegator_up_to_date v a h = Inr h1" "delegate_stake v s a h1 = Inr h2"
    "checked_add (val_stake v h2) s = Inr n"
    "linked_list_insert delegators_of v a (delegate_valset v (delegate_flags t v n a (store u256_be (VStake v) n h2))) = Inr h3"
    "linked_list_insert validators_of a v h3 = Inr h'"
    using assms(1) by (rule delegateE)
  let ?k = "store u256_be (VStake v) n h2"
  have m: "modifies (pull_vars v a) h h2"
    by (rule modifies_then [OF pull_frame [OF 1(2)] delegate_stake_frame [OF 1(3)] order_refl])
  have k: "val_stake v h2 = val_stake v h" "get_flags v ?k = get_flags v h" "val_auth_address v ?k = val_auth_address v h"
    using modifies_load(1) [OF m, of "VStake v" u256_be] address_flags_modifies [OF m, of v]
    by (simp_all add: write_set_iffs get_flags_def val_auth_address_def)
  have f: "get_flags v h' = get_flags v (delegate_flags t v n a ?k)"
    and auth: "val_auth_address v h' = val_auth_address v h"
    using address_flags_modifies [OF delegate_after_flags(1) [OF 1(5,6)], of v] k(3) by (auto simp: val_bitset_bucket_def)
  have n: "val_stake v h' = n" "unat n = unat (val_stake v h) + unat s"
    using modifies_load(1) [OF delegate_after_stake [OF 1(5,6)], of "VStake v" u256_be] 1(4) k(1)
    by (auto simp: val_bitset_bucket_def checked_add_Inr)
  have pos: "position v b h' = position v b ?k" for b
    using position_modifies(1) [OF delegate_after_stake [OF 1(5,6)], of v b] by (auto simp: position_vars_def val_bitset_bucket_def)
  have up: "position v b h \<le> position v b h'" for b
    using delegate_stake_inv(2) [OF assms] position_modifies(1) [OF delegate_frame [OF assms(1)], of v b]
    by (cases "b = a") (auto simp: position_vars_def write_set_iffs val_bitset_bucket_def)
  show "val_auth_address v h' = val_auth_address v h"
    by (rule auth)
  show "enough_stake v h'" if "enough_stake v h"
    using that delegate_flags_clear(1) [of v t n a ?k] active_validator_stake_least [of t]
    by (auto simp: enough_stake_def f n k word_le_nat_alt)
  show "enough_self_stake v h'" if "enough_self_stake v h \<or> a = val_auth_address v h \<and> min_auth_address_stake \<le> s"
    unfolding enough_self_stake_def f auth
  proof
    assume "get_flags v (delegate_flags t v n a ?k) AND ValidatorFlagWithdrawn = 0"
    then consider "get_flags v h AND ValidatorFlagWithdrawn = 0"
      | "val_auth_address v h = a" "min_auth_address_stake \<le> get_next_epoch_stake v a ?k"
      using delegate_flags_clear(2) [of v t n a ?k] k by auto
    then show "unat min_auth_address_stake \<le> position v (val_auth_address v h) h'"
    proof cases
      case 1
      then show ?thesis
        using that up [of "val_auth_address v h"] delegate_stake_inv(2) [OF assms]
        by (auto simp: enough_self_stake_def word_le_nat_alt)
    next
      case 2
      then show ?thesis
        using next_epoch_stake_le [of v a ?k] pos [of a] by (simp add: word_le_nat_alt)
    qed
  qed
qed

lemma undelegate_eligible:
  assumes "undelegate t v n w a h = Inr h'"
  shows "(enough_stake v h \<longrightarrow> enough_stake v h') \<and> (enough_self_stake v h \<longrightarrow> enough_self_stake v h') \<and>
    val_auth_address v h' = val_auth_address v h"
  using assms
proof (cases rule: undelegateE)
  case (2 h1 n' vs ds h2)
  let ?g = "store u256_be (DStake v a) ds (store u256_be (VStake v) vs h1)"
  let ?f = "undelegate_flags t v vs a ?g"
  have m: "modifies (pull_vars v a \<union> {VStake v, DStake v a}) h ?g"
    by (intro modifies_store modifies_mono [OF pull_frame [OF 2(4)]]) auto
  have g: "get_flags v ?g = get_flags v h" "val_auth_address v ?g = val_auth_address v h" "val_stake v ?g = vs"
    using address_flags_modifies [OF m, of v] by (simp_all add: write_set_iffs)
  have l: "modifies list_nodes h2 h'"
    using 2(8) list_frame(3,4) modifies_then [OF _ _ order_refl] by fastforce
  have l': "modifies ({Withdrawal v a w, DAcc v a} \<union> range (\<lambda>e. Accumulator e v) \<union> list_nodes) ?f h'" (is "modifies ?Y _ _")
    by (rule modifies_then [OF modifies_mono l]) (use record_withdrawal_after_flags 2(7) in blast)+
  have f: "get_flags v h' = get_flags v ?f" "val_auth_address v h' = val_auth_address v ?f" "val_stake v h' = val_stake v ?f"
    using address_flags_modifies [OF l', of v] modifies_load(1) [OF l', of "VStake v" u256_be] by auto
  have k: "val_auth_address v ?f = val_auth_address v ?g" "val_stake v ?f = vs"
    using flags_auth_ops(2) [of v t v vs a ?g] modifies_load(1) [OF flags_frame(2), of "VStake v" v u256_be t vs a ?g] by auto
  have g': "modifies (insert (VAddressFlags v) ?Y) ?g h'"
    by (rule modifies_then [OF modifies_mono [OF flags_frame(2)] l']) auto
  have pos: "position v b h' = position v b ?g" for b
    by (rule position_modifies(1) [OF g']) (auto simp: position_vars_def)
  have other: "position v b h' = position v b h" if "b \<noteq> a" for b
    using position_modifies(1) [OF undelegate_frame [OF assms], of v b] that by (auto simp: position_vars_def write_set_iffs)
  have "enough_stake v h'"
    using undelegate_flags_clear(1) [of v t vs a ?g] active_validator_stake_least [of t]
    by (auto simp: enough_stake_def f k word_le_nat_alt)
  moreover have "enough_self_stake v h'" if "enough_self_stake v h"
    unfolding enough_self_stake_def f k g
  proof
    assume "get_flags v ?f AND ValidatorFlagWithdrawn = 0"
    then have "get_flags v h AND ValidatorFlagWithdrawn = 0"
      "val_auth_address v h = a \<longrightarrow> min_auth_address_stake \<le> get_next_epoch_stake v a ?g"
      using undelegate_flags_clear(2) [of v t vs a ?g] unfolding g by blast+
    then show "unat min_auth_address_stake \<le> position v (val_auth_address v h) h'"
      using that other [of "val_auth_address v h"] pos [of a] next_epoch_stake_le [of v a ?g]
      by (cases "val_auth_address v h = a") (auto simp: enough_self_stake_def word_le_nat_alt)
  qed
  ultimately show ?thesis
    by (simp add: f k g)
qed auto

lemma delegate_eligible_inv:
  assumes "delegate t v s a h = Inr h'" and "stake_inv h" and "unat (epoch h) < 2 ^ 64 - 2" and "eligible_inv h"
  shows "eligible_inv h'"
proof (rule eligible_inv_one [OF assms(4) delegate_frame [OF assms(1)], of v])
  have "val_commission v h' = val_commission v h"
    by (rule modifies_load(1) [OF delegate_frame [OF assms(1)]]) (simp_all add: write_set_iffs val_bitset_bucket_def)
  then show "validator_ok v h'"
    using delegate_eligible [OF assms(1-3)] assms(4) by (auto simp: eligible_inv_def validator_ok_def val_exists_def)
qed (auto simp: write_set_iffs position_vars_def val_bitset_bucket_def)

lemma undelegate_eligible_inv:
  assumes "undelegate t v n w a h = Inr h'" and "eligible_inv h"
  shows "eligible_inv h'"
proof (rule eligible_inv_one [OF assms(2) undelegate_frame [OF assms(1)], of v])
  have "val_commission v h' = val_commission v h"
    by (rule modifies_load(1) [OF undelegate_frame [OF assms(1)]]) (simp_all add: write_set_iffs)
  then show "validator_ok v h'"
    using undelegate_eligible [OF assms(1)] assms(2) by (auto simp: eligible_inv_def validator_ok_def val_exists_def)
qed (auto simp: write_set_iffs position_vars_def)

lemma pull_eligible_inv:
  assumes "pull_delegator_up_to_date v a h = Inr h'" and "stake_inv h" and "eligible_inv h"
  shows "eligible_inv h'"
proof -
  note m = pull_frame [OF assms(1)]
  have "position u b h' = position u b h" for u b
    using pull_position [OF assms(1)] position_modifies(1) [OF m, of u b] assms(2)
    by (cases "(u, b) = (v, a)") (auto simp: stake_inv_def position_vars_def write_set_iffs)
  then show ?thesis
    using validator_ok_modifies [OF m] assms(3) by (simp add: eligible_inv_def write_set_iffs)
qed

lemma compound_eligible_inv:
  assumes "compound t v a h = Inr h'" and "stake_inv h" and "unat (epoch h) < 2 ^ 64 - 2" and "eligible_inv h"
  shows "eligible_inv h'"
proof -
  have reset: "stake_inv (store u256_be (DRewards v a) x h1)" "eligible_inv (store u256_be (DRewards v a) x h1)"
    if "pull_delegator_up_to_date v a h = Inr h1" for x h1
    using stake_inv_modifies [OF pull_stake_inv [OF that assms(2)], of "{DRewards v a}"]
      eligible_inv_modifies [OF pull_eligible_inv [OF that assms(2,4)], of "{DRewards v a}"]
    by (simp_all add: position_vars_def modifies_store)
  show ?thesis
    using assms(1)
  proof (cases rule: compoundE)
    case (2 h1)
    let ?g = "emit_claim_rewards_event v a (del_rewards v a h1) (store u256_be (DRewards v a) 0 h1)"
    have m: "modifies {} (store u256_be (DRewards v a) 0 h1) ?g"
      unfolding event_defs by (intro modifies_emit_log modifies_refl)
    have "stake_inv ?g" "eligible_inv ?g"
      using stake_inv_modifies [OF reset(1) [OF 2(1)] m] eligible_inv_modifies [OF reset(2) [OF 2(1)] m] by simp_all
    moreover have "epoch ?g = epoch h"
      using modifies_load(1) [OF pull_frame [OF 2(1)], of Epoch u64_be] by (simp add: event_defs write_set_iffs)
    ultimately show ?thesis
      using delegate_eligible_inv [OF 2(3)] assms(3) by simp
  qed (simp add: reset)
qed

text \<open>A new validator starts with the flag of low stake only, and its creator delegates the least stake at once.\<close>

lemma add_validator_eligible_inv:
  assumes "create_validator s b m h = Inr (v, h1)" and "delegate t v x (m_auth_address m) h1 = Inr h'"
    and "m_commission m \<le> max_commission" and "min_auth_address_stake \<le> x"
    and "stake_inv h" and "eligible_inv h" and "in_range h"
  shows "eligible_inv h'"
proof (rule eligible_inv_one)
  note c = create_validator_frame(2) [OF assms(1)] and d = delegate_frame [OF assms(2)]
  show "modifies (create_vars s b v \<union> delegate_vars v (m_auth_address m)) h h'"
    by (rule modifies_trans [OF c d]) simp
  have "stake_inv h1" "epoch h1 = epoch h"
    using stake_inv_modifies [OF assms(5) c] modifies_load(1) [OF c, of Epoch u64_be]
    by (auto simp: write_set_iffs position_vars_def)
  note e = delegate_eligible [OF assms(2) this(1)] and e' = this(2)
  have "val_commission v h' = m_commission m"
    using create_validator_loads(3) [OF assms(1)] modifies_load(1) [OF d, of "VCommission v" u256_be]
    by (auto simp: write_set_iffs val_bitset_bucket_def)
  moreover have "enough_stake v h1" "val_auth_address v h1 = m_auth_address m"
    using create_validator_loads(2) [OF assms(1)]
    by (simp_all add: enough_stake_def get_flags_def val_auth_address_def ValidatorFlagsStakeTooLow_def)
  ultimately show "validator_ok v h'"
    using e e' assms(3,4,7) by (simp add: validator_ok_def in_range_def)
qed (use assms(6) in \<open>auto simp: write_set_iffs position_vars_def val_bitset_bucket_def\<close>)

interpretation eligibles: relative_invariant stake_inv eligible_inv
proof
  fix h h' :: host and t a x data v
  show "eligible_inv h" if "storage h = (\<lambda>_. 0)"
    using that by (simp add: eligible_inv_def validator_ok_def val_exists_def val_auth_address_def load_def sv_flags.load_zero_storage)
  show "eligible_inv h'" if "eligible_inv h" "storage h' = storage h"
    by (rule eligible_inv_modifies [OF that(1) modifies_storage [OF that(2)], of "{}"]) simp_all
  show "eligible_inv h'" if "stake_inv h" "eligible_inv h" "in_range h" "contract_op t a x h h'"
    using that(4)
  proof (cases rule: contract_op.cases)
    case (op_add_validator m s b v h1)
    then show ?thesis
      using add_validator_eligible_inv that(1-3) by blast
  next
    case (op_withdraw v w)
    then show ?thesis
      using eligible_inv_modifies [OF that(2) withdraw_frame] by (auto simp: write_set_iffs position_vars_def)
  next
    case (op_claim v)
    obtain h1 where 1: "pull_delegator_up_to_date v a h = Inr h1" and m: "modifies {DRewards v a} h1 h'"
      using op_claim(2) by (rule claim_after_pull)
    then show ?thesis
      using eligible_inv_modifies [OF pull_eligible_inv [OF 1 that(1,2)] m] by (auto simp: position_vars_def)
  next
    case (op_commission v c)
    note m = change_commission_frame [OF op_commission(2)]
    have "val_commission v h' = val_commission v h \<or> val_commission v h' = c \<and> c \<le> max_commission"
      using op_commission(2) by (auto simp: change_commission_def Let_def event_defs not_less split: if_splits)
    then have "validator_ok v h'"
      using that(2) address_flags_modifies [OF m, of v] modifies_load(1) [OF m, of "VStake v" u256_be]
        position_modifies(1) [OF m]
      by (auto simp: eligible_inv_def validator_ok_def enough_stake_def enough_self_stake_def position_vars_def)
    then show ?thesis
      by (rule eligible_inv_one [OF that(2) m]) (auto simp: position_vars_def)
  next
    case (op_external v)
    then show ?thesis
      using eligible_inv_modifies [OF that(2) external_reward_frame] by (auto simp: position_vars_def)
  qed (use that in \<open>auto simp: in_range_def intro: pull_eligible_inv delegate_eligible_inv undelegate_eligible_inv compound_eligible_inv\<close>)
  show "eligible_inv h'" if "eligible_inv h" "syscall_reward t data x h = Inr h'"
    using reward_frame [OF that(2)] eligible_inv_modifies [OF that(1)] by (fastforce simp: write_set_iffs position_vars_def)
  show "eligible_inv h'" if "eligible_inv h" "syscall_snapshot data x h = Inr h'"
    using that(1) snapshot_frame [OF that(2)] by (rule eligible_inv_modifies) (auto simp: write_set_iffs position_vars_def)
  show "eligible_inv h'" if "eligible_inv h" "syscall_on_epoch_change data x h = Inr h'"
    using that(1) epoch_change_frame [OF that(2)] by (rule eligible_inv_modifies) (auto simp: write_set_iffs position_vars_def)
  show "eligible_inv (store u64_be ProposerValId v h)" if "eligible_inv h"
    using that by (rule eligible_inv_modifies [where X = "{ProposerValId}"]) (auto simp: position_vars_def intro: modifies_store)
qed

text \<open>C5. In every reachable state the execution set is represented twice, by an array and by a bit set, and the
  two agree: the array has no duplicates, it lists exactly the validators whose bit is set, every
  listed validator exists, and no eligible validator (one without flags) is missing from it.\<close>

theorem execution_set_exact:
  assumes "reachable h"
  shows "distinct (array_contents Execution h) \<and> set (array_contents Execution h) = {v. in_valset v h} \<and>
    {v. val_exists v h \<and> get_flags v h = ValidatorFlagsOk} \<subseteq> set (array_contents Execution h) \<and>
    set (array_contents Execution h) \<subseteq> {v. val_exists v h} \<and>
    {v. val_exists v h} = {v. v \<noteq> 0 \<and> v \<le> last_val_id h}"
  using valset_invD [OF valsets.storage.reachable [OF assms]] by blast

text \<open>C17. In every reachable state the flags of a validator mean what they say: a validator without the flag of
  low stake has at least the least active stake of any revision, one that is not withdrawn has an owner
  whose own position is at least the required one, and no commission is above the maximum.\<close>

theorem flags_are_truthful:
  assumes "reachable h" and "val_exists v h"
  shows "(get_flags v h AND ValidatorFlagsStakeTooLow = 0 \<longrightarrow> unat (10000000 * MON) \<le> unat (val_stake v h)) \<and>
    (get_flags v h AND ValidatorFlagWithdrawn = 0 \<longrightarrow>
       unat min_auth_address_stake \<le> unat (get_next_epoch_stake v (val_auth_address v h) h)) \<and>
    val_commission v h \<le> max_commission"
proof -
  have "stake_inv h" "validator_ok v h"
    using eligibles.joint.reachable [OF assms(1)] by (simp_all add: eligible_inv_def)
  then show ?thesis
    using assms(2) next_epoch_stake_exact [of h v "val_auth_address v h"]
    by (simp add: validator_ok_def enough_stake_def enough_self_stake_def active_validator_stake_def rev_order)
qed

end
