(* ===== verification/Views.thy ===== *)
theory Views
  imports Validators Schedule
begin

text \<open>
  The views that consensus reads. The consensus view holds the set that was elected at the last snapshot,
  the snapshot view the set before it; in every reachable state both list existing validators without
  repetition, at most as many as the active set may have, with the stake and the commission they were
  elected with.
\<close>

section \<open>All invariants of validators\<close>

interpretation validators: relative_invariant "\<lambda>h. stake_inv h \<and> eligible_inv h" valset_inv
  by unfold_locales
    (blast intro: valsets.storage.init valsets.storage.same_storage valsets.storage.op valsets.storage.syscall
      valsets.storage.proposer)+

definition view_ok :: "valset \<Rightarrow> host \<Rightarrow> bool" where
  "view_ok vs h \<longleftrightarrow> distinct (array_contents vs h) \<and> length (array_contents vs h) \<le> active_valset_size \<and>
     (\<forall>v \<in> set (array_contents vs h). v \<noteq> 0 \<and> v \<le> last_val_id h \<and>
        active_validator_stake MONAD_FIVE \<le> load u256_be (view_stake vs v) h \<and>
        load u256_be (view_commission vs v) h \<le> max_commission) \<and>
     (\<forall>v. v \<notin> set (array_contents vs h) \<longrightarrow>
        load u256_be (view_stake vs v) h = 0 \<and> load u256_be (view_commission vs v) h = 0)"

definition view_inv :: "host \<Rightarrow> bool" where
  "view_inv h \<longleftrightarrow> view_ok Consensus h \<and> view_ok Snapshot h"

lemma views:
  "view_stake Consensus v = ConsStake v" "view_stake Snapshot v = SnapStake v"
  "view_commission Consensus v = ConsCommission v" "view_commission Snapshot v = SnapCommission v"
  by (simp_all add: view_stake_def view_commission_def)

section \<open>Operations that do not touch the views\<close>

definition all_views :: "svar set" where
  "all_views = view_vars Consensus \<union> view_vars Snapshot"

lemma view_ok_modifies:
  assumes "view_ok vs h" and m: "modifies X h h'" and "view_vars vs \<inter> X = {}" and "last_val_id h \<le> last_val_id h'"
  shows "view_ok vs h'"
proof -
  have no: "ValsetLen vs \<notin> X" "ValsetElem vs i \<notin> X" "view_stake vs v \<notin> X" "view_commission vs v \<notin> X" for i v
    using disjoint_iff [THEN iffD1, OF assms(3)] by (simp_all add: view_vars_def)
  have same: "array_contents vs h' = array_contents vs h"
    "load u256_be (view_stake vs v) h' = load u256_be (view_stake vs v) h"
    "load u256_be (view_commission vs v) h' = load u256_be (view_commission vs v) h" for v
    by (rule array_contents_modifies [OF m no(1,2)], rule modifies_load(1) [OF m no(3)], simp,
        rule modifies_load(1) [OF m no(4)], simp)
  show ?thesis
    using assms(1) order_trans [OF _ assms(4)] by (simp add: view_ok_def same)
qed

lemma view_inv_modifies:
  assumes "view_inv h" and "modifies X h h'" and "all_views \<inter> X = {}" and "last_val_id h \<le> last_val_id h'"
  shows "view_inv h'"
  using assms view_ok_modifies [OF _ assms(2) _ assms(4)]
  by (auto simp: view_inv_def all_views_def Int_Un_distrib2)

lemma quiet_views: "y \<in> all_views \<Longrightarrow> \<not> quiet y"
  by (auto simp: all_views_def view_vars_def view_stake_def view_commission_def)

lemma delegate_views: "all_views \<inter> delegate_vars v a = {}" "all_views \<inter> undelegate_vars v a w = {}"
  "all_views \<inter> create_vars s b v = {}"
  by (auto simp: all_views_def view_vars_def view_stake_def view_commission_def write_set_iffs val_bitset_bucket_def)

definition keeps_views :: "host \<Rightarrow> host \<Rightarrow> bool" where
  "keeps_views h h' \<longleftrightarrow> (\<exists>X. modifies X h h' \<and> all_views \<inter> X = {}) \<and> last_val_id h \<le> last_val_id h'"

lemma quiet_keeps_views:
  assumes "modifies (Collect quiet) h h'"
  shows "keeps_views h h'"
  unfolding keeps_views_def using assms modifies_load(1) [OF assms, of LastValId u64_be] quiet_views by auto

lemma stakes_keep_views:
  "modifies (delegate_vars v a) h h' \<Longrightarrow> keeps_views h h'"
  "modifies (undelegate_vars v a w) h h' \<Longrightarrow> keeps_views h h'"
proof -
  have keep: "keeps_views h h'" if "modifies X h h'" "all_views \<inter> X = {}" "LastValId \<notin> X" for X
    using that modifies_load(1) [OF that(1,3), of u64_be] by (auto simp: keeps_views_def)
  show "modifies (delegate_vars v a) h h' \<Longrightarrow> keeps_views h h'"
    by (erule keep [OF _ delegate_views(1)]) (simp add: write_set_iffs val_bitset_bucket_def)
  show "modifies (undelegate_vars v a w) h h' \<Longrightarrow> keeps_views h h'"
    by (erule keep [OF _ delegate_views(2)]) (simp add: write_set_iffs)
qed

lemma add_validator_keeps_views:
  assumes "create_validator s b m h = Inr (v, h1)" and "delegate t v x c h1 = Inr h'" and "in_range h"
  shows "keeps_views h h'"
proof -
  note m = create_validator_frame [OF assms(1)] and d = delegate_frame [OF assms(2)]
  have "unat (last_val_id h + 1) = unat (last_val_id h) + 1"
    using assms(3) by (simp add: in_range_def unat_word_ariths)
  moreover have "last_val_id h' = last_val_id h1"
    by (rule modifies_load(1) [OF d]) (simp_all add: write_set_iffs val_bitset_bucket_def)
  ultimately have "last_val_id h \<le> last_val_id h'"
    using create_validator_loads(1) [OF assms(1)] m(1) by (simp add: word_le_nat_alt)
  moreover have "modifies (create_vars s b v \<union> delegate_vars v c) h h'"
    by (rule modifies_trans [OF m(2) d]) simp
  ultimately show ?thesis
    unfolding keeps_views_def using delegate_views(1) [of v c] delegate_views(3) [of s b v] by blast
qed

lemma contract_op_keeps_views:
  assumes "contract_op t a x h h'" and "in_range h"
  shows "keeps_views h h'"
  using assms(1)
proof (cases rule: contract_op.cases)
  case (op_add_validator m s b v h1)
  then show ?thesis
    using add_validator_keeps_views assms(2) by blast
next
  case op_read
  then show ?thesis
    using quiet_keeps_views by (simp add: modifies_refl)
qed (blast intro: quiet_keeps_views quiet_frames stakes_keep_views delegate_frame undelegate_frame compound_frame)+

lemma view_inv_keep: "view_inv h \<Longrightarrow> keeps_views h h' \<Longrightarrow> view_inv h'"
  unfolding keeps_views_def using view_inv_modifies by blast

section \<open>The snapshot\<close>

lemma chosen_eligible:
  assumes "valset_inv h"
  shows "distinct (chosen h)" "length (chosen h) \<le> active_valset_size" "set (chosen h) \<subseteq> set (eligible h)"
proof -
  let ?xs = "map (\<lambda>v. (v, val_stake v h)) (eligible h)"
  let ?ps = "partial_sort (min (length (eligible h)) active_valset_size) cmp ?xs"
  have d: "distinct ?xs"
    using valset_invD(1) [OF assms] by (simp add: eligible_def distinct_map inj_on_def)
  have s: "set ?ps \<subseteq> set ?xs"
    by (rule by_stake.partial_sort_subset)
  moreover have "inj_on fst (set ?xs)"
    by (auto simp: inj_on_def)
  ultimately have "inj_on fst (set ?ps)"
    by (rule inj_on_subset [rotated])
  then show "distinct (chosen h)"
    unfolding chosen_def using by_stake.distinct_partial_sort [OF d] by (simp add: distinct_map)
  show "length (chosen h) \<le> active_valset_size"
    by (simp add: chosen_def by_stake.length_partial_sort)
  show "set (chosen h) \<subseteq> set (eligible h)"
    unfolding chosen_def using s by force
qed

lemma eligible_ok:
  assumes "valset_inv h" and "eligible_inv h" and "v \<in> set (eligible h)"
  shows "val_exists v h" "v \<noteq> 0" "v \<le> last_val_id h" "active_validator_stake MONAD_FIVE \<le> val_stake v h"
    "val_commission v h \<le> max_commission" "unat min_auth_address_stake \<le> position v (val_auth_address v h) h"
proof -
  have f: "get_flags v h = 0" and "v \<in> set (array_contents Execution h)"
    using assms(3) by (auto simp: eligible_def ValidatorFlagsOk_def)
  then show e: "val_exists v h"
    using valset_invD(2,4) [OF assms(1)] by blast
  then show "v \<noteq> 0" "v \<le> last_val_id h"
    using valset_invD(3) [OF assms(1)] by blast+
  show "active_validator_stake MONAD_FIVE \<le> val_stake v h" "val_commission v h \<le> max_commission"
    "unat min_auth_address_stake \<le> position v (val_auth_address v h) h"
    using e f assms(2)
    by (simp_all add: eligible_inv_def validator_ok_def enough_stake_def enough_self_stake_def word_le_nat_alt)
qed

lemma snapshot_view_inv:
  assumes "syscall_snapshot data x h = Inr h'" and "view_inv h" and "valset_inv h" and "eligible_inv h"
  shows "view_inv h'"
proof -
  note post = snapshot_postD [OF snapshot_postI(2) [OF assms(1)]]
  have last: "last_val_id h' = last_val_id h"
    by (rule modifies_load(1) [OF snapshot_frame [OF assms(1)]]) (simp_all add: write_set_iffs)
  have c: "view_ok Consensus h" and s: "view_ok Snapshot h"
    using assms(2) by (simp_all add: view_inv_def)
  note ch = chosen_eligible [OF assms(3)]
  have e: "v \<noteq> 0" "v \<le> last_val_id h" "active_validator_stake MONAD_FIVE \<le> val_stake v h"
    "val_commission v h \<le> max_commission" if "v \<in> set (chosen h)" for v
    using eligible_ok [OF assms(3,4)] ch(3) that by blast+
  have "view_ok Consensus h'"
    using c ch(1,2) unfolding view_ok_def views post last by (simp add: e)
  moreover have "view_ok Snapshot h'"
    using c s unfolding view_ok_def views post last by simp
  ultimately show ?thesis
    by (simp add: view_inv_def)
qed

interpretation view_sets: relative_invariant "\<lambda>h. (stake_inv h \<and> eligible_inv h) \<and> valset_inv h" view_inv
proof
  fix h h' :: host and t a x data v
  show "view_inv h" if "storage h = (\<lambda>_. 0)"
  proof -
    have "array_contents vs h = []" for vs
      using that by (simp add: array_contents_eq load_def sv_u64.load_zero_storage)
    then show ?thesis
      using that by (simp add: view_inv_def view_ok_def load_def sv_u256.load_zero_storage)
  qed
  show "view_inv h'" if "view_inv h" "storage h' = storage h"
    using view_inv_keep [OF that(1) quiet_keeps_views] modifies_storage [OF that(2)] by blast
  show "view_inv h'" if "view_inv h" "in_range h" "contract_op t a x h h'"
    by (rule view_inv_keep [OF that(1) contract_op_keeps_views [OF that(3,2)]])
  show "view_inv h'" if "view_inv h" "syscall_reward t data x h = Inr h'"
    by (rule view_inv_keep [OF that(1) quiet_keeps_views [OF quiet_frames(6) [OF that(2)]]])
  show "view_inv h'" if "view_inv h" "syscall_on_epoch_change data x h = Inr h'"
    by (rule view_inv_keep [OF that(1) quiet_keeps_views [OF quiet_frames(7) [OF that(2)]]])
  show "view_inv h'" if "(stake_inv h \<and> eligible_inv h) \<and> valset_inv h" "view_inv h" "syscall_snapshot data x h = Inr h'"
    using snapshot_view_inv [OF that(3,2)] that(1) by blast
  show "view_inv (store u64_be ProposerValId v h)" if "view_inv h"
    by (rule view_inv_keep [OF that quiet_keeps_views]) (simp add: modifies_store)
qed

lemma reachable_invs:
  assumes "reachable h"
  shows "stake_inv h" "eligible_inv h" "valset_inv h" "view_inv h" "boundary_ok h"
  using view_sets.joint.reachable [OF assms] schedules.reachable [OF assms] by (simp_all add: schedule_inv_def)

text \<open>C9. In every reachable state the consensus view and the snapshot view list at most 200 validators, without
  duplicates; each of them has been created, with a stake of at least ten million MON and a commission
  of at most the maximum, and a validator outside a view has neither stake nor commission in it.\<close>

theorem views_well_formed:
  assumes "reachable h" and "vs = Consensus \<or> vs = Snapshot"
  shows "distinct (array_contents vs h) \<and> length (array_contents vs h) \<le> 200 \<and>
    (\<forall>v. if v \<in> set (array_contents vs h)
         then val_exists v h \<and> 10000000 * MON \<le> load u256_be (view_stake vs v) h \<and>
           load u256_be (view_commission vs v) h \<le> max_commission
         else load u256_be (view_stake vs v) h = 0 \<and> load u256_be (view_commission vs v) h = 0)"
proof -
  note i = reachable_invs [OF assms(1)]
  have "view_ok vs h"
    using assms(2) i(4) by (auto simp: view_inv_def)
  then show ?thesis
    using valset_invD(3) [OF i(3)]
    by (simp add: view_ok_def active_valset_size_def active_validator_stake_def rev_order)
qed

text \<open>The validators a snapshot may elect.\<close>

lemma eligible_reachable:
  assumes "valset_inv h"
  shows "set (eligible h) = {v. val_exists v h \<and> get_flags v h = ValidatorFlagsOk}" and "distinct (eligible h)"
proof -
  note inv = valset_invD [OF assms]
  show "set (eligible h) = {v. val_exists v h \<and> get_flags v h = ValidatorFlagsOk}"
    unfolding eligible_def set_filter using inv(2,4,5) by blast
  show "distinct (eligible h)"
    unfolding eligible_def by (rule distinct_filter [OF inv(1)])
qed

definition ranked_before :: "host \<Rightarrow> u64 \<Rightarrow> u64 \<Rightarrow> bool" where
  "ranked_before h u v \<longleftrightarrow> val_stake v h < val_stake u h \<or> val_stake v h = val_stake u h \<and> u < v"

lemma chosen_best:
  assumes "valset_inv h"
  shows "length (chosen h) = min 200 (length (eligible h))" and "sorted_wrt (ranked_before h) (chosen h)"
    and "u \<in> set (chosen h) \<Longrightarrow> v \<in> set (eligible h) \<Longrightarrow> v \<notin> set (chosen h) \<Longrightarrow> ranked_before h u v"
proof -
  define xs where "xs = map (\<lambda>v. (v, val_stake v h)) (eligible h)"
  define ps where "ps = partial_sort (min (length (eligible h)) active_valset_size) cmp xs"
  have ch: "chosen h = map fst ps"
    by (simp add: chosen_def ps_def xs_def)
  have d: "distinct xs"
    using eligible_reachable(2) [OF assms] by (simp add: xs_def distinct_map inj_on_def)
  have "set ps \<subseteq> set xs"
    unfolding ps_def by (rule by_stake.partial_sort_subset)
  then have pair: "(fst p, val_stake (fst p) h) = p" if "p \<in> set ps" for p
    using that by (auto simp: xs_def)
  have cmp: "cmp (u, val_stake u h) (v, val_stake v h) \<longleftrightarrow> ranked_before h u v" for u v
    by (auto simp: cmp_def ranked_before_def)
  show "length (chosen h) = min 200 (length (eligible h))"
    by (simp add: ch ps_def xs_def by_stake.length_partial_sort active_valset_size_def)
  have "ranked_before h (fst p) (fst q)" if "p \<in> set ps" "q \<in> set ps" "cmp p q" for p q
    using cmp [of "fst p" "fst q"] pair [OF that(1)] pair [OF that(2)] that(3) by simp
  moreover have "sorted_wrt cmp ps"
    unfolding ps_def by (rule by_stake.partial_sort_sorted [OF d])
  ultimately have "sorted_wrt (\<lambda>p q. ranked_before h (fst p) (fst q)) ps"
    by (rule sorted_wrt_mono_rel)
  then show "sorted_wrt (ranked_before h) (chosen h)"
    by (simp add: ch sorted_wrt_map)
  assume u: "u \<in> set (chosen h)" and v: "v \<in> set (eligible h)" "v \<notin> set (chosen h)"
  have "(u, val_stake u h) \<in> set ps"
    using u pair unfolding ch set_map by (elim imageE) simp
  moreover have "(v, val_stake v h) \<in> set xs" "(v, val_stake v h) \<notin> set ps"
    using v by (auto simp: xs_def ch rev_image_eqI)
  ultimately have "cmp (u, val_stake u h) (v, val_stake v h)"
    unfolding ps_def by (rule by_stake.partial_sort_best [OF d])
  then show "ranked_before h u v"
    by (simp only: cmp)
qed

text \<open>C4. A snapshot elects the validators with the most stake. Outside the boundary the system call succeeds, and
  the new consensus set is a list of min(200, n) of the n existing validators without flags, in the
  order of decreasing stake with ties broken by the smaller id, such that every elected validator comes
  before every other eligible one in this order; the elected validators are recorded with their
  current stake and commission.\<close>

theorem snapshot_elects_best:
  assumes "reachable h" and "\<not> in_epoch_delay_period h"
  shows "\<exists>h' E. syscall_snapshot [] 0 h = Inr h' \<and> E = {v. val_exists v h \<and> get_flags v h = ValidatorFlagsOk} \<and>
    distinct (array_contents Consensus h') \<and> set (array_contents Consensus h') \<subseteq> E \<and>
    length (array_contents Consensus h') = min 200 (card E) \<and>
    sorted_wrt (ranked_before h) (array_contents Consensus h') \<and>
    (\<forall>u \<in> set (array_contents Consensus h').
       (\<forall>v \<in> E - set (array_contents Consensus h'). ranked_before h u v) \<and>
       load u256_be (ConsStake u) h' = val_stake u h \<and> load u256_be (ConsCommission u) h' = val_commission u h)"
proof -
  have i: "valset_inv h"
    by (rule reachable_invs(3) [OF assms(1)])
  obtain h' where h': "syscall_snapshot [] 0 h = Inr h'" "snapshot_post h h'"
    using snapshot_correct [OF assms(2)] by blast
  note post = snapshot_postD [OF h'(2)] and e = eligible_reachable [OF i]
  show ?thesis
  proof (intro exI conjI ballI)
    show "length (array_contents Consensus h') = min 200 (card (set (eligible h)))"
      by (simp add: post(2) chosen_best(1) [OF i] distinct_card [OF e(2)])
    show "set (array_contents Consensus h') \<subseteq> set (eligible h)"
      unfolding post(2) by (rule chosen_eligible(3) [OF i])
    fix u
    assume u: "u \<in> set (array_contents Consensus h')"
    show "ranked_before h u v" if "v \<in> set (eligible h) - set (array_contents Consensus h')" for v
      using chosen_best(3) [OF i] u that unfolding post(2) by blast
    show "load u256_be (ConsStake u) h' = val_stake u h" "load u256_be (ConsCommission u) h' = val_commission u h"
      using u unfolding post(2) by (simp_all add: post(7,8))
  qed (simp_all add: h'(1) e(1) post(2) chosen_eligible(1) [OF i] chosen_best(2) [OF i])
qed

text \<open>C10. A snapshot does not change what the running epoch is charged with: the stake and the commission that
  rewards use are those of the consensus view before, and of the snapshot view after it, and for
  every validator they are equal.\<close>

theorem snapshot_keeps_this_epoch:
  assumes "reachable h" and "syscall_snapshot data x h = Inr h'"
  shows "this_epoch_view_stake v h' = this_epoch_view_stake v h \<and>
    this_epoch_view_commission v h' = this_epoch_view_commission v h \<and>
    array_contents (this_epoch_valset h') h' = array_contents (this_epoch_valset h) h"
proof -
  note i = reachable_invs [OF assms(1)]
  have b: "load_checked bool_codec InBoundary h = None" "load_checked bool_codec InBoundary h' \<noteq> None"
    using snapshot_postI(1) [OF assms(2)] i(5) assms(2) by (auto simp: boundary_ok_def elim!: snapshotE)
  note post = snapshot_postD [OF snapshot_postI(2) [OF assms(2)]]
  have "view_ok Consensus h" "view_ok Snapshot h"
    using i(4) by (simp_all add: view_inv_def)
  then show ?thesis
    using post(1) post(5) [of v] post(6) [of v] b
    by (auto simp: this_epoch_view_stake_def this_epoch_view_commission_def this_epoch_valset_def view_ok_def views)
qed

end
