(* ===== verification/Calls.thy ===== *)
theory Calls
  imports Assertions Solvency Views
begin

text \<open>
  Calls and system transactions as a whole. In a reachable state a call of the staking contract always
  returns a result: no method raises an exception, since the balances cover the payments and the lists and
  schedules are well formed. The results are described, calls and system transactions stay within the
  reachable states, and the validator set that consensus reads is the elected one.
\<close>

section \<open>No method raises an exception\<close>

lemma throws_iff: "throws r \<longleftrightarrow> (\<exists>e. r = Inl e \<and> error_message e = None)"
proof -
  have "throws (Inl e) \<longleftrightarrow> error_message e = None" for e :: error
    by (cases e) simp_all
  then show ?thesis
    by (cases r) auto
qed

lemma not_aborted: "\<not> throws r \<Longrightarrow> r \<noteq> Inl Aborted"
  by auto

lemma fixed_throws [simp]: "\<not> throws (abi_decode_fixed bs)"
  by (simp add: abi_decode_fixed_def Let_def)

lemma decoding_throws [simp]: "\<not> throws (abi_decode_bytes_tail n bs)" "\<not> throws (function_not_payable x)"
  "\<not> throws (decode_add_validator bs)"
proof -
  show t: "\<not> throws (abi_decode_bytes_tail n bs)" for n bs
    by (auto simp: abi_decode_bytes_tail_def abi_decode_dynamic_bytes_tail_def Let_def throws_try)
  show "\<not> throws (function_not_payable x)" "\<not> throws (decode_add_validator bs)"
    by (auto simp: function_not_payable_def decode_add_validator_def throws_try t)
qed

text \<open>What the library promises about the serialization of a public key that it has parsed: 65 bytes, of
  which the first marks the uncompressed format.\<close>

definition serializes_uncompressed :: "crypto \<Rightarrow> bool" where
  "serializes_uncompressed cr \<longleftrightarrow> (\<forall>bs point. secp256k1_ec_pubkey_parse cr bs = (1, point) \<longrightarrow>
     length (secp256k1_ec_pubkey_serialize cr point) = 65 \<and> hd (secp256k1_ec_pubkey_serialize cr point) = 4)"

lemma check_add_validator_throws:
  assumes "serializes_uncompressed cr"
  shows "\<not> throws (check_add_validator cr message s b x)"
proof -
  have *: "length (secp256k1_ec_pubkey_serialize cr (secp_point k)) = 65 \<and> hd (secp256k1_ec_pubkey_serialize cr (secp_point k)) = 4"
    if "k = new_Secp256k1Pubkey cr bs" "secp_pubkey_is_valid k" for k bs
    using assms that
    by (cases "secp256k1_ec_pubkey_parse cr bs")
      (auto simp: serializes_uncompressed_def new_Secp256k1Pubkey_def secp_pubkey_is_valid_def)
  show ?thesis
    by (auto simp: check_add_validator_def Let_def throws_try secp_pubkey_serialize_def address_from_secpkey_def
        dest: * [OF refl])
qed

text \<open>The states in which a call of an account is answered: the invariants hold and the account could receive
  all that the contract has.\<close>

definition answering :: "address \<Rightarrow> host \<Rightarrow> bool" where
  "answering a h \<longleftrightarrow> schedule_inv h \<and> stake_inv h \<and> list_inv h \<and> solvent h \<and> unat (epoch h) < 2 ^ 64 - 2 \<and>
     a \<noteq> STAKING_CA \<and> unat (get_balance a h) + unat (get_balance STAKING_CA h) < 2 ^ 256"

lemma send_succeeds:
  assumes "answering a h" and "accounts h2 = accounts h" and "unat n \<le> unat (get_balance STAKING_CA h)"
  shows "send_tokens a n h2 \<noteq> Inl e"
proof
  assume fail: "send_tokens a n h2 = Inl e"
  have b: "get_balance x h2 = get_balance x h" for x
    by (rule get_balance_accounts [OF assms(2)])
  have "unat (get_balance a h) + unat n < 2 ^ 256" and ne: "STAKING_CA \<noteq> a"
    using assms(1,3) by (auto simp: answering_def)
  then obtain h3 where h3: "add_to_balance a n h2 = Inr h3" "subtract_from_balance STAKING_CA n h3 = Inl e"
    using fail by (cases "add_to_balance a n h2") (auto simp: send_tokens_def add_to_balance_fails_iff b)
  show False
    using h3(2) assms(3) add_to_balance_Inr(2) [OF h3(1) ne] by (simp add: subtract_from_balance_fails_iff b)
qed

lemma payout_throws:
  assumes "answering a h"
  shows "\<not> throws (withdraw v w a h)" and "\<not> throws (claim_rewards v a h)"
proof -
  have s: "solvent h" and p: "\<not> throws (pull_delegator_up_to_date v a h)"
    using assms pull_never_throws [of h v a] by (simp_all add: answering_def)
  have "withdraw v w a h \<noteq> Inl (Thrown m)" "claim_rewards v a h \<noteq> Inl (Thrown m)" for m
    using p by (auto elim!: withdraw_exception [OF s] claim_exception [OF s] dest: send_succeeds [OF assms])
  moreover have "send_tokens b n g \<noteq> Inl Aborted" for b n g
    by (auto simp: send_tokens_def tryR_eq_Inl add_to_balance_fails_iff subtract_from_balance_fails_iff)
  then have "withdraw v w a h \<noteq> Inl Aborted" "claim_rewards v a h \<noteq> Inl Aborted"
    using p not_aborted [OF reward_throws(1)] not_aborted [OF reward_throws(2)] not_aborted [OF math_throws(1)]
    by (auto simp: withdraw_def claim_rewards_def tryR_eq_Inl Let_def split: option.splits prod.splits if_splits)
  ultimately show "\<not> throws (withdraw v w a h)" and "\<not> throws (claim_rewards v a h)"
    by (auto elim!: throws.elims)
qed

lemma add_validator_throws:
  assumes "answering a h" and "serializes_uncompressed cr"
  shows "\<not> throws (precompile_add_validator cr t input b x h)"
proof -
  have "\<not> throws (delegate t v x c g)" if "create_validator s b m h = Inr (v, g)" for s b m v c g
  proof (rule delegate_throws)
    note f = create_validator_frame(2) [OF that]
    show "schedule_inv g"
      using assms(1) by (auto simp: answering_def write_set_iffs intro!: schedule_inv_modifies [OF _ f])
    show "unat (epoch g) < 2 ^ 64 - 2"
      using assms(1) by (simp add: answering_def modifies_load(1) [OF f] write_set_iffs)
  qed
  moreover have "\<not> throws (create_validator s b m h)" for s b m
    by (simp add: create_validator_def Let_def)
  ultimately show ?thesis
    by (auto simp: precompile_add_validator_def throws_try check_add_validator_throws [OF assms(2)])
qed

lemma apply_reward_throws [simp]: "\<not> throws (apply_reward v a r s h)"
  by (simp add: apply_reward_def throws_try Let_def)

lemma method_throws:
  assumes "answering a h" and "serializes_uncompressed cr"
  shows "\<not> throws (fst (method_of_selector cr t s) input a x h)"
proof -
  have p: "\<not> throws (pull_delegator_up_to_date v b h)" "\<not> throws (delegate t v s b h)" "\<not> throws (compound t v b h)"
    "\<not> throws (undelegate t v n w b h)" for v b s n w
    using assms(1) pull_never_throws [of h v b] delegate_throws [of h t v s b] compound_throws [of h t v b]
      undelegate_throws [of h t v n w b] by (simp_all add: answering_def)
  have g: "\<not> throws (get_valset bs vs h)" for bs vs
    by (auto simp: get_valset_def throws_try split: prod.splits)
  have c: "\<not> throws (change_commission v n b h)" "\<not> throws (external_reward v n b h)" for v n b
    by (auto simp: change_commission_def external_reward_def Let_def)
  note d = precompile_delegate_def precompile_undelegate_def precompile_compound_def precompile_withdraw_def
    precompile_claim_rewards_def precompile_change_commission_def precompile_external_reward_def precompile_get_epoch_def
    precompile_get_proposer_val_id_def precompile_get_validator_def precompile_get_delegator_def
    precompile_get_withdrawal_request_def precompile_get_consensus_valset_def precompile_get_snapshot_valset_def
    precompile_get_execution_valset_def precompile_get_delegations_def precompile_get_delegators_def precompile_fallback_def
  show ?thesis
    unfolding method_of_selector_def d
    by (auto simp: throws_try Let_def p g c payout_throws [OF assms(1)] add_validator_throws [OF assms] split: prod.splits)
qed

section \<open>Calls\<close>

lemma dispatch_throws:
  assumes "answering a h" and "serializes_uncompressed cr"
  shows "\<not> throws (fst (fst (precompile_dispatch cr t input)) bs a x h)"
  using method_throws [OF assms] by (simp add: precompile_dispatch_def precompile_fallback_def)

lemma transferE:
  assumes "transfer_balances l msg to h = Inr g" and "sender msg \<noteq> to"
  shows "storage g = storage h" and "unat (get_balance (sender msg) h) = unat (get_balance (sender msg) g) + unat (msg_value msg)"
    and "unat (get_balance to g) = unat (get_balance to h) + unat (msg_value msg)"
proof -
  obtain g1 g2 where g1: "subtract_from_balance (sender msg) (msg_value msg) h = Inr g1"
    and g2: "add_to_balance to (msg_value msg) g1 = Inr g2"
    and g: "g = emit_native_transfer_event l (sender msg) to (msg_value msg) g2"
    using assms(1) by (auto simp: transfer_balances_def try_simps)
  have "storage g = storage g2" "get_balance b g = get_balance b g2" for b
    by (simp_all add: g emit_native_transfer_event_def)
  then show "storage g = storage h"
    and "unat (get_balance (sender msg) h) = unat (get_balance (sender msg) g) + unat (msg_value msg)"
    and "unat (get_balance to g) = unat (get_balance to h) + unat (msg_value msg)"
    using subtract_from_balance_Inr(1-3) [OF g1] add_to_balance_Inr(1-3) [OF g2] assms(2) by simp_all
qed

lemma answering_transfer:
  assumes "reachable h" and "sender msg \<noteq> STAKING_CA" and "transfer_balances l msg STAKING_CA h = Inr g"
    and "unat (get_balance (sender msg) h) + unat (get_balance STAKING_CA h) < 2 ^ 256"
  shows "answering (sender msg) g"
proof -
  note g = transferE [OF assms(3,2)]
  have "schedule_inv g" "stake_inv g \<and> list_inv g"
    using schedules.same_storage [OF _ g(1)] schedules.reachable [OF assms(1)] lists.joint.same_storage [OF _ g(1)]
      lists.joint.reachable [OF assms(1)] by blast+
  moreover have "solvent g"
    using transfer_covers [OF assms(3,2) reachable_is_solvent [OF assms(1)]] by (simp add: covered_def solvent_def)
  moreover have "epoch g = epoch h"
    by (simp add: load_def g(1))
  ultimately show ?thesis
    using reachable_in_range [OF assms(1)] assms(2,4) g(2,3) by (simp add: answering_def in_range_def)
qed

lemma transfer_succeeds:
  assumes "sender_has_balance msg h" and "unat (get_balance to h) + unat (msg_value msg) < 2 ^ 256" and "to \<noteq> sender msg"
  shows "\<exists>g. transfer_balances l msg to h = Inr g"
proof -
  obtain g where g: "subtract_from_balance (sender msg) (msg_value msg) h = Inr g"
    using assms(1) by (cases "subtract_from_balance (sender msg) (msg_value msg) h")
      (auto simp: sender_has_balance_def subtract_from_balance_fails_iff word_le_nat_alt)
  then show ?thesis
    using assms(2) subtract_from_balance_Inr(2) [OF g assms(3)]
    by (cases "add_to_balance to (msg_value msg) g") (auto simp: transfer_balances_def add_to_balance_fails_iff)
qed

lemma pre_call_returns:
  assumes "sender msg \<noteq> STAKING_CA" and "kind msg = EVMC_CALL" and "recipient msg = STAKING_CA" and "code_address msg = STAKING_CA"
    and "unat (get_balance (sender msg) h) + unat (get_balance STAKING_CA h) < 2 ^ 256"
  obtains (unpaid) r where "pre_call l t msg h = Inr (Inl r)"
  | (frame) g where "pre_call l t msg h = Inr (Inr g)" and "msg_flags msg = 0 \<Longrightarrow> transfer_balances l msg STAKING_CA h = Inr g"
proof (cases "sender_has_balance msg h")
  case True
  then have "unat (get_balance STAKING_CA h) + unat (msg_value msg) < 2 ^ 256"
    using assms(5) by (simp add: sender_has_balance_def word_le_nat_alt)
  then obtain g where g: "transfer_balances l msg STAKING_CA h = Inr g"
    using transfer_succeeds [OF True _ assms(1) [symmetric]] by blast
  then have "pre_call l t msg h = Inr (Inr (if msg_flags msg AND EVMC_STATIC = 0 then g else h))"
    using True assms(2-4) by (simp add: pre_call_def Let_def)
  then show thesis
    by (rule frame) (simp add: g)
qed (use assms(2) unpaid in \<open>simp add: pre_call_def\<close>)

lemma check_call_returns:
  assumes "code_address msg = A" and "kind msg = EVMC_CALL"
    and "msg_flags msg = 0 \<Longrightarrow> \<not> throws (fst (fst (d (input_data msg))) (snd (d (input_data msg))) (sender msg) (msg_value msg) g)"
  shows "\<exists>r g'. check_call_monad_precompile d A msg g = Inr (Some (r, g')) \<and> gas_refund r = 0 \<and>
    (status r \<in> {EVMC_SUCCESS, EVMC_REVERT} \<or> gas_left r = 0)"
proof (cases "msg_flags msg = 0")
  case True
  then show ?thesis
    using assms
    by (cases "d (input_data msg)"; cases "fst (d (input_data msg))"; cases "fst (fst (d (input_data msg))) (snd (d (input_data msg))) (sender msg) (msg_value msg) g")
      (auto simp: check_call_monad_precompile_def throws_iff split: option.splits)
qed (use assms(1,2) in \<open>simp add: check_call_monad_precompile_def\<close>)

text \<open>C2. A call of the staking contract always returns. From a reachable state, with any calldata, value, gas and
  flags, the call frame ends with a result, and not with an exception or a failed assertion that would
  stop the block; the caller must not be the contract itself, the two balances together must be
  representable, and the key library must serialize public keys in the documented format.\<close>

theorem staking_calls_return:
  assumes "reachable h" and "kind msg = EVMC_CALL" and "recipient msg = STAKING_CA" and "code_address msg = STAKING_CA"
    and "sender msg \<noteq> STAKING_CA" and "MONAD_FOUR \<le> t" and "env_eth_precompile env msg = None"
    and "serializes_uncompressed (env_crypto env)"
    and "unat (get_balance (sender msg) h) + unat (get_balance STAKING_CA h) < 2 ^ 256"
  shows "\<exists>res h'. execute_call_message env t msg h = Inr (res, h')"
proof (rule pre_call_returns [OF assms(5,2-4,9), of "env_log_native_transfers env" t])
  fix g
  assume pre: "pre_call (env_log_native_transfers env) t msg h = Inr (Inr g)"
    and tr: "msg_flags msg = 0 \<Longrightarrow> transfer_balances (env_log_native_transfers env) msg STAKING_CA h = Inr g"
  let ?c = "check_call_monad_precompile (precompile_dispatch (env_crypto env) t) STAKING_CA msg g"
  obtain r g' where "?c = Inr (Some (r, g'))" and "gas_refund r = 0"
    "status r \<in> {EVMC_SUCCESS, EVMC_REVERT} \<or> gas_left r = 0"
    using check_call_returns [OF assms(4,2), of "precompile_dispatch (env_crypto env) t" g]
      dispatch_throws [OF answering_transfer [OF assms(1,5) tr assms(9)] assms(8)] by blast
  then show ?thesis
    using pre assms(2) by (auto simp: execute_call_message_def check_call_staking [OF assms(4,7,6)] Let_def post_call_def)
qed (use assms(2) in \<open>simp add: execute_call_message_def\<close>)

lemma check_call_not_None: "code_address msg = A \<Longrightarrow> check_call_monad_precompile d A msg g \<noteq> Inr None"
  by (auto simp: check_call_monad_precompile_def case_prod_unfold Let_def split: sum.splits option.splits)

lemma gas_after:
  fixes g c :: u64
  assumes "\<not> sint g < uint c"
  shows "sint (g - c) = sint g - uint c"
proof -
  have g: "sint g < 2 ^ 63"
    using sint_lt [of g] by simp
  then have "uint c < 2 ^ 63"
    using assms by linarith
  then have "sint c = uint c"
    unfolding sint_uint by (intro signed_take_bit_int_eq_self) (simp_all add: order_trans [of _ 0])
  then have "sint (g - c) = signed_take_bit 63 (sint g - uint c)"
    by (simp add: sint_word_ariths)
  also have "\<dots> = sint g - uint c"
    using assms g uint_ge_0 [of c] by (intro signed_take_bit_int_eq_self) linarith+
  finally show ?thesis .
qed

lemma check_call_results:
  assumes "check_call_monad_precompile d A msg g = Inr (Some (r, after))"
  shows "gas_refund r = 0 \<and> (if status r = EVMC_SUCCESS
    then kind msg = EVMC_CALL \<and> msg_flags msg = 0 \<and> sint (gas_left r) = sint (gas msg) - uint (snd (fst (d (input_data msg))))
    else status r \<in> {EVMC_REVERT, EVMC_OUT_OF_GAS, EVMC_REJECTED} \<and> gas_left r = 0)"
  using assms gas_after
  by (auto simp: check_call_monad_precompile_def case_prod_unfold Let_def split: if_splits sum.splits option.splits)

text \<open>C19. The outcome of a call of the staking contract: on success it was a plain call, the gas charged is exactly
  the fixed cost of the selected method and nothing is refunded; in every other case the caller's state
  is kept, and no gas is left unless the value could not be paid or the reserve balance was violated.\<close>

theorem call_outcome:
  assumes "execute_call_message env t msg h = Inr (res, h')" and "code_address msg = STAKING_CA"
    and "env_eth_precompile env msg = None" and "MONAD_FOUR \<le> t"
  shows "gas_refund res = 0 \<and>
    (if status res = EVMC_SUCCESS
     then kind msg = EVMC_CALL \<and> msg_flags msg = 0 \<and>
       sint (gas_left res) = sint (gas msg) - uint (snd (fst (precompile_dispatch (env_crypto env) t (input_data msg))))
     else h' = h \<and>
       (status res = EVMC_INSUFFICIENT_BALANCE \<and> gas_left res = gas msg \<or>
        status res \<in> {EVMC_REVERT, EVMC_OUT_OF_GAS, EVMC_REJECTED} \<and> gas_left res = 0 \<or>
        status res = EVMC_MONAD_RESERVE_BALANCE_VIOLATION))"
proof -
  note c = check_call_staking [OF assms(2-4)] and n = check_call_not_None [OF assms(2)]
  consider (unpaid) "pre_call (env_log_native_transfers env) t msg h = Inr (Inl res)" "h' = h"
  | (frame) g r after where "check_call_monad_precompile (precompile_dispatch (env_crypto env) t) STAKING_CA msg g = Inr (Some (r, after))"
    "post_call res h after = Inr h'" "res = r \<or> res = r\<lparr>status := EVMC_MONAD_RESERVE_BALANCE_VIOLATION, gas_refund := 0\<rparr>"
  proof (cases "pre_call (env_log_native_transfers env) t msg h")
    case (Inr pre)
    then show thesis
      using assms(1) n that
      by (cases pre) (auto simp: execute_call_message_def tryR_eq_Inr c Let_def split: if_splits option.splits)
  qed (use assms(1) in \<open>simp add: execute_call_message_def split: if_splits\<close>)
  then show ?thesis
  proof cases
    case unpaid
    then show ?thesis
      by (auto simp: pre_call_def Let_def tryR_eq_Inr split: if_splits)
  next
    case frame
    then show ?thesis
      using check_call_results [OF frame(1)] by (auto simp: post_call_def split: if_splits)
  qed
qed


section \<open>System transactions\<close>

lemma syscall_throws:
  assumes "unat (get_balance STAKING_CA h) + unat x < 2 ^ 256"
  shows "\<not> throws (execute_staking_syscall t data x h)"
proof -
  have add: "\<not> throws (add_to_balance STAKING_CA y g)" if "unat (get_balance STAKING_CA g) + unat y < 2 ^ 256" for y g
    using that by (auto simp: throws_iff add_to_balance_fails_iff)
  have "\<not> throws (syscall_snapshot data x g)" for data g
    using snapshot_correct [of g] by (cases "in_epoch_delay_period g") (auto simp: syscall_snapshot_def)
  moreover have "\<not> throws (syscall_on_epoch_change data x g)" for data g
    by (auto simp: syscall_on_epoch_change_def throws_try Let_def)
  moreover have "\<not> throws (syscall_reward t data x g)" if "get_balance STAKING_CA g = get_balance STAKING_CA h" for data g
    using assms that
    by (auto simp: syscall_reward_def mint_tokens_def throws_try Let_def add word_le_nat_alt split: option.splits)
  moreover have "get_balance STAKING_CA g = get_balance STAKING_CA h" if "add_to_balance STAKING_CA 0 h = Inr g" for g
    using add_to_balance_Inr(1) [OF that] by (simp add: word_unat_eq_iff)
  ultimately show ?thesis
    using add [of h 0] unat_u256_less [of "get_balance STAKING_CA h"]
    by (auto simp: execute_staking_syscall_def throws_try Let_def)
qed


section \<open>The validator set for consensus\<close>

text \<open>C8. Consensus reads the elected validators: in a reachable state the set of the running epoch is always
  available and that of the next epoch from the snapshot on, both without duplicates and of at most 200
  validators with the stakes that were recorded at their election; there is no answer for any other
  epoch, and the assertion on the length never fails.\<close>

theorem valset_for_consensus:
  assumes "reachable h"
  shows "\<exists>vs. read_valset e h = Inr vs \<and>
    (case vs of
       None \<Rightarrow> e \<noteq> epoch h \<and> (e \<noteq> epoch h + 1 \<or> \<not> in_epoch_delay_period h)
     | Some validators \<Rightarrow> \<exists>ids.
         ids = array_contents (if e = epoch h then this_epoch_valset h else Consensus) h \<and>
         (e = epoch h \<or> e = epoch h + 1 \<and> in_epoch_delay_period h) \<and> distinct ids \<and> length ids \<le> 200 \<and>
         validators = map (\<lambda>v. \<lparr>v_secp_pubkey = word_bytes (secp_pubkey (val_keys v h)),
           v_bls_pubkey = word_bytes (bls_pubkey (val_keys v h)),
           v_stake = (if e = epoch h then this_epoch_view_stake v h else load u256_be (ConsStake v) h)\<rparr>) ids)"
proof -
  obtain g where g: "add_to_balance STAKING_CA 0 h = Inr g"
    using unat_u256_less [of "get_balance STAKING_CA h"]
    by (cases "add_to_balance STAKING_CA 0 h") (auto simp: add_to_balance_fails_iff)
  define f where "f nx v = \<lparr>v_secp_pubkey = word_bytes (secp_pubkey (val_keys v h)),
    v_bls_pubkey = word_bytes (bls_pubkey (val_keys v h)),
    v_stake = (if nx then load u256_be (ConsStake v) h else this_epoch_view_stake v h)\<rparr>" for nx v
  have "read_valset e h = (let g = h in
     if e = epoch g + 1 \<and> \<not> in_epoch_delay_period g then Inr None
     else if e < epoch g then Inr None
     else if e > epoch g + 1 then Inr None
     else let next = (e = epoch g + 1); vs = (if next then Consensus else this_epoch_valset g)
       in if \<not> unat (array_length vs g) \<le> active_valset_size then Inl Aborted
          else Inr (Some (map (\<lambda>i. f next (array_get vs (word_of_nat i) g)) [0..<unat (array_length vs g)])))"
    unfolding read_valset_def g using add_to_balance_Inr(3) [OF g]
    by (simp add: load_def load_checked_def array_length_def array_get_def Let_def this_epoch_valset_def this_epoch_view_stake_def
        f_def)
  note r = this [unfolded Let_def valset_array.map_contents, unfolded valset_array.len_contents]
  have "epoch h < epoch h + 1"
    using reachable_in_range [OF assms] by (simp add: in_range_def word_less_nat_alt unat_word_ariths)
  then have e: "\<not> epoch h + 1 < epoch h" "epoch h \<noteq> epoch h + 1" "epoch h + 1 \<noteq> epoch h"
    by auto
  have "view_ok (this_epoch_valset h) h" "view_ok Consensus h"
    using reachable_invs(4) [OF assms] by (auto simp: view_inv_def this_epoch_valset_def)
  then have v: "length (array_contents vs h) \<le> active_valset_size" "distinct (array_contents vs h)"
    if "vs = Consensus \<or> vs = this_epoch_valset h" for vs
    using that by (auto simp: view_ok_def)
  have a: "active_valset_size = 200"
    by (simp add: active_valset_size_def)
  consider (current) "e = epoch h" | (next_epoch) "e = epoch h + 1" "in_epoch_delay_period h"
    | (never) "e \<noteq> epoch h" "e \<noteq> epoch h + 1 \<or> \<not> in_epoch_delay_period h"
    by blast
  then show ?thesis
  proof cases
    case current
    then show ?thesis
      unfolding r using v [of "this_epoch_valset h"] e by (simp add: a f_def)
  next
    case next_epoch
    then show ?thesis
      unfolding r using v [of Consensus] e by (simp add: a f_def)
  next
    case never
    then have "e < epoch h \<or> e > epoch h + 1 \<or> e = epoch h + 1 \<and> \<not> in_epoch_delay_period h"
      using e by (metis inc_le leI le_less)
    then show ?thesis
      using never by (auto simp: r)
  qed
qed

end
