(* ===== verification/Rewards.thy ===== *)
theory Rewards
  imports Views
begin

text \<open>
  What the operations on rewards, withdrawals and epochs do, on top of the invariants: the split of a block
  reward, the amounts that pass through a withdrawal, the stake that a pull activates, and the epoch.
\<close>

section \<open>Block rewards\<close>

lemma apply_reward_loads:
  assumes "apply_reward v f n s h = Inr h'"
  shows "s \<noteq> 0" "unat (val_acc v h') = unat (val_acc v h) + unat n * unat UNIT_BIAS div unat s"
    "unat (unclaimed_rewards v h') = unat (unclaimed_rewards v h) + unat n" "accounts h' = accounts h"
  using assms
  by (auto simp: apply_reward_def try_simps Let_def checked_mul_div_Inr checked_add_Inr event_defs emit_log_def store_log_def)

text \<open>C11. A block reward is split exactly. When the system call succeeds, it has found the validator of the block author in the set of the running epoch; the commission is the reward times the
  commission rate, rounded down; the owner is credited with the commission, the pool with the rest, the
  accumulator grows by the rest per unit of stake of this epoch, rounded down, and exactly the reward is
  minted to the contract.\<close>

theorem reward_splits_exactly:
  assumes "syscall_reward t data r h = Inr h'"
  shows "\<exists>b v a c. abi_decode_fixed data = Inr (b, []) \<and> load_checked u64_be (ValIdSecp b) h = Some v \<and>
    a = val_auth_address v h \<and> this_epoch_view_stake v h \<noteq> 0 \<and>
    unat c = unat r * unat (this_epoch_view_commission v h) div 10 ^ 18 \<and> c \<le> r \<and>
    unat (del_rewards v a h') = unat (del_rewards v a h) + unat c \<and>
    unat (unclaimed_rewards v h') = unat (unclaimed_rewards v h) + (unat r - unat c) \<and>
    unat (val_acc v h') = unat (val_acc v h) + (unat r - unat c) * 10 ^ 36 div unat (this_epoch_view_stake v h) \<and>
    unat (get_balance STAKING_CA h') = unat (get_balance STAKING_CA h) + unat r \<and>
    (t \<ge> MONAD_FIVE \<longrightarrow> proposer_val_id h' = v)"
  using assms
proof (cases rule: rewardE)
  case (1 b v h1 c n d h2)
  note mint = add_to_balance_Inr [OF 1(4) [unfolded mint_tokens_def]]
  let ?a = "val_auth_address v h1" and ?g = "store u256_be (DRewards v (val_auth_address v h1)) n h1"
  have same: "?a = val_auth_address v h" "this_epoch_view_commission v h1 = this_epoch_view_commission v h"
    "del_rewards v b h1 = del_rewards v b h" "val_acc v h1 = val_acc v h" "unclaimed_rewards v h1 = unclaimed_rewards v h" for b
    using mint(3) by (simp_all add: val_auth_address_def this_epoch_view_commission_def load_def load_checked_def)
  note ap = apply_reward_loads [OF 1(8)]
  have keep: "del_rewards v ?a h2 = n"
    using modifies_load(1) [OF apply_reward_frame [OF 1(8)], of "DRewards v ?a" u256_be] by simp
  have h': "del_rewards v ?a h' = n" "val_acc v h' = val_acc v h2" "unclaimed_rewards v h' = unclaimed_rewards v h2"
    "get_balance STAKING_CA h' = get_balance STAKING_CA h1"
    using keep ap(4) by (auto simp: 1(9) get_balance_def)
  have c: "unat c = unat r * unat (this_epoch_view_commission v h) div 10 ^ 18"
    using 1(5) by (simp add: checked_mul_div_Inr same MON_def)
  have d: "unat d = unat r - unat c" "unat c \<le> unat r"
    using 1(7) by (simp_all add: checked_sub_Inr)
  have "unat n = unat (del_rewards v ?a h) + unat c"
    using 1(6) by (simp add: checked_add_Inr same)
  then show ?thesis
    using 1(1-3,9) c d h' ap mint(1) same
    by (intro exI [of _ b] exI [of _ v] exI [of _ ?a] exI [of _ c])
      (simp add: word_le_nat_alt UNIT_BIAS_def)
qed

lemma reward_math_error:
  assumes "reachable h" and "syscall_reward t data r h = Inl (MathE e)"
  shows "e = Overflow"
proof -
  have v: "view_ok Consensus h" "view_ok Snapshot h"
    using reachable_invs(4) [OF assms(1)] by (simp_all add: view_inv_def)
  have com: "this_epoch_view_commission v h \<le> MON" for v
  proof -
    have "load u256_be (ConsCommission v) h \<le> max_commission" "load u256_be (SnapCommission v) h \<le> max_commission"
      using v unfolding view_ok_def views by (metis word_zero_le)+
    then show ?thesis
      by (simp add: this_epoch_view_commission_def max_commission_def)
  qed
  have le: "unat c \<le> unat r" if "checked_mul_div r (this_epoch_view_commission v h) MON = Inr c" for v c
  proof -
    have "unat r * unat (this_epoch_view_commission v h) div unat MON \<le> unat r"
      using com [of v] div_le_mono [of "unat r * unat (this_epoch_view_commission v h)" "unat r * unat MON" "unat MON"]
      by (simp add: word_le_nat_alt MON_def)
    then show ?thesis
      using that by (simp add: checked_mul_div_Inr)
  qed
  have add: "checked_add x y = Inl (MathE e) \<Longrightarrow> e = Overflow" for x y
    by (simp add: checked_add_eq split: if_splits)
  have md: "checked_mul_div x y z = Inl (MathE e) \<Longrightarrow> z \<noteq> 0 \<Longrightarrow> e = Overflow" for x y z
    by (auto simp: checked_mul_div_def checked_mul_eq checked_div_eq split: if_splits)
  have sub: "checked_sub r c \<noteq> Inl (MathE e)" if "checked_mul_div r (this_epoch_view_commission v h) MON = Inr c" for v c
    using le [OF that] by (simp add: checked_sub_eq)
  have ap: "apply_reward v f n s g = Inl (MathE e) \<Longrightarrow> s \<noteq> 0 \<Longrightarrow> e = Overflow" for v f n s g
    by (auto simp: apply_reward_def tryR_eq_Inl Let_def dest: add md)
  have same: "this_epoch_view_commission v g = this_epoch_view_commission v h" if "mint_tokens r h = Inr g" for v g
    using add_to_balance_Inr(3) [OF that [unfolded mint_tokens_def]]
    by (simp add: this_epoch_view_commission_def load_def load_checked_def)
  have M: "MON \<noteq> 0"
    by (simp add: MON_def)
  show ?thesis
    using assms(2)
    by (auto simp: syscall_reward_def tryR_eq_Inl Let_def same mint_tokens_def abi_decode_fixed_short add_to_balance_fails_iff
        split: if_splits option.splits dest: add md ap sub dest!: M [THEN md [rotated]])
qed

text \<open>C22. In a reachable state the arithmetic of a block reward can only fail by an overflow: commissions are at
  most the whole reward and the stake of an active validator is not zero, so there is neither an underflow
  nor a division by zero, whatever the input is.\<close>

theorem reward_fails_only_by_overflow:
  assumes "reachable h"
  shows "syscall_reward t data r h \<noteq> Inl (MathE Underflow) \<and> syscall_reward t data r h \<noteq> Inl (MathE DivisionByZero)"
  using reward_math_error [OF assms, of t data r] by fastforce

section \<open>Stake becomes active\<close>

definition due :: "u64 \<Rightarrow> address \<Rightarrow> host \<Rightarrow> nat" where
  "due v a h = unat (del_stake v a h) +
     (if is_epoch_active (get_delta_epoch v a h) h then unat (delta_stake v a h) else 0) +
     (if is_epoch_active (get_next_delta_epoch v a h) h then unat (next_delta_stake v a h) else 0)"

lemma compound_and_credit_stakes:
  assumes "compound_and_credit v a h = Inr h'"
  shows "unat (del_stake v a h') = unat (del_stake v a h) + unat (delta_stake v a h)"
    "delta_stake v a h' = next_delta_stake v a h" "next_delta_stake v a h' = 0" "epoch h' = epoch h"
proof -
  obtain acc h1 s r h2 n where 1: "decrement_accumulator_refcount (get_delta_epoch v a h) v h = (acc, h1)"
    "checked_add (del_stake v a h1) (delta_stake v a h1) = Inr s"
    "reward_invariant v r (promote_delta v a (store u256_be (DStake v a) s (store u256_be (DAcc v a) acc h1))) = Inr h2"
    "h' = store u256_be (DRewards v a) n h2"
    using assms by (rule compound_and_creditE)
  note d = modifies_load(1) [OF decrement_frame(1) [OF 1(1)]] and ri = modifies_load(1) [OF reward_invariant_frame [OF 1(3)]]
  show "unat (del_stake v a h') = unat (del_stake v a h) + unat (delta_stake v a h)"
    "delta_stake v a h' = next_delta_stake v a h" "next_delta_stake v a h' = 0" "epoch h' = epoch h"
    using 1(2) by (simp_all add: 1(4) ri promote_delta_def Let_def set_delta_epoch_def set_next_delta_epoch_def d checked_add_Inr)
qed

lemma compound_and_credit_due:
  assumes "compound_and_credit v a h = Inr h'" and "is_epoch_active (get_delta_epoch v a h) h"
  shows "due v a h' = due v a h"
  using compound_and_credit_stakes [OF assms(1)] compound_and_credit_epochs [OF assms(1)] assms(2)
  by (simp add: due_def is_epoch_active_def)

lemma pull_start_due:
  assumes "scheduled v a h" and "ordered v a h" and "unat (epoch h) < 2 ^ 64 - 2"
  shows "due v a (pull_start v a h) = due v a h"
  using assms
  by (auto simp: due_def pull_start_def can_promote_delta_def promote_delta_epochs scheduled_def is_epoch_active_def
      promote_delta_def Let_def set_delta_epoch_def set_next_delta_epoch_def get_delta_epoch_def get_next_delta_epoch_def)

text \<open>C12. Bringing a delegator up to date in a reachable state activates exactly the stake that is due: afterwards the
  active stake is the active stake before plus every waiting amount whose epoch has begun, and what
  still waits, waits for a later epoch.\<close>

theorem pull_activates_due_stake:
  assumes "reachable h" and "pull_delegator_up_to_date v a h = Inr h'"
  shows "unat (del_stake v a h') = unat (del_stake v a h) +
      (if is_epoch_active (get_delta_epoch v a h) h then unat (delta_stake v a h) else 0) +
      (if is_epoch_active (get_next_delta_epoch v a h) h then unat (next_delta_stake v a h) else 0) \<and>
    \<not> is_epoch_active (get_delta_epoch v a h') h' \<and> \<not> is_epoch_active (get_next_delta_epoch v a h') h'"
proof -
  have i: "ordered v a h" "scheduled v a h" "unat (epoch h) < 2 ^ 64 - 2"
    using schedules.reachable [OF assms(1)] stakes.reachable [OF assms(1)] reachable_in_range [OF assms(1)]
    by (simp_all add: schedule_inv_def stake_inv_def in_range_def)
  have settle: "due v a h' = due v a g" if "settle_active_stake v a g = Inr h'" for g
    using settle_epochs [OF that] modifies_load(1) [OF settle_writes [OF that], of _ u256_be]
      modifies_load(1) [OF settle_writes [OF that], of Epoch u64_be]
    by (simp add: due_def is_epoch_active_def)
  have "due v a h' = due v a h"
    using i(1,3)
  proof (cases rule: pull_cases)
    case 1
    then show ?thesis
      using settle pull_start_due [OF i(2,1,3)] assms(2) by simp
  next
    case 2
    have "tryR (compound_and_credit v a (pull_start v a h)) (settle_active_stake v a) = Inr h'"
      using 2(3) assms(2) by simp
    then obtain g where "compound_and_credit v a (pull_start v a h) = Inr g" "settle_active_stake v a g = Inr h'"
      by (auto simp: tryR_eq_Inr)
    then show ?thesis
      using settle compound_and_credit_due 2(1) pull_start_due [OF i(2,1,3)] by simp
  next
    case 3
    have "tryR (compound_and_credit v a (pull_start v a h)) (\<lambda>g. tryR (compound_and_credit v a g) (settle_active_stake v a)) = Inr h'"
      using 3(3) assms(2) by simp
    then obtain g g' where g: "compound_and_credit v a (pull_start v a h) = Inr g" "compound_and_credit v a g = Inr g'"
      "settle_active_stake v a g' = Inr h'"
      by (auto simp: tryR_eq_Inr)
    have "is_epoch_active (get_delta_epoch v a g) g"
      using 3(2) compound_and_credit_epochs(1) [OF g(1)] compound_and_credit_stakes(4) [OF g(1)]
      by (simp add: is_epoch_active_def)
    then show ?thesis
      using settle [OF g(3)] compound_and_credit_due [OF g(2)] compound_and_credit_due [OF g(1) 3(1)]
        pull_start_due [OF i(2,1,3)] by simp
  qed
  moreover have "\<not> is_epoch_active (get_delta_epoch v a h') h'" "\<not> is_epoch_active (get_next_delta_epoch v a h') h'"
    using pull_epochs [OF assms(2) i(1,3)] by (auto simp: settled_def is_epoch_active_def word_le_nat_alt)
  ultimately show ?thesis
    by (simp add: due_def)
qed

section \<open>Withdrawals\<close>

lemma record_withdrawal_request:
  "withdrawal_request v a w (record_withdrawal t v n vs ds w a h) =
     \<lparr>wr_amount = n, wr_acc = del_acc v a h, wr_epoch = get_activation_epoch h\<rparr>"
proof -
  let ?g = "store u256_be (DStake v a) ds (store u256_be (VStake v) vs h)"
  have "del_acc v a (undelegate_flags t v vs a ?g) = del_acc v a h"
    using modifies_load(1) [OF flags_frame(2), of "DAcc v a" v u256_be t vs a ?g] by simp
  moreover have "get_activation_epoch ?g = get_activation_epoch h"
    by (simp add: get_activation_epoch_def)
  ultimately show ?thesis
    by (simp add: record_withdrawal_def Let_def event_defs modifies_load(1) [OF increment_frame(1)])
qed

text \<open>C13. An undelegation moves stake into a withdrawal without loss. In a reachable state it records a request for
  at least the asked amount, of which at most dust is more than asked for, at the epoch from which the stake
  stops counting, and the position of the delegator and the stake of the validator shrink by exactly
  the recorded amount.\<close>

theorem undelegate_records_withdrawal:
  assumes "reachable h" and "undelegate t v n w a h = Inr h'" and "n \<noteq> 0"
  shows "\<exists>r. withdrawal_request v a w h' = r \<and> n \<le> wr_amount r \<and> unat (wr_amount r) < unat n + unat dust_threshold \<and>
    unat (wr_epoch r) = unat (epoch h) + (if in_epoch_delay_period h then 2 else 1) \<and>
    unat (get_next_epoch_stake v a h') + unat (wr_amount r) = unat (get_next_epoch_stake v a h) \<and>
    unat (val_stake v h') + unat (wr_amount r) = unat (val_stake v h)"
  using assms(2)
proof (cases rule: undelegateE)
  case (2 h1 n' vs ds h2)
  have inv: "stake_inv h" "stake_inv h'" "boundary_ok h" "unat (epoch h) < 2 ^ 64 - 2"
    using reachable_invs [OF assms(1)] undelegate_stake_inv [OF assms(2)] reachable_in_range [OF assms(1)]
    by (simp_all add: in_range_def)
  have same: "get_activation_epoch h1 = get_activation_epoch h" "val_stake v h1 = val_stake v h"
    by (simp_all add: get_activation_epoch_def modifies_load [OF pull_frame [OF 2(4)]] write_set_iffs)
  have l: "modifies list_nodes h2 h'"
    using 2(8) list_frame(3,4) modifies_then [OF _ _ order_refl] by fastforce
  have r: "withdrawal_request v a w h' = \<lparr>wr_amount = n', wr_acc = del_acc v a h1, wr_epoch = get_activation_epoch h\<rparr>"
    using record_withdrawal_request [of v a w t n' vs ds h1] by (simp add: modifies_load(1) [OF l] 2(7) same)
  have vs: "val_stake v h' = vs"
    using modifies_load(1) [OF record_withdrawal_rest [of v a w ds vs h1 t n'], of "VStake v" u256_be]
    by (auto simp: modifies_load(1) [OF l] 2(7))
  have am: "unat n \<le> unat n'" "unat n' < unat n + unat dust_threshold" "unat (val_stake v h1) = unat n' + unat vs"
    using 2(6) by (auto simp: undelegate_amounts_def try_simps checked_sub_Inr checked_add_Inr word_less_nat_alt
        dust_threshold_def split: if_splits)
  have "pool v h' + position v a h = pool v h + position v a h'"
    by (rule pool_change) (rule position_modifies(1) [OF undelegate_frame [OF assms(2)]], auto simp: write_set_iffs position_vars_def)
  moreover have pool: "unat (val_stake v g) = pool v g" if "stake_inv g" for g
    using that by (simp add: stake_inv_def)
  ultimately have "position v a h' + unat n' = position v a h"
    using pool [OF inv(1)] pool [OF inv(2)] am(3) vs same(2) by simp
  then show ?thesis
    using r am vs same(2) activation_epoch [OF inv(3,4)] next_epoch_stake_exact [OF inv(1), of v a]
      next_epoch_stake_exact [OF inv(2), of v a]
    by (simp add: word_le_nat_alt)
qed (use assms(3) in simp)


section \<open>Epochs\<close>

text \<open>C20. A change of the epoch only goes forward: the system call succeeds exactly when it is well formed, carries
  no value and names an epoch later than the current one; afterwards that epoch runs, the boundary is over,
  and the validators that earn rewards are those of the consensus view.\<close>

theorem epoch_change_goes_forward:
  "((\<exists>h'. syscall_on_epoch_change data x h = Inr h') \<longleftrightarrow>
      x = 0 \<and> (\<exists>e. abi_decode_fixed data = Inr (e, []) \<and> epoch h < e)) \<and>
   (\<forall>h'. syscall_on_epoch_change data x h = Inr h' \<longrightarrow>
      abi_decode_fixed data = Inr (epoch h', []) \<and> epoch h < epoch h' \<and> \<not> in_epoch_delay_period h' \<and>
      this_epoch_valset h' = Consensus \<and> array_contents Consensus h' = array_contents Consensus h \<and>
      this_epoch_view_stake v h' = load u256_be (ConsStake v) h \<and>
      this_epoch_view_commission v h' = load u256_be (ConsCommission v) h)"
proof (rule conjI)
  show "(\<exists>h'. syscall_on_epoch_change data x h = Inr h') \<longleftrightarrow>
     x = 0 \<and> (\<exists>e. abi_decode_fixed data = Inr (e, []) \<and> epoch h < e)"
    by (auto simp: syscall_on_epoch_change_def tryR_eq_Inr Let_def not_le)
next
  have "abi_decode_fixed data = Inr (epoch h', []) \<and> epoch h < epoch h' \<and> \<not> in_epoch_delay_period h' \<and>
      this_epoch_valset h' = Consensus \<and> array_contents Consensus h' = array_contents Consensus h \<and>
      this_epoch_view_stake v h' = load u256_be (ConsStake v) h \<and>
      this_epoch_view_commission v h' = load u256_be (ConsCommission v) h"
    if c: "syscall_on_epoch_change data x h = Inr h'" for h'
  proof -
    note m = epoch_change_frame [OF c]
    have keep: "load u256_be (ConsStake v) h' = load u256_be (ConsStake v) h"
      "load u256_be (ConsCommission v) h' = load u256_be (ConsCommission v) h"
      "array_contents Consensus h' = array_contents Consensus h"
      using array_contents_modifies [OF m, of Consensus] by (simp_all add: modifies_load(1) [OF m] write_set_iffs)
    obtain e where e: "abi_decode_fixed data = Inr (e, [])" "epoch h < e" "epoch h' = e" "\<not> in_epoch_delay_period h'"
      "load_checked bool_codec InBoundary h' = None"
      using c by (auto elim!: epoch_changeE)
    show ?thesis
      using e keep by (simp add: this_epoch_valset_def this_epoch_view_stake_def this_epoch_view_commission_def)
  qed
  then show "\<forall>h'. syscall_on_epoch_change data x h = Inr h' \<longrightarrow>
      abi_decode_fixed data = Inr (epoch h', []) \<and> epoch h < epoch h' \<and> \<not> in_epoch_delay_period h' \<and>
      this_epoch_valset h' = Consensus \<and> array_contents Consensus h' = array_contents Consensus h \<and>
      this_epoch_view_stake v h' = load u256_be (ConsStake v) h \<and>
      this_epoch_view_commission v h' = load u256_be (ConsCommission v) h"
    by blast
qed

end
