(* ===== verification/Scenario.thy ===== *)
theory Scenario
  imports Calls Rewards
begin

text \<open>
  A concrete run of the contract: an account registers a validator with twenty million MON, a snapshot
  elects it and the epoch changes. The states of the run show that the hypotheses of the properties
  can be met by states in which something has happened.
\<close>

section \<open>The genesis block and the first call\<close>

definition alice :: address where
  "alice = 0xA11CE"

definition stake0 :: u256 where
  "stake0 = 20000000 * MON"

definition genesis :: host where
  "genesis = \<lparr>storage = (\<lambda>_. 0),
     accounts = (\<lambda>a. if a = alice then Some \<lparr>balance = 50000000 * MON, code_hash = NULL_HASH, nonce = 0, incarnation = new_Incarnation 0 0\<rparr> else None),
     logs = [], tx_incarnation = new_Incarnation 1 1\<rparr>"

definition alice_call :: message where
  "alice_call = \<lparr>kind = EVMC_CALL, msg_flags = 0, depth = 0, gas = 1000000, recipient = STAKING_CA, sender = alice,
     input_data = [], msg_value = stake0, code_address = STAKING_CA\<rparr>"

definition alice_keys :: validator_message where
  "alice_keys = \<lparr>m_secp_pubkey = replicate 33 2, m_bls_pubkey = replicate 48 3, m_auth_address = alice,
     m_signed_stake = word_bytes stake0, m_commission = 100000000000000000\<rparr>"

lemma transfer_ok: "\<exists>h. transfer_balances False alice_call STAKING_CA genesis = Inr h \<and> storage h = (\<lambda>_. 0)"
  by (simp add: transfer_balances_def subtract_from_balance_def add_to_balance_def genesis_def account_or_new_def
      new_account_def alice_call_def stake0_def MON_def alice_def STAKING_CA_def emit_native_transfer_event_def)

section \<open>A first delegation\<close>

text \<open>An account without a position delegates outside the boundary: nothing can go wrong but an overflow.\<close>

lemma pull_fresh:
  assumes "epochs v a h = \<lparr>delta_epoch = 0, next_delta_epoch = 0\<rparr>" and "del_stake v a h = 0"
  shows "\<exists>h'. pull_delegator_up_to_date v a h = Inr h' \<and> modifies {DDelta v a, DNextDelta v a, DEpochs v a} h h' \<and>
    delta_stake v a h' = next_delta_stake v a h \<and> next_delta_stake v a h' = 0 \<and> epochs v a h' = \<lparr>delta_epoch = 0, next_delta_epoch = 0\<rparr>"
proof -
  let ?g = "promote_delta v a h"
  have "can_promote_delta v a (epoch h) h"
    using assms(1) by (simp add: can_promote_delta_def get_delta_epoch_def get_next_delta_epoch_def)
  moreover have "epochs v a ?g = \<lparr>delta_epoch = 0, next_delta_epoch = 0\<rparr>" "del_stake v a ?g = 0"
    "delta_stake v a ?g = next_delta_stake v a h" "next_delta_stake v a ?g = 0"
    using assms by (simp_all add: promote_delta_def Let_def set_delta_epoch_def set_next_delta_epoch_def get_next_delta_epoch_def)
  ultimately show ?thesis
    using promote_delta_frame [of v a h]
    by (simp add: pull_delegator_up_to_date_def Let_def is_epoch_active_def settle_active_stake_def
        get_delta_epoch_def get_next_delta_epoch_def)
qed

lemma delegate_fresh:
  assumes "val_exists v h" and "dust_threshold \<le> s" and "\<not> in_epoch_delay_period h"
    and "epochs v a h = \<lparr>delta_epoch = 0, next_delta_epoch = 0\<rparr>" "del_stake v a h = 0" "next_delta_stake v a h = 0"
    and "unat (val_stake v h) + unat s < 2 ^ 256" and "a \<noteq> 0" "a \<noteq> - 1" "v \<noteq> 0" "v \<noteq> - 1"
  shows "\<exists>h'. delegate t v s a h = Inr h'"
proof -
  obtain h1 where 1: "pull_delegator_up_to_date v a h = Inr h1"
    and m: "modifies {DDelta v a, DNextDelta v a, DEpochs v a} h h1" and d: "delta_stake v a h1 = 0"
    using pull_fresh [OF assms(4,5)] assms(6) by auto
  have h1: "val_stake v h1 = val_stake v h" "\<not> in_epoch_delay_period h1"
    using assms(3) by (simp_all add: modifies_load(1) [OF m])
  have "checked_add (delta_stake v a h1) s = Inr s"
    by (simp add: checked_add_Inr d)
  then obtain h2 where 2: "delegate_stake v s a h1 = Inr h2"
    using h1(2) by (auto simp: delegate_stake_def Let_def)
  have "val_stake v h2 = val_stake v h1"
    by (rule modifies_load(1) [OF delegate_stake_frame [OF 2]]) (simp_all add: write_set_iffs)
  then obtain n where n: "checked_add (val_stake v h2) s = Inr n"
    using assms(7) h1(1) by (simp add: checked_add_eq)
  have ins: "\<exists>g'. linked_list_insert delegators_of v a g = Inr g'" "\<exists>g'. linked_list_insert validators_of a v g = Inr g'" for g
    using dels.insert_fails_iff [of v a g] vals.insert_fails_iff [of a v g] assms(8-11)
    by (cases "linked_list_insert delegators_of v a g"; cases "linked_list_insert validators_of a v g";
        simp add: delegators_of_def validators_of_def)+
  show ?thesis
    using assms(1,2) 1 2 n ins by (auto simp: delegate_def tryR_eq_Inr not_less Let_def) metis
qed

lemma delegate_fresh_position:
  assumes "delegate t v s a h = Inr h'" and "load_checked bool_codec InBoundary h = None" and "\<not> in_epoch_delay_period h"
    and "epochs v a h = \<lparr>delta_epoch = 0, next_delta_epoch = 0\<rparr>" "del_stake v a h = 0" "next_delta_stake v a h = 0"
    and "accumulator (epoch h + 1) v h = \<lparr>ra_value = 0, refcount = 0\<rparr>" "val_acc v h = 0"
  shows "del_stake v a h' = 0 \<and> delta_stake v a h' = s \<and> next_delta_stake v a h' = 0 \<and>
    epochs v a h' = \<lparr>delta_epoch = epoch h + 1, next_delta_epoch = 0\<rparr> \<and>
    accumulator (epoch h + 1) v h' = \<lparr>ra_value = 0, refcount = 1\<rparr> \<and>
    (\<forall>x \<in> {VAcc v, DAcc v a, VUnclaimed v, DRewards v a}. load u256_be x h' = load u256_be x h)"
  using assms(1)
proof (cases rule: delegateE)
  case (1 h1 h2 n h3)
  have m: "modifies {DDelta v a, DNextDelta v a, DEpochs v a} h h1" and d: "delta_stake v a h1 = 0" "next_delta_stake v a h1 = 0"
    "epochs v a h1 = \<lparr>delta_epoch = 0, next_delta_epoch = 0\<rparr>"
    using pull_fresh [OF assms(4,5)] 1(3) assms(6) by auto
  have h1: "del_stake v a h1 = 0" "epoch h1 = epoch h" "get_activation_epoch h1 = epoch h + 1"
    "accumulator (epoch h + 1) v h1 = \<lparr>ra_value = 0, refcount = 0\<rparr>" "\<not> in_epoch_delay_period h1" "val_acc v h1 = 0"
    "load_checked bool_codec InBoundary h1 = None" "\<forall>x \<in> {VAcc v, DAcc v a, VUnclaimed v, DRewards v a}. load u256_be x h1 = load u256_be x h"
    using assms(2-8) by (simp_all add: get_activation_epoch_def modifies_load [OF m])
  have "checked_add 0 s = Inr s"
    by (simp add: checked_add_Inr)
  then have "h2 = emit_delegation_event v a s (epoch h + 1) (increment_accumulator_refcount v
      (set_delta_epoch v a (epoch h + 1) (store u256_be (DDelta v a) s h1)))"
    using 1(4) h1 d by (simp add: delegate_stake_def Let_def get_delta_epoch_def)
  then have h2: "del_stake v a h2 = 0" "delta_stake v a h2 = s" "next_delta_stake v a h2 = 0"
    "epochs v a h2 = \<lparr>delta_epoch = epoch h + 1, next_delta_epoch = 0\<rparr>"
    "accumulator (epoch h + 1) v h2 = \<lparr>ra_value = 0, refcount = 1\<rparr>"
    "\<forall>x \<in> {VAcc v, DAcc v a, VUnclaimed v, DRewards v a}. load u256_be x h2 = load u256_be x h"
    using h1 d
    by (simp_all add: event_defs increment_accumulator_refcount_def set_delta_epoch_def get_activation_epoch_def Let_def)
  note f = delegate_after_stake [OF 1(6,7)]
  show ?thesis
    using h2 modifies_load(1) [OF f, of "DStake v a" u256_be] modifies_load(1) [OF f, of "DDelta v a" u256_be]
      modifies_load(1) [OF f, of "DNextDelta v a" u256_be] modifies_load(1) [OF f, of "DEpochs v a" epochs_codec]
      modifies_load(1) [OF f, of "Accumulator (epoch h + 1) v" accumulator_codec]
    by (simp add: modifies_load(1) [OF f] val_bitset_bucket_def image_iff)
qed

text \<open>A delegation of the owner that reaches both thresholds clears both flags.\<close>

lemma delegate_clears_flags:
  assumes "delegate t v s a h = Inr h'" and "stake_inv h" and "in_range h"
    and "active_validator_stake t \<le> val_stake v h'" and "a = val_auth_address v h" and "unat min_auth_address_stake \<le> unat s"
    and "get_flags v h = ValidatorFlagsStakeTooLow"
  shows "get_flags v h' = ValidatorFlagsOk"
proof -
  have e: "unat (epoch h) < 2 ^ 64 - 2"
    using assms(3) by (simp add: in_range_def)
  obtain h1 h2 n h3 where 1: "pull_delegator_up_to_date v a h = Inr h1" "delegate_stake v s a h1 = Inr h2"
    "checked_add (val_stake v h2) s = Inr n"
    "linked_list_insert delegators_of v a (delegate_valset v (delegate_flags t v n a (store u256_be (VStake v) n h2))) = Inr h3"
    "linked_list_insert validators_of a v h3 = Inr h'"
    using assms(1) by (rule delegateE)
  let ?k = "store u256_be (VStake v) n h2"
  have m: "modifies (pull_vars v a) h h2"
    by (rule modifies_then [OF pull_frame [OF 1(1)] delegate_stake_frame [OF 1(2)] order_refl])
  have k: "get_flags v ?k = get_flags v h" "val_auth_address v ?k = val_auth_address v h"
    using address_flags_modifies [OF m, of v] by (simp_all add: write_set_iffs get_flags_def val_auth_address_def)
  have f: "get_flags v h' = get_flags v (delegate_flags t v n a ?k)"
    using address_flags_modifies [OF delegate_after_flags(1) [OF 1(4,5)], of v] by (auto simp: val_bitset_bucket_def)
  have n: "val_stake v h' = n"
    using modifies_load(1) [OF delegate_after_stake [OF 1(4,5)], of "VStake v" u256_be] by (auto simp: val_bitset_bucket_def)
  have "get_next_epoch_stake v a h' = get_next_epoch_stake v a ?k"
    using modifies_load(1) [OF delegate_after_stake [OF 1(4,5)], of "DStake v a" u256_be]
      modifies_load(1) [OF delegate_after_stake [OF 1(4,5)], of "DDelta v a" u256_be]
      modifies_load(1) [OF delegate_after_stake [OF 1(4,5)], of "DNextDelta v a" u256_be]
    by (simp add: get_next_epoch_stake_def val_bitset_bucket_def image_iff)
  moreover have "min_auth_address_stake \<le> get_next_epoch_stake v a h'"
    using next_epoch_stake_exact [OF delegate_stake_inv(1) [OF assms(1,2) e], of v a] delegate_stake_inv(2) [OF assms(1,2) e] assms(6)
    by (simp add: word_le_nat_alt)
  ultimately show ?thesis
    using assms(4,5,7) n k unfolding f delegate_flags_value Let_def
    by (simp add: ValidatorFlagsStakeTooLow_def ValidatorFlagWithdrawn_def ValidatorFlagsOk_def)
qed

lemma delegate_val_stake:
  assumes "delegate t v s a h = Inr h'"
  shows "unat (val_stake v h') = unat (val_stake v h) + unat s"
  using assms
proof (cases rule: delegateE)
  case (1 h1 h2 n h3)
  have m: "modifies (pull_vars v a) h h2"
    by (rule modifies_then [OF pull_frame [OF 1(3)] delegate_stake_frame [OF 1(4)] order_refl])
  show ?thesis
    using modifies_load(1) [OF m, of "VStake v" u256_be] 1(5)
      modifies_load(1) [OF delegate_after_stake [OF 1(6,7)], of "VStake v" u256_be]
    by (simp add: write_set_iffs val_bitset_bucket_def image_iff checked_add_Inr)
qed

section \<open>The run\<close>

text \<open>After the first call.\<close>

lemma load_zero:
  assumes "storage h = (\<lambda>_. 0)"
  shows "load u64_be x h = 0" "load u256_be x h = 0" "load bool_codec x h = False"
    "load epochs_codec x h = \<lparr>delta_epoch = 0, next_delta_epoch = 0\<rparr>" "load_checked c x h = None"
  using assms
  by (simp_all add: load_def load_checked_def sv_load_checked_def load_slots_def Let_def list_ex_iff
      sv_u64.load_zero_storage sv_u256.load_zero_storage sv_bool.load_zero_storage sv_epochs.load_zero_storage)

lemma distinct_single: "distinct xs \<Longrightarrow> set xs = {x} \<Longrightarrow> xs = [x]"
  by (cases xs; cases "tl xs") auto

text \<open>What the first delegation leaves behind: a position that waits for the next epoch, and nothing else.\<close>

definition waiting :: "host \<Rightarrow> bool" where
  "waiting h \<longleftrightarrow> del_stake 1 alice h = 0 \<and> delta_stake 1 alice h = stake0 \<and> next_delta_stake 1 alice h = 0 \<and>
     epochs 1 alice h = \<lparr>delta_epoch = 1, next_delta_epoch = 0\<rparr> \<and> accumulator 1 1 h = \<lparr>ra_value = 0, refcount = 1\<rparr> \<and>
     val_acc 1 h = 0 \<and> del_acc 1 alice h = 0 \<and> unclaimed_rewards 1 h = 0 \<and> del_rewards 1 alice h = 0 \<and>
     array_contents Snapshot h = [] \<and> load_checked withdrawal_codec (Withdrawal 1 alice 0) h = None \<and>
     load_checked u64_be (ValIdSecp 0x51) h = Some 1"

lemma first_delegation_waits:
  assumes g: "storage g = (\<lambda>_. 0)" and c: "create_validator 0x51 0x52 alice_keys g = Inr (1, c)"
    and h: "delegate MONAD_NINE 1 stake0 alice c = Inr h"
  shows "waiting h"
proof -
  note m = create_validator_frame(2) [OF c] and d = delegate_frame [OF h]
  have acc: "accumulator e 1 g = \<lparr>ra_value = 0, refcount = 0\<rparr>" for e
    using g by (simp add: load_def sv_acc.load_zero_storage)
  have pos: "del_stake 1 alice h = 0 \<and> delta_stake 1 alice h = stake0 \<and> next_delta_stake 1 alice h = 0 \<and>
    epochs 1 alice h = \<lparr>delta_epoch = 1, next_delta_epoch = 0\<rparr> \<and> accumulator 1 1 h = \<lparr>ra_value = 0, refcount = 1\<rparr> \<and>
    (\<forall>x \<in> {VAcc 1, DAcc 1 alice, VUnclaimed 1, DRewards 1 alice}. load u256_be x h = load u256_be x c)"
    using delegate_fresh_position [OF h] acc
    by (simp add: modifies_load [OF m] write_set_iffs load_zero [OF g])
  have "array_contents Snapshot h = []"
    using array_contents_modifies [OF d, of Snapshot] array_contents_modifies [OF m, of Snapshot]
    by (simp add: write_set_iffs val_bitset_bucket_def array_contents_eq load_zero [OF g])
  moreover have "load_checked withdrawal_codec (Withdrawal 1 alice 0) h = None"
    by (simp add: modifies_load [OF d] modifies_load [OF m] write_set_iffs val_bitset_bucket_def load_zero [OF g])
  moreover have "load_checked u64_be (ValIdSecp 0x51) c = Some 1"
    using c by (auto simp: create_validator_def Let_def event_defs split: if_splits)
  then have "load_checked u64_be (ValIdSecp 0x51) h = Some 1"
    by (simp add: modifies_load [OF d] write_set_iffs val_bitset_bucket_def)
  ultimately show ?thesis
    using pos by (simp add: waiting_def modifies_load [OF m] write_set_iffs load_zero [OF g])
qed

lemma registered:
  "\<exists>h. waiting h \<and> reachable h \<and> val_exists 1 h \<and> get_flags 1 h = ValidatorFlagsOk \<and> val_stake 1 h = stake0 \<and>
     last_val_id h = 1 \<and> epoch h = 0 \<and> \<not> in_epoch_delay_period h \<and>
     array_contents Execution h = [1] \<and> position 1 alice h = unat stake0"
proof -
  obtain g where g: "transfer_balances False alice_call STAKING_CA genesis = Inr g" "storage g = (\<lambda>_. 0)"
    using transfer_ok by blast
  have "\<exists>c. create_validator 0x51 0x52 alice_keys g = Inr (1, c)"
    by (simp add: create_validator_def Let_def load_zero [OF g(2)])
  then obtain c where c: "create_validator 0x51 0x52 alice_keys g = Inr (1, c)" ..
  note m = create_validator_frame(2) [OF c] and l = create_validator_loads [OF c]
  have inv: "stake_inv c" "in_range c"
    using stake_inv_modifies [OF stakes.init [OF g(2)] m] l(1)
    by (auto simp: write_set_iffs position_vars_def in_range_def modifies_load(1) [OF m] load_zero [OF g(2)])
  have cl: "val_auth_address 1 c = alice" "get_flags 1 c = ValidatorFlagsStakeTooLow" "val_stake 1 c = 0"
    using l(2)
    by (simp_all add: val_auth_address_def get_flags_def alice_keys_def modifies_load(1) [OF m] write_set_iffs load_zero [OF g(2)])
  obtain h where h: "delegate MONAD_NINE 1 stake0 alice c = Inr h"
    using delegate_fresh [of 1 c stake0 alice MONAD_NINE] cl
    by (auto simp: modifies_load(1) [OF m] write_set_iffs load_zero [OF g(2)] val_exists_def alice_def stake0_def MON_def
        dust_threshold_def)
  have op: "contract_op MONAD_NINE alice stake0 g h"
    using op_add_validator [of alice_keys stake0 "0x51" "0x52" g 1 c MONAD_NINE h alice] c h
    by (simp add: alice_keys_def max_commission_def stake0_def MON_def min_auth_address_stake_def)
  have w: "waiting h"
    by (rule first_delegation_waits [OF g(2) c h])
  have "staking_step genesis h"
    using step_call [of alice_call False genesis g MONAD_NINE h] op g(1) by (simp add: alice_call_def alice_def STAKING_CA_def)
  moreover note d = delegate_frame [OF h]
  have fr: "last_val_id h = 1" "epoch h = 0" "\<not> in_epoch_delay_period h"
    using l(1) by (simp_all add: modifies_load(1) [OF d] modifies_load(1) [OF m] write_set_iffs val_bitset_bucket_def
        load_zero [OF g(2)])
  ultimately have r: "reachable h"
    using reachable_step [OF reachable_init [of genesis]] by (simp add: genesis_def in_range_def)
  have st: "unat (val_stake 1 h) = unat stake0" "position 1 alice h = unat stake0"
    using delegate_val_stake [OF h] delegate_stake_inv(2) [OF h inv(1)] inv(2) cl(3) position_le_val_stake [OF inv(1), of 1 alice]
    by (simp_all add: in_range_def)
  have ok: "get_flags 1 h = ValidatorFlagsOk"
    using delegate_clears_flags [OF h inv _ _ _ cl(2)] cl(1) st(1)
    by (simp add: word_le_nat_alt active_validator_stake_def rev_order stake0_def min_auth_address_stake_def MON_def)
  note v = valset_invD [OF reachable_invs(3) [OF r]]
  have ex: "val_exists u h \<longleftrightarrow> u = 1" for u
    using v(3) [of u] fr(1) by (auto simp: word_le_nat_alt word_unat_eq_iff)
  have "set (array_contents Execution h) = {1}"
    using v(2,4,5) ex ok by blast
  then have "array_contents Execution h = [1]"
    by (rule distinct_single [OF v(1)])
  then show ?thesis
    using w r st fr ok ex by (auto simp: word_unat_eq_iff [of _ stake0])
qed

text \<open>A snapshot elects the validator.\<close>

lemma add_nothing:
  "\<exists>g. add_to_balance STAKING_CA 0 h = Inr g \<and> storage g = storage h \<and> get_balance STAKING_CA h \<le> get_balance STAKING_CA g"
  by (auto simp: add_to_balance_def Let_def get_balance_def account_or_new_def new_account_def split: option.splits)

lemma elected:
  "\<exists>h h'. reachable h \<and> \<not> in_epoch_delay_period h \<and> val_exists 1 h \<and> get_flags 1 h = ValidatorFlagsOk \<and> val_stake 1 h = stake0 \<and>
     syscall_snapshot [] 0 h = Inr h' \<and> reachable h' \<and> in_epoch_delay_period h' \<and> epoch h' = 0 \<and> last_val_id h' = 1 \<and>
     array_contents Consensus h' = [1] \<and> load u256_be (ConsStake 1) h' = stake0 \<and> position 1 alice h' = unat stake0"
proof -
  obtain h where h: "reachable h" "val_exists 1 h" "get_flags 1 h = ValidatorFlagsOk" "val_stake 1 h = stake0"
    "last_val_id h = 1" "epoch h = 0" "\<not> in_epoch_delay_period h" "array_contents Execution h = [1]"
    "position 1 alice h = unat stake0"
    using registered by blast
  obtain g where g: "add_to_balance STAKING_CA 0 h = Inr g" "storage g = storage h"
    "get_balance STAKING_CA h \<le> get_balance STAKING_CA g"
    using add_nothing by blast
  have m: "modifies {} h g"
    by (rule modifies_storage [OF g(2)])
  have same: "get_flags 1 g = ValidatorFlagsOk" "val_exists 1 g" "val_stake 1 g = stake0" "last_val_id g = 1" "epoch g = 0"
    "\<not> in_epoch_delay_period g" "array_contents Execution g = [1]" "position 1 alice g = unat stake0"
    using h address_flags_modifies [OF m, of 1] array_contents_modifies [OF m, of Execution] position_modifies(1) [OF m, of 1 alice]
    by (simp_all add: modifies_load(1) [OF m])
  have rg: "reachable g"
    using reachable_step [OF h(1) step_chain [OF g(2,3)]] same(4,5) by (simp add: in_range_def)
  obtain h' where h': "syscall_snapshot [] 0 g = Inr h'" "snapshot_post g h'"
    using snapshot_correct [OF same(6)] by blast
  note post = snapshot_postD [OF h'(2)] and f = snapshot_frame [OF h'(1)]
  have ch: "chosen g = [1]"
    using same(1,7) by (simp add: chosen_def eligible_def active_valset_size_def partial_sort_def)
  have keep: "epoch h' = 0" "last_val_id h' = 1" "position 1 alice h' = unat stake0"
    using same(4,5,8) position_modifies(1) [OF f, of 1 alice]
    by (auto simp: modifies_load(1) [OF f] write_set_iffs position_vars_def)
  have "execute_staking_syscall MONAD_NINE [0x15, 0x7e, 0xeb, 0x21] 0 h = Inr h'"
    using g(1) h'(1) by (simp add: execute_staking_syscall_def load_be_u32_def bytes_word_def of_be_def
        selector_REWARD_def selector_SNAPSHOT_def)
  then have "reachable h'"
    using reachable_step [OF h(1) step_syscall] keep(1,2) by (simp add: in_range_def)
  then show ?thesis
    using rg same(1-3,6) h'(1) keep post(2,9) post(7) [of 1] ch by auto
qed

text \<open>The next epoch: the stake of the first call is active.\<close>

lemma no_rewards: "calculate_rewards s 0 0 = Inr 0"
  by (simp add: calculate_rewards_def checked_sub_eq checked_mul_div_def checked_mul_eq checked_div_eq UNIT_BIAS_def)

lemma first_pull:
  assumes "waiting h" and "epoch h = 1"
  shows "\<exists>h'. pull_delegator_up_to_date 1 alice h = Inr h' \<and> del_stake 1 alice h' = stake0 \<and> delta_stake 1 alice h' = 0 \<and>
    next_delta_stake 1 alice h' = 0 \<and> val_stake 1 h' = val_stake 1 h"
proof -
  define g where "g = clear accumulator_codec (Accumulator 1 1) h"
  define g1 where "g1 = promote_delta 1 alice (store u256_be (DStake 1 alice) stake0 (store u256_be (DAcc 1 alice) 0 g))"
  have w: "del_stake 1 alice h = 0" "delta_stake 1 alice h = stake0" "next_delta_stake 1 alice h = 0"
    "epochs 1 alice h = \<lparr>delta_epoch = 1, next_delta_epoch = 0\<rparr>" "accumulator 1 1 h = \<lparr>ra_value = 0, refcount = 1\<rparr>"
    "val_acc 1 h = 0" "del_acc 1 alice h = 0" "unclaimed_rewards 1 h = 0" "del_rewards 1 alice h = 0"
    using assms(1) by (simp_all add: waiting_def)
  have "checked_add 0 stake0 = Inr stake0" "checked_add 0 (0 :: u256) = Inr 0" "checked_sub 0 (0 :: u256) = Inr 0"
    by (simp_all add: checked_add_Inr checked_sub_Inr)
  note m = this no_rewards
  have "apply_compound 1 alice h = Inr (0, g1)"
    using w by (simp add: apply_compound_def decrement_accumulator_refcount_def Let_def get_delta_epoch_def m g_def g1_def)
  then have "compound_and_credit 1 alice h = Inr (store u256_be (DRewards 1 alice) 0 (store u256_be (VUnclaimed 1) 0 g1))" (is "_ = Inr ?g2")
    using w by (simp add: compound_and_credit_def reward_invariant_def Let_def m g1_def g_def promote_delta_def
        set_delta_epoch_def set_next_delta_epoch_def)
  moreover have "settle_active_stake 1 alice ?g2 = Inr (store u256_be (DAcc 1 alice) 0 (store u256_be (DRewards 1 alice) 0 (store u256_be (VUnclaimed 1) 0 ?g2)))"
    using w by (simp add: settle_active_stake_def reward_invariant_def Let_def m g1_def g_def promote_delta_def
        set_delta_epoch_def set_next_delta_epoch_def stake0_def MON_def)
  ultimately have "pull_delegator_up_to_date 1 alice h = Inr (store u256_be (DAcc 1 alice) 0 (store u256_be (DRewards 1 alice) 0 (store u256_be (VUnclaimed 1) 0 ?g2)))"
    using w assms(2) by (simp add: pull_delegator_up_to_date_def Let_def can_promote_delta_def get_delta_epoch_def
        get_next_delta_epoch_def is_epoch_active_def)
  then show ?thesis
    using w(3) by (simp add: g1_def g_def promote_delta_def set_delta_epoch_def set_next_delta_epoch_def Let_def)
qed

lemma running:
  "\<exists>h. reachable h \<and> waiting h \<and> epoch h = 1 \<and> val_exists 1 h \<and> val_stake 1 h = stake0"
proof -
  obtain h where h: "waiting h" "reachable h" "val_exists 1 h" "val_stake 1 h = stake0" "last_val_id h = 1" "epoch h = 0"
    using registered by blast
  obtain g where g: "add_to_balance STAKING_CA 0 h = Inr g" "storage g = storage h"
    using add_nothing by blast
  have m: "modifies {} h g"
    by (rule modifies_storage [OF g(2)])
  define h' where "h' = store u64_be Epoch 1 (clear bool_codec InBoundary (emit_epoch_changed_event 0 1 g))"
  have "array_length Snapshot g = 0"
    using h(1) array_contents_modifies [OF m, of Snapshot] by (simp add: valset_array.len_zero_iff waiting_def)
  then have "syscall_on_epoch_change (abi_encode_uint (1 :: u64)) 0 g = Inr h'"
    using h(6) abi_roundtrips(3) [of 1 "[]"]
    by (simp add: syscall_on_epoch_change_def Let_def modifies_load(1) [OF m] h'_def array_length_def emit_epoch_changed_event_def)
  then have "execute_staking_syscall MONAD_NINE ([0x1d, 0x4e, 0x9f, 0x02] @ abi_encode_uint (1 :: u64)) 0 h = Inr h'"
    using g(1) by (simp add: execute_staking_syscall_def load_be_u32_def bytes_word_def of_be_def
        selector_REWARD_def selector_SNAPSHOT_def selector_ON_EPOCH_CHANGE_def)
  then have st: "staking_step h h'"
    by (rule step_syscall)
  have "modifies {Epoch, InBoundary} g h'"
    by (auto simp: h'_def event_defs intro!: modifies_intros)
  then have f: "modifies {Epoch, InBoundary} h h'"
    by (rule modifies_trans [OF m]) simp
  have "waiting h'"
    using h(1) array_contents_modifies [OF f, of Snapshot] by (simp add: waiting_def modifies_load [OF f])
  moreover have "epoch h' = 1" "last_val_id h' = 1" "val_stake 1 h' = stake0"
    using h(4,5) by (simp_all add: modifies_load(1) [OF f]) (simp add: h'_def)
  moreover have "val_exists 1 h'"
    using h(3) address_flags_modifies [OF f, of 1] by (simp add: val_exists_def)
  ultimately show ?thesis
    using reachable_step [OF h(2) st] by (auto simp: in_range_def)
qed

end
