(* ===== verification/Witnesses.thy ===== *)
theory Witnesses
  imports Scenario
begin

text \<open>
  The properties that have hypotheses, applied to the states of the concrete run or to small inputs that
  are evaluated.
\<close>

section \<open>Lower components\<close>

theorem variables_never_overlap_witness:
  "svar_key (DStake 1 2) + word_of_nat 0 \<noteq> svar_key (DStake 2 1) + word_of_nat 0"
  by (rule variables_never_overlap) simp_all

theorem encoder_meets_abi_spec_witness:
  "encode_final (fold add_item [Static (word_bytes (5 :: u256)), Dynamic [1, 2, 3]] empty_encoder) =
     abi_spec [Static (word_bytes (5 :: u256)), Dynamic [1, 2, 3]]"
  by (rule encoder_meets_abi_spec) simp

lemma genesis_storage [simp]: "storage genesis = (\<lambda>_. 0)"
  by (simp add: genesis_def)

lemma genesis_reachable: "reachable genesis"
  by (rule reachable_init) simp


section \<open>Invariants\<close>

theorem reachable_solvent_witness:
  "\<exists>h. reachable h \<and> val_stake 1 h = stake0 \<and> liabilities h \<le> unat (get_balance STAKING_CA h)"
  using registered reachable_solvent by blast

theorem payouts_never_insolvent_witness:
  "\<exists>h. val_stake 1 h = stake0 \<and> solvent h \<and> withdraw 1 0 alice h \<noteq> Inl (Thrown ''withdrawal insolvent'')"
  using registered reachable_is_solvent payouts_never_insolvent by blast

theorem validator_stake_is_sum_witness:
  "\<exists>h. reachable h \<and> unat stake0 =
     (\<Sum>a\<in>UNIV. unat (del_stake 1 a h) + unat (delta_stake 1 a h) + unat (next_delta_stake 1 a h))"
proof -
  obtain h where h: "reachable h" "val_stake 1 h = stake0"
    using registered by blast
  then show ?thesis
    using validator_stake_is_sum [OF h(1), of 1] by auto
qed

theorem execution_set_exact_witness:
  "\<exists>h. reachable h \<and> array_contents Execution h = [1] \<and> {v. in_valset v h} = {1}"
proof -
  obtain h where h: "reachable h" "array_contents Execution h = [1]"
    using registered by blast
  then show ?thesis
    using execution_set_exact [OF h(1)] by auto
qed

theorem flags_are_truthful_witness:
  "\<exists>h. reachable h \<and> val_exists 1 h \<and> get_flags 1 h = ValidatorFlagsOk \<and> unat (10000000 * MON) \<le> unat (val_stake 1 h) \<and>
     unat min_auth_address_stake \<le> unat (get_next_epoch_stake 1 (val_auth_address 1 h) h)"
proof -
  obtain h where h: "reachable h" "val_exists 1 h" "get_flags 1 h = ValidatorFlagsOk"
    using registered by blast
  then show ?thesis
    using flags_are_truthful [OF h(1,2)] by (auto simp: ValidatorFlagsOk_def)
qed

theorem views_well_formed_witness:
  "\<exists>h. reachable h \<and> array_contents Consensus h = [1] \<and> val_exists 1 h \<and> 10000000 * MON \<le> load u256_be (ConsStake 1) h"
proof -
  obtain h where h: "reachable h" "array_contents Consensus h = [1]"
    using elected by blast
  then show ?thesis
    using views_well_formed [OF h(1), of Consensus, simplified, THEN conjunct2, THEN conjunct2, THEN spec, of 1]
    by (auto simp: view_stake_def)
qed

theorem snapshot_elects_best_witness:
  "\<exists>h h'. reachable h \<and> syscall_snapshot [] 0 h = Inr h' \<and> array_contents Consensus h' = [1] \<and>
     length (array_contents Consensus h') = min 200 (card {v. val_exists v h \<and> get_flags v h = ValidatorFlagsOk})"
proof -
  obtain h h' where h: "reachable h" "\<not> in_epoch_delay_period h" "syscall_snapshot [] 0 h = Inr h'" "array_contents Consensus h' = [1]"
    using elected by blast
  then show ?thesis
    using snapshot_elects_best [OF h(1,2)] by auto
qed

theorem snapshot_keeps_this_epoch_witness:
  "\<exists>h h'. reachable h \<and> syscall_snapshot [] 0 h = Inr h' \<and> array_contents Consensus h' = [1] \<and>
     this_epoch_view_stake 1 h' = this_epoch_view_stake 1 h"
proof -
  obtain h h' where h: "reachable h" "syscall_snapshot [] 0 h = Inr h'" "array_contents Consensus h' = [1]"
    using elected by blast
  then show ?thesis
    using snapshot_keeps_this_epoch [OF h(1,2)] by blast
qed

theorem delegators_read_completely_witness:
  "\<exists>h xs. reachable h \<and> alice \<in> set xs \<and> read_pages (length xs) delegators_of 1 0 50 h = xs"
proof -
  obtain h where h: "reachable h" "delta_stake 1 alice h \<noteq> 0"
    using registered by (auto simp: waiting_def stake0_def MON_def)
  obtain xs where xs: "set xs = {a. del_stake 1 a h \<noteq> 0 \<or> delta_stake 1 a h \<noteq> 0 \<or> next_delta_stake 1 a h \<noteq> 0}"
    and pages: "\<forall>n. 0 < n \<and> length xs \<le> n \<longrightarrow> read_pages n delegators_of 1 0 50 h = xs"
    using delegators_read_completely [OF h(1), of 50 1] by auto
  have "alice \<in> set xs"
    using h(2) by (simp add: xs)
  then show ?thesis
    using h(1) pages [rule_format, of "length xs"] length_pos_if_in_set by fast
qed

theorem validators_read_completely_witness:
  "\<exists>h xs. reachable h \<and> 1 \<in> set xs \<and> read_pages (length xs) validators_of alice 0 50 h = xs"
proof -
  obtain h where h: "reachable h" "delta_stake 1 alice h \<noteq> 0"
    using registered by (auto simp: waiting_def stake0_def MON_def)
  obtain xs where xs: "set xs = {v. del_stake v alice h \<noteq> 0 \<or> delta_stake v alice h \<noteq> 0 \<or> next_delta_stake v alice h \<noteq> 0}"
    and pages: "\<forall>n. 0 < n \<and> length xs \<le> n \<longrightarrow> read_pages n validators_of alice 0 50 h = xs"
    using validators_read_completely [OF h(1), of 50 alice] by auto
  have "1 \<in> set xs"
    using h(2) by (simp add: xs)
  then show ?thesis
    using h(1) pages [rule_format, of "length xs"] length_pos_if_in_set by fast
qed

theorem accumulator_refcounts_exact_witness:
  "\<exists>h. reachable h \<and> card {a. get_delta_epoch 1 a h = 1} + card {a. get_next_delta_epoch 1 a h = 1} +
     card {(a, w). wr_epoch (withdrawal_request 1 a w h) = 1} = 1"
proof -
  obtain h where h: "reachable h" "refcount (accumulator 1 1 h) = 1"
    using registered by (auto simp: waiting_def)
  then show ?thesis
    using accumulator_refcounts_exact [OF h(1), of 1 1] by auto
qed

section \<open>Rewards, withdrawals and epochs\<close>

text \<open>A state in which a validator of the running epoch has registered the key of the block's author.\<close>

definition paying :: host where
  "paying = store u64_be (ValIdSecp 0x51) 1 (store u256_be (ConsStake 1) stake0 (store u256_be (ConsCommission 1) (10 ^ 17)
     (store address_flags_codec (VAddressFlags 1) \<lparr>auth_address = alice, flags = ValidatorFlagsOk\<rparr> genesis)))"

theorem reward_splits_exactly_witness:
  "\<exists>h' b v c. syscall_reward MONAD_NINE (abi_encode_uint (0x51 :: address)) (25 * MON) paying = Inr h' \<and>
     load_checked u64_be (ValIdSecp b) paying = Some v \<and>
     unat (c :: u256) = unat (25 * MON) * unat (this_epoch_view_commission v paying) div 10 ^ 18"
proof -
  have v: "load_checked u64_be (ValIdSecp 0x51) paying = Some 1" "this_epoch_view_stake 1 paying = stake0"
    "this_epoch_view_commission 1 paying = 10 ^ 17" "val_auth_address 1 paying = alice"
    by (simp_all add: paying_def this_epoch_view_stake_def this_epoch_view_commission_def val_auth_address_def load_zero)
  have d: "abi_decode_fixed (abi_encode_uint (0x51 :: address)) = Inr (0x51 :: address, [])"
    using abi_roundtrips(4) [of "0x51" "[]"] by simp
  obtain g where g: "mint_tokens (25 * MON) paying = Inr g"
    by (simp add: mint_tokens_def add_to_balance_def paying_def genesis_def store_def account_or_new_def new_account_def
        MON_def STAKING_CA_def alice_def)
  have same: "load c x g = load c x paying" "val_auth_address 1 g = val_auth_address 1 paying"
    "this_epoch_view_commission 1 g = this_epoch_view_commission 1 paying" for c :: "u256 codec" and x
    using add_to_balance_Inr(3) [OF g [unfolded mint_tokens_def]]
    by (simp_all add: load_def load_checked_def this_epoch_view_commission_def val_auth_address_def)
  have n: "del_rewards 1 alice paying = 0" "val_acc 1 paying = 0" "unclaimed_rewards 1 paying = 0"
    by (simp_all add: paying_def load_zero)
  have stake: "stake0 \<noteq> 0"
    by (simp add: stake0_def MON_def)
  have r: "checked_mul_div (25 * MON) 100000000000000000 MON = Inr 2500000000000000000" "checked_add 0 (x :: u256) = Inr x"
    "checked_sub (25 * MON) 2500000000000000000 = Inr 22500000000000000000"
    "checked_mul_div 22500000000000000000 UNIT_BIAS stake0 = Inr 1125000000000000000000000000000" for x
    by (simp_all add: checked_mul_div_def checked_mul_eq checked_div_eq checked_add_Inr checked_sub_eq stake0_def MON_def UNIT_BIAS_def)
  have "\<exists>h'. syscall_reward MONAD_NINE (abi_encode_uint (0x51 :: address)) (25 * MON) paying = Inr h'"
    using v n by (simp add: syscall_reward_def d g Let_def same apply_reward_def r stake)
  then obtain h' where h': "syscall_reward MONAD_NINE (abi_encode_uint (0x51 :: address)) (25 * MON) paying = Inr h'" ..
  then show ?thesis
    using reward_splits_exactly [OF h'] by blast
qed

theorem reward_fails_only_by_overflow_witness:
  "\<exists>h. reachable h \<and> epoch h = 1 \<and> syscall_reward MONAD_NINE [] 7 h \<noteq> Inl (MathE Underflow)"
  using running reward_fails_only_by_overflow by blast

theorem pull_activates_due_stake_witness:
  "\<exists>h h'. reachable h \<and> pull_delegator_up_to_date 1 alice h = Inr h' \<and> del_stake 1 alice h' = stake0 \<and>
     \<not> is_epoch_active (get_delta_epoch 1 alice h') h'"
proof -
  obtain h where h: "reachable h" "waiting h" "epoch h = 1"
    using running by blast
  obtain h' where h': "pull_delegator_up_to_date 1 alice h = Inr h'" "del_stake 1 alice h' = stake0"
    using first_pull [OF h(2,3)] by blast
  show ?thesis
    using h(1) h' pull_activates_due_stake [OF h(1) h'(1)] by blast
qed

theorem undelegate_records_withdrawal_witness:
  "\<exists>h h'. reachable h \<and> undelegate MONAD_NINE 1 MON 0 alice h = Inr h' \<and> MON \<le> wr_amount (withdrawal_request 1 alice 0 h')"
proof -
  obtain h where h: "reachable h" "waiting h" "epoch h = 1" "val_exists 1 h" "val_stake 1 h = stake0"
    using running by blast
  obtain h1 where h1: "pull_delegator_up_to_date 1 alice h = Inr h1" "del_stake 1 alice h1 = stake0" "val_stake 1 h1 = stake0"
    "delta_stake 1 alice h1 = 0" "next_delta_stake 1 alice h1 = 0"
    using first_pull [OF h(2,3)] h(5) by auto
  have "undelegate_amounts MON stake0 stake0 = Inr (MON, stake0 - MON, stake0 - MON)"
    by (simp add: undelegate_amounts_def checked_sub_eq stake0_def MON_def dust_threshold_def)
  moreover have "get_next_epoch_stake 1 alice (record_withdrawal MONAD_NINE 1 MON (stake0 - MON) (stake0 - MON) 0 alice h1) = stake0 - MON"
    using h1(4,5) record_withdrawal_rest [of 1 alice 0 "stake0 - MON" "stake0 - MON" h1 MONAD_NINE MON]
    by (simp add: get_next_epoch_stake_def modifies_load(1) image_iff)
  ultimately obtain h' where h': "undelegate MONAD_NINE 1 MON 0 alice h = Inr h'"
    using h(2,4) h1 by (simp add: undelegate_def waiting_def) (simp add: stake0_def MON_def)
  show ?thesis
    using h(1) h' undelegate_records_withdrawal [OF h(1) h'] by (auto simp: MON_def)
qed

theorem epoch_change_goes_forward_witness:
  "\<exists>h'. syscall_on_epoch_change (abi_encode_uint (3 :: u64)) 0 genesis = Inr h' \<and> epoch h' = 3 \<and> this_epoch_valset h' = Consensus"
proof -
  have "abi_decode_fixed (abi_encode_uint (3 :: u64)) = Inr (3 :: u64, [])"
    using abi_roundtrips(3) [of 3 "[]"] by simp
  then show ?thesis
    using epoch_change_goes_forward [of "abi_encode_uint (3 :: u64)" 0 genesis 1] by (auto simp: load_zero)
qed

text \<open>A withdrawal that was requested in epoch 1 and is ready in epoch 3.\<close>

definition funded :: host where
  "funded = \<lparr>storage = (\<lambda>_. 0), accounts = (\<lambda>a. if a = STAKING_CA
     then Some \<lparr>balance = 7, code_hash = NULL_HASH, nonce = 0, incarnation = new_Incarnation 0 0\<rparr> else None), logs = [], tx_incarnation = new_Incarnation 1 1\<rparr>"

definition withdrawing :: host where
  "withdrawing = store u64_be Epoch 3
     (store withdrawal_codec (Withdrawal 1 2 0) \<lparr>wr_amount = 5, wr_acc = 0, wr_epoch = 1\<rparr>
       funded)"


section \<open>Calls and system transactions\<close>

text \<open>The parts of the client outside the development, instantiated: no other precompile, libraries that
  accept every key, a machine without code and no reserve balance rule.\<close>

definition lenient_crypto :: crypto where
  "lenient_crypto = \<lparr>secp256k1_ec_pubkey_parse = (\<lambda>bs. (1, bs)),
     secp256k1_ec_pubkey_serialize = (\<lambda>p. 4 # replicate 64 0),
     secp256k1_ecdsa_signature_parse_compact = (\<lambda>bs. (1, bs)), secp256k1_ecdsa_verify = (\<lambda>s m k. 1),
     blst_p1_uncompress = (\<lambda>bs. (0, bs)), blst_p1_affine_in_g1 = (\<lambda>p. True), blst_p1_affine_is_inf = (\<lambda>p. False),
     blst_p1_affine_serialize = (\<lambda>p. p), blst_p2_uncompress = (\<lambda>bs. (0, bs)), blst_p2_affine_in_g2 = (\<lambda>p. True),
     blst_p2_affine_is_inf = (\<lambda>p. False), blst_core_verify_pk_in_g1 = (\<lambda>k s h m d a. 0),
     keccak256 = (\<lambda>bs. replicate 32 0), blake3 = (\<lambda>bs. replicate 32 0)\<rparr>"

definition plain_environment :: environment where
  "plain_environment = \<lparr>env_crypto = lenient_crypto, env_eth_precompile = (\<lambda>msg. None),
     env_reserve_dispatch = (\<lambda>bs. ((precompile_fallback, 0), bs)),
     env_execute = (\<lambda>msg h. Inr (\<lparr>status = EVMC_SUCCESS, gas_left = gas msg, gas_refund = 0, output_data = []\<rparr>, h)),
     env_revert_transaction = (\<lambda>msg h. False), env_log_native_transfers = False\<rparr>"

lemma environment_ok: "env_eth_precompile plain_environment msg = None" "serializes_uncompressed (env_crypto plain_environment)"
  "\<not> env_log_native_transfers plain_environment" "\<not> env_revert_transaction plain_environment msg h"
  by (simp_all add: plain_environment_def serializes_uncompressed_def lenient_crypto_def)

definition epoch_call :: message where
  "epoch_call = alice_call\<lparr>input_data := [0x75, 0x79, 0x91, 0xa8], msg_value := 0\<rparr>"

lemma epoch_call_fields:
  "kind epoch_call = EVMC_CALL" "msg_flags epoch_call = 0" "recipient epoch_call = STAKING_CA" "code_address epoch_call = STAKING_CA"
  "sender epoch_call = alice" "gas epoch_call = 1000000" "msg_value epoch_call = 0" "input_data epoch_call = [0x75, 0x79, 0x91, 0xa8]"
  by (simp_all add: epoch_call_def alice_call_def)

lemma alice_not_contract: "alice \<noteq> STAKING_CA"
  by (simp add: alice_def STAKING_CA_def)

lemma genesis_balances: "get_balance alice genesis = 50000000 * MON" "get_balance STAKING_CA genesis = 0"
  by (simp_all add: genesis_def get_balance_def alice_def STAKING_CA_def)

theorem staking_calls_return_witness:
  "\<exists>res h'. execute_call_message plain_environment MONAD_NINE alice_call genesis = Inr (res, h')"
  using staking_calls_return [OF genesis_reachable, of alice_call MONAD_NINE plain_environment]
  by (simp add: alice_call_def alice_not_contract environment_ok genesis_balances rev_order MON_def)

lemma epoch_call_dispatch:
  "precompile_dispatch cr t (input_data epoch_call) = ((precompile_get_epoch, 200), [])"
  by (simp add: precompile_dispatch_def epoch_call_fields load_be_u32_def bytes_word_def of_be_def method_of_selector_def
      GET_EPOCH_OP_COST_def compute_costs_def op_count_def WARM_SLOAD_def)

lemma epoch_call_succeeds:
  "\<exists>res h'. execute_call_message plain_environment MONAD_NINE epoch_call genesis = Inr (res, h') \<and>
     status res = EVMC_SUCCESS \<and> storage h' = (\<lambda>_. 0)"
proof -
  obtain g where g: "transfer_balances False epoch_call STAKING_CA genesis = Inr g"
    using transfer_succeeds [of epoch_call genesis STAKING_CA False] alice_not_contract
    by (auto simp: sender_has_balance_def epoch_call_fields genesis_balances)
  have "storage g = (\<lambda>_. 0)"
    using transferE(1) [OF g] alice_not_contract by (simp add: epoch_call_fields)
  moreover have "pre_call False MONAD_NINE epoch_call genesis = Inr (Inr g)"
    using g by (simp add: pre_call_def epoch_call_fields sender_has_balance_def genesis_balances rev_order)
  moreover have "check_call_monad_precompile (precompile_dispatch cr t) STAKING_CA epoch_call g =
    Inr (Some (\<lparr>status = EVMC_SUCCESS, gas_left = 999800, gas_refund = 0,
      output_data = encode_args [add_uint (epoch g), add_bool (in_epoch_delay_period g)]\<rparr>, g))" for cr t
    by (simp add: epoch_call_fields(1-7) check_call_monad_precompile_def epoch_call_dispatch precompile_get_epoch_def
        function_not_payable_def list_all_iff)
  ultimately show ?thesis
    using check_call_staking [of epoch_call plain_environment MONAD_NINE g]
    by (simp add: execute_call_message_def epoch_call_fields(1-7) environment_ok rev_order post_call_def)
qed

theorem call_outcome_witness:
  "\<exists>res h'. execute_call_message plain_environment MONAD_NINE epoch_call genesis = Inr (res, h') \<and>
     status res = EVMC_SUCCESS \<and> sint (gas_left res) = 999800"
proof -
  obtain res h' where r: "execute_call_message plain_environment MONAD_NINE epoch_call genesis = Inr (res, h')" "status res = EVMC_SUCCESS"
    using epoch_call_succeeds by blast
  then show ?thesis
    using call_outcome [OF r(1)] by (simp add: epoch_call_fields(4,6) environment_ok rev_order epoch_call_dispatch)
qed

definition snapshot_transaction :: "u64 \<Rightarrow> transaction" where
  "snapshot_transaction n = empty_transaction
     \<lparr>tx_nonce := n, tx_to := Some STAKING_CA, tx_data := [0x15, 0x7e, 0xeb, 0x21]\<rparr>"



theorem valset_for_consensus_witness:
  "\<exists>h vs. reachable h \<and> in_epoch_delay_period h \<and> array_contents Consensus h = [1] \<and> read_valset 1 h = Inr (Some vs) \<and> length vs = 1"
proof -
  obtain h where h: "reachable h" "in_epoch_delay_period h" "epoch h = 0" "array_contents Consensus h = [1]"
    using elected by blast
  obtain vs where vs: "read_valset 1 h = Inr vs" "case vs of
       None \<Rightarrow> 1 \<noteq> epoch h \<and> (1 \<noteq> epoch h + 1 \<or> \<not> in_epoch_delay_period h)
     | Some validators \<Rightarrow> \<exists>ids. ids = array_contents (if 1 = epoch h then this_epoch_valset h else Consensus) h \<and>
         length validators = length ids"
    using valset_for_consensus [OF h(1), of 1] by (auto split: option.splits)
  then show ?thesis
    using h by (cases vs) auto
qed

end
