(* ===== verification/Rlp.thy ===== *)
theory Rlp
  imports Errors
begin

text \<open>
  The recursive length prefix format: \<open>rlp/encode2.hpp\<close> and \<open>rlp/decode.hpp\<close>. A decoder takes a view by
  reference and advances it; here it returns the decoded value with the rest of the input.

  The results: what is encoded is decoded again, and the decoders accept canonical encodings only, so
  that a value determines its encoding and an encoding its value. \<open>rlp_item\<close> is the contract of a decoder
  that a loop over a list relies on, \<open>rlp_codec\<close> that of a decoder of a field; every typed decoder is
  shown to meet one of them. All of it holds for inputs below 4 GiB, the size that \<open>encode_string2\<close> can
  express.
\<close>

type_synonym 'a decoder = "bytes \<Rightarrow> ('a \<times> bytes) result"

section \<open>Encoding\<close>

definition zeroless_view :: "bytes \<Rightarrow> bytes" where
  "zeroless_view bs = dropWhile (\<lambda>b. b = 0) bs"

definition to_big_compact :: "'a::len word \<Rightarrow> bytes" where
  "to_big_compact n = zeroless_view (word_bytes n)"

definition encode_string2 :: "bytes \<Rightarrow> bytes" where
  "encode_string2 s =
     (let size = (word_of_nat (length s) :: u32)
      in if size = 1 \<and> s ! 0 \<le> 0x7f then s
         else if size > 55 then
           let size_str = to_big_compact size
           in (0xb7 + word_of_nat (length size_str)) # size_str @ s
         else (0x80 + ucast size) # s)"

definition encode_list2 :: "bytes list \<Rightarrow> bytes" where
  "encode_list2 args =
     (let size = (word_of_nat (sum_list (map length args)) :: u64)
      in (if size > 55 then
            let size_str = to_big_compact size
            in (0xf7 + word_of_nat (length size_str)) # size_str
          else [0xc0 + ucast size]) @ concat args)"

section \<open>Decoding\<close>

definition decode_raw_num :: "bytes \<Rightarrow> ('a::len word) result" where
  "decode_raw_num enc =
     (if length enc > LENGTH('a) div 8 then Inl (DecodeE Decode_Overflow)
      else if enc = [] then Inr 0
      else if enc ! 0 = 0 then Inl (DecodeE LeadingZero)
      else Inr (bytes_word (replicate (LENGTH('a) div 8 - length enc) 0 @ enc)))"

definition decode_length :: "bytes \<Rightarrow> u64 result" where
  "decode_length enc = decode_raw_num enc"

datatype RlpType = RlpString | RlpList

text \<open>The options of the template are the argument \<open>keep_rlp_header\<close>; the type is added by \<open>parse_metadata\<close>.\<close>

definition extract_payload :: "bool \<Rightarrow> bytes \<Rightarrow> u64 \<Rightarrow> u64 \<Rightarrow> (bytes \<times> bytes) result" where
  "extract_payload keep_rlp_header enc i len =
     (let finish = i + len
      in if unat finish > length enc \<or> finish < i then Inl (DecodeE Decode_InputTooShort)
         else Inr (if keep_rlp_header then take (unat finish) enc else take (unat len) (drop (unat i) enc),
                   drop (unat finish) enc))"

text \<open>The last branch of both parsers: the header holds the length of the length, base 0xb7 or 0xf7.\<close>

definition long_payload :: "u8 \<Rightarrow> bool \<Rightarrow> bytes decoder" where
  "long_payload base keep_rlp_header enc =
     (let length_of_length = unat (enc ! 0 - base)
      in if 1 + length_of_length \<ge> length enc then Inl (DecodeE Decode_InputTooShort)
         else tryR (decode_length (take length_of_length (drop 1 enc))) (\<lambda>len.
           if len < 56 then Inl (DecodeE TypeUnexpected)
           else extract_payload keep_rlp_header enc (1 + word_of_nat length_of_length) len))"

definition string_metadata :: "bytes decoder" where
  "string_metadata enc =
     (if enc ! 0 < 0x80 then extract_payload False enc 0 1
      else if enc ! 0 < 0xb8 then
        let len = ucast (enc ! 0 - 0x80)
        in if len = 1 then
             (if length enc < 2 then Inl (DecodeE Decode_InputTooShort)
              else if enc ! 1 < 0x80 then Inl (DecodeE TypeUnexpected)
              else extract_payload False enc 1 len)
           else extract_payload False enc 1 len
      else long_payload 0xb7 False enc)"

definition list_metadata :: "bool \<Rightarrow> bytes decoder" where
  "list_metadata keep_rlp_header enc =
     (if enc ! 0 < 0xf8 then extract_payload keep_rlp_header enc 1 (ucast (enc ! 0 - 0xc0))
      else long_payload 0xf7 keep_rlp_header enc)"

definition parse_metadata :: "(RlpType \<times> bytes) decoder" where
  "parse_metadata enc =
     (if enc = [] then Inl (DecodeE Decode_InputTooShort)
      else if enc ! 0 < 0xc0 then tryR (string_metadata enc) (\<lambda>(payload, enc). Inr ((RlpString, payload), enc))
      else tryR (list_metadata False enc) (\<lambda>(payload, enc). Inr ((RlpList, payload), enc)))"

definition parse_string_metadata :: "bytes decoder" where
  "parse_string_metadata enc =
     (if enc = [] then Inl (DecodeE Decode_InputTooShort)
      else if enc ! 0 \<ge> 0xc0 then Inl (DecodeE TypeUnexpected)
      else string_metadata enc)"

definition parse_list_metadata :: "bytes decoder" where
  "parse_list_metadata enc =
     (if enc = [] then Inl (DecodeE Decode_InputTooShort)
      else if enc ! 0 < 0xc0 then Inl (DecodeE TypeUnexpected)
      else list_metadata False enc)"

definition parse_list_metadata_raw :: "bytes decoder" where
  "parse_list_metadata_raw enc =
     (if enc = [] then Inl (DecodeE Decode_InputTooShort)
      else if enc ! 0 < 0xc0 then Inl (DecodeE TypeUnexpected)
      else list_metadata True enc)"

definition decode_string :: "bytes decoder" where
  "decode_string enc = parse_string_metadata enc"

definition decode_byte_string_fixed :: "nat \<Rightarrow> bytes decoder" where
  "decode_byte_string_fixed N enc =
     tryR (parse_string_metadata enc) (\<lambda>(payload, enc).
       if length payload \<noteq> N then Inl (DecodeE ArrayLengthUnexpected) else Inr (payload, enc))"

section \<open>Numbers without leading zeros\<close>

definition compact :: "bytes \<Rightarrow> bool" where
  "compact bs \<longleftrightarrow> bs = [] \<or> bs ! 0 \<noteq> 0"

lemma compact_zeroless: "compact (zeroless_view bs)"
  by (induction bs) (auto simp: compact_def zeroless_view_def)

lemma zeroless_compact: "compact bs \<Longrightarrow> zeroless_view bs = bs"
  by (cases bs) (auto simp: compact_def zeroless_view_def)

lemma zeroless_append_zeros: "zeroless_view (replicate n 0 @ bs) = zeroless_view bs"
  by (induction n) (auto simp: zeroless_view_def)

lemma zeroless_split: "\<exists>n. bs = replicate n 0 @ zeroless_view bs"
proof (induction bs)
  case (Cons b bs)
  then obtain n where "bs = replicate n 0 @ zeroless_view bs" ..
  then show ?case
    by (cases "b = 0") (auto simp: zeroless_view_def intro: exI [of _ "Suc n"] exI [of _ 0])
qed (simp add: zeroless_view_def)

lemma of_be_zeroless [simp]: "of_be (zeroless_view bs) = of_be bs"
proof -
  obtain n where "bs = replicate n 0 @ zeroless_view bs"
    using zeroless_split by blast
  then have "of_be bs = of_be (replicate n 0 @ zeroless_view bs)"
    by simp
  then show ?thesis
    by (simp add: of_be_append)
qed

lemma compact_unique:
  assumes "compact bs" and "of_be bs = of_be cs"
  shows "bs = zeroless_view cs"
proof -
  have "zeroless_view (replicate (length cs) 0 @ bs) = zeroless_view (replicate (length bs) 0 @ cs)"
    using of_be_inject [of "replicate (length cs) 0 @ bs" "replicate (length bs) 0 @ cs"] assms(2)
    by (simp add: of_be_append)
  then show ?thesis
    by (simp add: zeroless_append_zeros zeroless_compact [OF assms(1)])
qed

lemma compact_large:
  assumes "compact bs" and "bs \<noteq> []"
  shows "256 ^ (length bs - 1) \<le> of_be bs"
proof -
  obtain b cs where bs: "bs = b # cs" "b \<noteq> 0"
    using assms by (cases bs) (auto simp: compact_def)
  have "of_be bs = unat b * 256 ^ length cs + of_be cs"
    using of_be_append [of "[b]" cs] of_be_snoc [of "[]" b] by (simp add: bs(1))
  moreover have "1 \<le> unat b"
    using bs(2) by (simp add: unat_gt_0 Suc_leI)
  ultimately show ?thesis
    by (simp add: bs(1) trans_le_add1)
qed

lemma big_compact:
  assumes "8 dvd LENGTH('a)"
  shows "compact (to_big_compact (n :: 'a::len word))" "of_be (to_big_compact n) = unat n"
    "length (to_big_compact n) \<le> LENGTH('a) div 8" "to_big_compact n = [] \<longleftrightarrow> n = 0"
proof -
  show c: "compact (to_big_compact n)"
    by (simp add: to_big_compact_def compact_zeroless)
  show v: "of_be (to_big_compact n) = unat n"
    using assms by (simp add: to_big_compact_def of_be_word_bytes)
  show "length (to_big_compact n) \<le> LENGTH('a) div 8"
    using length_dropWhile_le [of "\<lambda>b. b = 0" "word_bytes n"] by (simp add: to_big_compact_def zeroless_view_def)
  show "to_big_compact n = [] \<longleftrightarrow> n = 0"
    using v compact_large [OF c] by (cases "to_big_compact n = []") (auto simp: unat_eq_zero)
qed

lemma decode_raw_num_iff:
  assumes "8 dvd LENGTH('a)"
  shows "decode_raw_num enc = Inr (n :: 'a::len word) \<longleftrightarrow> enc = to_big_compact n"
proof
  assume "enc = to_big_compact n"
  then have "compact enc" "of_be enc = unat n" "length enc \<le> LENGTH('a) div 8"
    using big_compact [OF assms] by simp_all
  then show "decode_raw_num enc = Inr n"
    by (auto simp: decode_raw_num_def compact_def bytes_word_def of_be_append unat_eq_zero)
next
  assume d: "decode_raw_num enc = Inr n"
  have "compact enc" "length enc \<le> LENGTH('a) div 8" "n = word_of_nat (of_be enc)"
    using d by (auto simp: decode_raw_num_def compact_def bytes_word_def of_be_append split: if_splits)
  moreover have "of_be enc < 2 ^ LENGTH('a)"
    using of_be_less [of enc] power_increasing [of "length enc" "LENGTH('a) div 8" "256 :: nat"] calculation(2) assms
    by (simp add: power_256) (metis dvd_mult_div_cancel mult_le_mono2 order_less_le_trans power_increasing_iff one_less_numeral_iff semiring_norm(76))
  ultimately show "enc = to_big_compact n"
    using compact_unique [of enc "word_bytes n"] assms
    by (simp add: to_big_compact_def of_be_word_bytes unat_of_nat)
qed

section \<open>Strings\<close>

lemma extract_payload_iff:
  assumes "length enc < 2 ^ 64"
  shows "extract_payload keep enc i len = Inr (payload, rest) \<longleftrightarrow>
    (\<exists>header body. enc = header @ body @ rest \<and> length header = unat i \<and> length body = unat len \<and>
       payload = (if keep then header @ body else body))"
proof -
  have "(unat (i + len) > length enc \<or> i + len < i) \<longleftrightarrow> unat i + unat len > length enc"
    using assms unat_u64_less [of i] unat_u64_less [of len]
    by (auto simp: word_less_nat_alt unat_plus_if' split: if_splits)
  moreover have "unat (i + len) = unat i + unat len" if "unat i + unat len \<le> length enc"
    using that assms by (simp add: unat_plus_if')
  ultimately have "extract_payload keep enc i len = Inr (payload, rest) \<longleftrightarrow> unat i + unat len \<le> length enc \<and>
      payload = (if keep then take (unat i + unat len) enc else take (unat len) (drop (unat i) enc)) \<and>
      rest = drop (unat i + unat len) enc"
    by (auto simp: extract_payload_def Let_def)
  also have "\<dots> \<longleftrightarrow> (\<exists>header body. enc = header @ body @ rest \<and> length header = unat i \<and> length body = unat len \<and>
       payload = (if keep then header @ body else body))"
  proof (intro iffI; elim conjE exE)
    assume "unat i + unat len \<le> length enc"
      "payload = (if keep then take (unat i + unat len) enc else take (unat len) (drop (unat i) enc))"
      "rest = drop (unat i + unat len) enc"
    then show "\<exists>header body. enc = header @ body @ rest \<and> length header = unat i \<and> length body = unat len \<and>
       payload = (if keep then header @ body else body)"
      using append_take_drop_id [of "unat len" "drop (unat i) enc"]
      by (intro exI [of _ "take (unat i) enc"] conjI exI [where x = "take (unat len) (drop (unat i) enc)"])
        (simp_all add: take_add add.commute)
  qed auto
  finally show ?thesis .
qed

text \<open>The header of a string and of a list.\<close>

definition long_header :: "u8 \<Rightarrow> 'a::len word \<Rightarrow> bytes" where
  "long_header base n = (base + word_of_nat (length (to_big_compact n))) # to_big_compact n"

lemma compact_u64:
  "length (to_big_compact (n :: u64)) \<le> 8" "decode_length enc = Inr n \<longleftrightarrow> enc = to_big_compact n"
  using big_compact(3) [of n] decode_raw_num_iff [of enc n] by (simp_all add: decode_length_def)

lemma long_payload_iff:
  fixes base :: u8
  assumes "length enc < 2 ^ 64" and "enc \<noteq> []"
    and le: "unat (enc ! 0 - base) \<le> 8"
  shows "long_payload base keep enc = Inr (payload, rest) \<longleftrightarrow>
    (\<exists>len body. 56 \<le> len \<and> length body = unat (len :: u64) \<and> enc = long_header base len @ body @ rest \<and>
       payload = (if keep then long_header base len @ body else body))" (is "_ \<longleftrightarrow> ?R")
proof
  define n where "n = unat (enc ! 0 - base)"
  have "n \<le> 8"
    using le by (simp add: n_def)
  then have i: "unat (1 + word_of_nat n :: u64) = 1 + n"
    by (simp add: unat_word_ariths unat_of_nat)
  assume "long_payload base keep enc = Inr (payload, rest)"
  then obtain len where len: "1 + n < length enc" "take n (drop 1 enc) = to_big_compact len" "\<not> len < 56"
    and x: "extract_payload keep enc (1 + word_of_nat n) len = Inr (payload, rest)"
    by (auto simp: long_payload_def tryR_eq_Inr compact_u64(2) n_def [symmetric] split: if_splits)
  obtain header body where h: "enc = header @ body @ rest" "length header = 1 + n" "length body = unat len"
    "payload = (if keep then header @ body else body)"
    using x [unfolded extract_payload_iff [OF assms(1)] i] by blast
  have "length (to_big_compact len) = n"
    using arg_cong [OF len(2), of length] len(1) by simp
  moreover have "header = enc ! 0 # take n (drop 1 enc)"
    using h(1,2) by (cases header) auto
  ultimately have "header = long_header base len"
    using len(2) by (simp add: long_header_def) (simp add: n_def)
  then show ?R
    using h len(3) by (auto simp: not_less)
next
  define n where "n = unat (enc ! 0 - base)"
  assume ?R
  then obtain len :: u64 and body where b: "56 \<le> len" "length body = unat len" "enc = long_header base len @ body @ rest"
    "payload = (if keep then long_header base len @ body else body)"
    by blast
  have k: "n = length (to_big_compact len)"
    using compact_u64(1) [of len] by (simp add: n_def b(3) long_header_def unat_of_nat)
  have "n \<le> 8"
    using le by (simp add: n_def)
  then have i: "unat (1 + word_of_nat n :: u64) = 1 + n"
    by (simp add: unat_word_ariths unat_of_nat)
  have "unat len \<ge> 56"
    using b(1) by (simp add: word_le_nat_alt)
  then have "1 + n < length enc" "take n (drop 1 enc) = to_big_compact len"
    using b(2,3) by (simp_all add: long_header_def k)
  moreover have "extract_payload keep enc (1 + word_of_nat n) len = Inr (payload, rest)"
    unfolding extract_payload_iff [OF assms(1)] i using b
    by (intro exI [of _ "long_header base len"] exI [of _ body]) (simp add: long_header_def k)
  ultimately show "long_payload base keep enc = Inr (payload, rest)"
    using b(1) by (simp add: long_payload_def n_def [symmetric] compact_u64(2) [THEN iffD2] not_less)
qed

lemma header_u32_u64:
  assumes "k < 2 ^ 32"
  shows "long_header base (word_of_nat k :: u32) = long_header base (word_of_nat k :: u64)"
proof -
  have "unat (word_of_nat k :: u32) = k" "unat (word_of_nat k :: u64) = k"
    using assms by (simp_all add: unat_of_nat)
  then have "to_big_compact (word_of_nat k :: u32) = to_big_compact (word_of_nat k :: u64)"
    using compact_unique [OF big_compact(1), of "word_of_nat k :: u32" "word_bytes (word_of_nat k :: u64)"]
      big_compact(2) [of "word_of_nat k :: u32"] of_be_word_bytes [of "word_of_nat k :: u64"]
    by (simp add: to_big_compact_def)
  then show ?thesis
    by (simp add: long_header_def)
qed

lemma encode_string2_cases:
  assumes "length s < 2 ^ 32"
  shows "encode_string2 s =
    (if length s = 1 \<and> s ! 0 < 0x80 then s
     else if length s \<ge> 56 then long_header 0xb7 (word_of_nat (length s) :: u64) @ s
     else (0x80 + word_of_nat (length s)) # s)"
proof -
  have "unat (word_of_nat (length s) :: u32) = length s"
    using assms by (simp add: unat_of_nat)
  moreover have "s ! 0 \<le> 0x7f \<longleftrightarrow> s ! 0 < 0x80"
    by (simp add: word_le_nat_alt word_less_nat_alt) presburger
  moreover have "(ucast (word_of_nat (length s) :: u32) :: u8) = word_of_nat (length s)"
    by (simp add: word_unat_eq_iff unsigned_ucast_eq unat_of_nat take_bit_nat_def mod_mod_cancel)
  ultimately show ?thesis
    using header_u32_u64 [OF assms, of "0xb7"]
    by (auto simp: encode_string2_def Let_def word_less_nat_alt long_header_def)
qed

lemma encode_list2_cases:
  assumes "length (concat args) < 2 ^ 64"
  shows "encode_list2 args =
    (if length (concat args) \<ge> 56 then long_header 0xf7 (word_of_nat (length (concat args)) :: u64)
     else [0xc0 + word_of_nat (length (concat args))]) @ concat args"
proof -
  have "unat (word_of_nat (length (concat args)) :: u64) = length (concat args)"
    using assms by (simp add: unat_of_nat)
  moreover have "(ucast (word_of_nat (length (concat args)) :: u64) :: u8) = word_of_nat (length (concat args))"
    by (simp add: word_unat_eq_iff unsigned_ucast_eq unat_of_nat take_bit_nat_def mod_mod_cancel)
  ultimately show ?thesis
    by (auto simp: encode_list2_def Let_def word_less_nat_alt long_header_def length_concat)
qed

lemma long_header_first:
  assumes "56 \<le> (n :: u64)"
  shows "\<exists>k. 1 \<le> k \<and> k \<le> 8 \<and> long_header base n ! 0 = base + word_of_nat k"
proof -
  have "to_big_compact n \<noteq> []"
    using assms big_compact(4) [of n] by auto
  then show ?thesis
    using compact_u64(1) [of n] by (intro exI [of _ "length (to_big_compact n)"]) (auto simp: long_header_def Suc_leI)
qed

lemma unat_u8_less: "unat (b :: u8) < 256"
  using unsigned_less [of b] by simp

lemma short_byte:
  fixes b :: u8
  shows "unat base + k < 256 \<Longrightarrow> unat (base + word_of_nat k :: u8) = unat base + k"
    "base \<le> b \<Longrightarrow> unat (b - base) = unat b - unat base"
    "base \<le> b \<Longrightarrow> base + word_of_nat (unat b - unat base) = b"
proof -
  show "unat base + k < 256 \<Longrightarrow> unat (base + word_of_nat k :: u8) = unat base + k"
    by (simp add: unat_word_ariths mod_add_right_eq)
  show d: "base \<le> b \<Longrightarrow> unat (b - base) = unat b - unat base"
    by (rule unat_sub)
  show "base \<le> b \<Longrightarrow> base + word_of_nat (unat b - unat base) = b"
    by (simp flip: d)
qed

lemma long_length_iff:
  "(\<exists>len :: u64. 56 \<le> len \<and> n = unat len \<and> P len) \<longleftrightarrow> 56 \<le> n \<and> n < 2 ^ 64 \<and> P (word_of_nat n)"
proof (intro iffI; elim exE conjE)
  fix len :: u64
  assume "56 \<le> len" "n = unat len" "P len"
  then show "56 \<le> n \<and> n < 2 ^ 64 \<and> P (word_of_nat n)"
    using unat_u64_less [of len] by (simp add: word_le_nat_alt)
qed (auto simp: word_le_nat_alt unat_of_nat intro!: exI [of _ "word_of_nat n"])

lemma extract_one_iff:
  assumes "length (b # e) < 2 ^ 64"
  shows "extract_payload keep (b # e) 1 len = Inr (payload, rest) \<longleftrightarrow>
    (\<exists>body. e = body @ rest \<and> length body = unat len \<and> payload = (if keep then b # body else body))"
proof -
  have "(\<exists>header body. b # e = header @ body @ rest \<and> length header = 1 \<and> length body = unat len \<and>
       payload = (if keep then header @ body else body)) \<longleftrightarrow>
    (\<exists>body. e = body @ rest \<and> length body = unat len \<and> payload = (if keep then b # body else body))" (is "?l \<longleftrightarrow> ?r")
  proof
    assume ?r
    then obtain body where "e = body @ rest" "length body = unat len" "payload = (if keep then b # body else body)"
      by blast
    then show ?l
      by (intro exI [of _ "[b]"] exI [of _ body]) simp
  qed (auto simp: length_Suc_conv)
  then show ?thesis
    unfolding extract_payload_iff [OF assms] by simp
qed

lemma byte_length: "base \<le> b \<Longrightarrow> unat (ucast (b - base) :: u64) = unat (b :: u8) - unat base"
  using unat_u8_less [of b] by (simp add: unsigned_ucast_eq take_bit_nat_eq_self short_byte(2))

lemma byte_length_iff:
  fixes b :: u8
  assumes "base \<le> b" and "unat base + n < 256"
  shows "n = unat b - unat base \<longleftrightarrow> b = base + word_of_nat n"
  using assms short_byte(1) [OF assms(2)] short_byte(3) [OF assms(1)] by auto

lemma string_metadata_iff:
  assumes "length (b # e) < 2 ^ 64" and "b < 0xc0"
  shows "string_metadata (b # e) = Inr (s, rest) \<longleftrightarrow>
    (if b < 0x80 then s = [b] \<and> e = rest
     else if b < 0xb8 then length s = unat b - 0x80 \<and> \<not> (length s = 1 \<and> s ! 0 < 0x80) \<and> e = s @ rest
     else 56 \<le> length s \<and> length s < 2 ^ 64 \<and> b # e = long_header 0xb7 (word_of_nat (length s) :: u64) @ s @ rest)"
proof -
  consider "b < 0x80" | "0x80 \<le> b" "b < 0xb8" | "\<not> b < 0x80" "\<not> b < 0xb8"
    by fastforce
  then show ?thesis
  proof cases
    case 1
    then show ?thesis
      by (auto simp: string_metadata_def extract_payload_iff [OF assms(1)] length_Suc_conv)
  next
    case 2
    have "(ucast (b - 0x80) :: u64) = 1 \<longleftrightarrow> unat b - 0x80 = 1"
      using byte_length [OF 2(1)] by (simp add: word_unat_eq_iff)
    moreover have "extract_payload False (b # e) 1 (ucast (b - 0x80)) = Inr (s, rest) \<longleftrightarrow> e = s @ rest \<and> length s = unat b - 0x80"
      by (auto simp: extract_one_iff [OF assms(1)] byte_length [OF 2(1)])
    moreover have "(b # e) ! 1 = s ! 0 \<and> e \<noteq> []" if "e = s @ rest" "length s = 1"
      using that by (cases s) auto
    ultimately show ?thesis
      using 2 by (cases "unat b - 0x80 = 1") (auto simp: string_metadata_def not_less not_le)
  next
    case 3
    have "unat (b - 0xb7) \<le> 8"
      using 3(2) assms(2) short_byte(2) [of "0xb7" b] by (simp add: not_less word_le_nat_alt word_less_nat_alt)
    then have "string_metadata (b # e) = Inr (s, rest) \<longleftrightarrow>
        (\<exists>len :: u64. 56 \<le> len \<and> length s = unat len \<and> b # e = long_header 0xb7 len @ s @ rest)"
      using 3 long_payload_iff [OF assms(1), of "0xb7" False s rest] by (auto simp: string_metadata_def not_less)
    also have "\<dots> \<longleftrightarrow> 56 \<le> length s \<and> length s < 2 ^ 64 \<and> b # e = long_header 0xb7 (word_of_nat (length s) :: u64) @ s @ rest"
      by (rule long_length_iff)
    finally show ?thesis
      using 3 by simp
  qed
qed

lemma encode_list2_nonempty [simp]:
  "encode_list2 bs \<noteq> []"
  by (simp add: encode_list2_def Let_def)

lemma encode_list2_first:
  assumes "length body < 2 ^ 64"
  shows "encode_list2 [body] = b # e \<Longrightarrow> 0xc0 \<le> b" and "encode_list2 [body] = b # e \<Longrightarrow> b < 0xf8 \<longleftrightarrow> length body < 56"
proof -
  have l: "\<exists>k. 1 \<le> k \<and> k \<le> 8 \<and> b = 0xf7 + word_of_nat k" if "encode_list2 [body] = b # e" "56 \<le> length body"
    using that assms long_header_first [of "word_of_nat (length body)" "0xf7"]
    by (auto simp: encode_list2_cases word_le_nat_alt unat_of_nat long_header_def)
  have s: "b = 0xc0 + word_of_nat (length body)" if "encode_list2 [body] = b # e" "length body < 56"
    using that by (auto simp: encode_list2_cases)
  show "encode_list2 [body] = b # e \<Longrightarrow> 0xc0 \<le> b" "encode_list2 [body] = b # e \<Longrightarrow> b < 0xf8 \<longleftrightarrow> length body < 56"
    using l s short_byte(1) [of "0xc0" "length body"] short_byte(1) [of "0xf7"]
    by (cases "length body < 56"; fastforce simp: word_le_nat_alt word_less_nat_alt not_less)+
qed

lemma list_metadata_iff:
  assumes "length (b # e) < 2 ^ 64" and "0xc0 \<le> b"
  shows "list_metadata keep (b # e) = Inr (s, rest) \<longleftrightarrow>
    (\<exists>body. length body < 2 ^ 64 \<and> b # e = encode_list2 [body] @ rest \<and> s = (if keep then encode_list2 [body] else body))"
    (is "?l \<longleftrightarrow> (\<exists>body. ?r body)")
proof -
  have first: "b < 0xf8 \<longleftrightarrow> length body < 56" if "?r body" for body
    using that encode_list2_first(2) [of body b] encode_list2_nonempty [of "[body]"] by (cases "encode_list2 [body]") auto
  show ?thesis
  proof (cases "b < 0xf8")
    case True
    have "?l \<longleftrightarrow> (\<exists>body. e = body @ rest \<and> length body = unat b - 0xc0 \<and> s = (if keep then b # body else body))"
      using True by (auto simp: list_metadata_def extract_one_iff [OF assms(1)] byte_length [OF assms(2)])
    also have "\<dots> \<longleftrightarrow> (\<exists>body. length body < 56 \<and> ?r body)"
    proof (intro ex_cong1)
      fix body :: bytes
      have "unat b < 0xf8"
        using True by (simp add: word_less_nat_alt)
      then show "e = body @ rest \<and> length body = unat b - 0xc0 \<and> s = (if keep then b # body else body) \<longleftrightarrow>
          length body < 56 \<and> ?r body"
        using byte_length_iff [OF assms(2), of "length body"] by (cases "length body < 56") (auto simp: encode_list2_cases)
    qed
    finally show ?thesis
      using True first by blast
  next
    case False
    have "unat (b - 0xf7) \<le> 8"
      using False short_byte(2) [of "0xf7" b] unat_u8_less [of b] by (simp add: not_less word_le_nat_alt)
    then have "?l \<longleftrightarrow> (\<exists>body. \<exists>len :: u64. 56 \<le> len \<and> length body = unat len \<and> b # e = long_header 0xf7 len @ body @ rest \<and>
        s = (if keep then long_header 0xf7 len @ body else body))"
      using False long_payload_iff [OF assms(1), of "0xf7" keep s rest] by (auto simp: list_metadata_def)
    also have "\<dots> \<longleftrightarrow> (\<exists>body. \<not> length body < 56 \<and> ?r body)"
      unfolding long_length_iff by (intro ex_cong1) (auto simp: encode_list2_cases)
    finally show ?thesis
      using False first by blast
  qed
qed

lemma encode_string2_nonempty [simp]:
  "encode_string2 s \<noteq> []"
  by (auto simp: encode_string2_def Let_def)

lemma encode_string2_iff:
  assumes "length s < 2 ^ 32"
  shows "b # e = encode_string2 s @ rest \<longleftrightarrow> b < 0xc0 \<and>
    (if b < 0x80 then s = [b] \<and> e = rest
     else if b < 0xb8 then length s = unat b - 0x80 \<and> \<not> (length s = 1 \<and> s ! 0 < 0x80) \<and> e = s @ rest
     else 56 \<le> length s \<and> length s < 2 ^ 64 \<and> b # e = long_header 0xb7 (word_of_nat (length s) :: u64) @ s @ rest)"
proof -
  have b: "b < 0x80 \<longleftrightarrow> unat b < 0x80" "b < 0xb8 \<longleftrightarrow> unat b < 0xb8" "b < 0xc0 \<longleftrightarrow> unat b < 0xc0"
    by (simp_all add: word_less_nat_alt)
  consider (byte) "length s = 1" "s ! 0 < 0x80" | (short) "length s < 56" "\<not> (length s = 1 \<and> s ! 0 < 0x80)" | (long) "56 \<le> length s"
    by fastforce
  then show ?thesis
  proof cases
    case byte
    then show ?thesis
      using b by (auto simp: encode_string2_cases length_Suc_conv)
  next
    case short
    have "b = 0x80 + word_of_nat (length s) \<longleftrightarrow> 0x80 \<le> unat b \<and> unat b < 0xb8 \<and> length s = unat b - 0x80"
      using short(1) short_byte(1) [of "0x80" "length s"] by (auto simp: word_unat_eq_iff)
    moreover have "encode_string2 s = (0x80 + word_of_nat (length s)) # s"
      using assms short by (simp add: encode_string2_cases)
    ultimately show ?thesis
      using short by (auto simp: b)
  next
    case long
    obtain k where k: "1 \<le> k" "k \<le> 8" "long_header 0xb7 (word_of_nat (length s) :: u64) ! 0 = 0xb7 + word_of_nat k"
      using long_header_first [of "word_of_nat (length s)" "0xb7"] long assms by (auto simp: word_le_nat_alt unat_of_nat)
    have "\<not> b < 0x80 \<and> \<not> b < 0xb8 \<and> b < 0xc0" if "b # e = long_header 0xb7 (word_of_nat (length s) :: u64) @ s @ rest"
    proof -
      have "b = 0xb7 + word_of_nat k"
        using that k(3) by (simp add: long_header_def)
      then have "unat b = 0xb7 + k"
        using k short_byte(1) [of "0xb7" k] by simp
      then show ?thesis
        using k by (simp add: b)
    qed
    moreover have "encode_string2 s = long_header 0xb7 (word_of_nat (length s) :: u64) @ s"
      using assms long by (simp add: encode_string2_cases)
    ultimately show ?thesis
      using long assms by (auto simp: b)
  qed
qed

lemma string_metadata_suffix:
  assumes "length (b # e) < 2 ^ 64" and "b < 0xc0" and "string_metadata (b # e) = Inr (s, rest)"
  shows "\<exists>header. b # e = header @ s @ rest"
proof -
  have "s = [b] \<and> e = rest \<or> e = s @ rest \<or> b # e = long_header 0xb7 (word_of_nat (length s) :: u64) @ s @ rest"
    using assms(3) unfolding string_metadata_iff [OF assms(1,2)] by presburger
  then show ?thesis
    by (metis append_Cons append_Nil)
qed

lemma parse_string_iff:
  assumes "length enc < 2 ^ 32"
  shows "parse_string_metadata enc = Inr (s, rest) \<longleftrightarrow> enc = encode_string2 s @ rest"
proof (cases enc)
  case (Cons b e)
  have p: "parse_string_metadata enc = Inr (s, rest) \<longleftrightarrow> b < 0xc0 \<and> string_metadata (b # e) = Inr (s, rest)"
    by (simp add: parse_string_metadata_def Cons not_le [symmetric])
  have l: "length (b # e) < 2 ^ 64"
    using assms by (simp add: Cons)
  show ?thesis
  proof (cases "length s < 2 ^ 32")
    case True
    then show ?thesis
      unfolding p unfolding Cons encode_string2_iff [OF True] by (intro conj_cong refl string_metadata_iff l)
  next
    case False
    have "length s \<le> length enc" if "b < 0xc0" "string_metadata (b # e) = Inr (s, rest)"
      using string_metadata_suffix [OF l that] unfolding Cons by (metis length_append le_add1 le_add2 order_trans)
    moreover have "length s \<le> length (encode_string2 s)"
      by (simp add: encode_string2_def Let_def)
    then have "length s \<le> length enc" if "enc = encode_string2 s @ rest"
      using that by simp
    ultimately show ?thesis
      using False assms p by linarith
  qed
qed (auto simp: parse_string_metadata_def)

lemma parse_list_iff:
  assumes "length enc < 2 ^ 64"
  shows "parse_list_metadata enc = Inr (s, rest) \<longleftrightarrow> enc = encode_list2 [s] @ rest"
proof (cases enc)
  case (Cons b e)
  have l: "length s < 2 ^ 64" if "enc = encode_list2 [s] @ rest"
  proof -
    have "length s \<le> length (encode_list2 [s])"
      by (simp add: encode_list2_def Let_def)
    then show ?thesis
      using that assms by simp
  qed
  then have "0xc0 \<le> b" if "b # e = encode_list2 [s] @ rest"
    using that encode_list2_first(1) [of s b] encode_list2_nonempty [of "[s]"] Cons by (cases "encode_list2 [s]") auto
  then show ?thesis
    using list_metadata_iff [of b e False s rest] assms l
    by (cases "0xc0 \<le> b") (auto simp: parse_list_metadata_def Cons not_le)
qed (auto simp: parse_list_metadata_def)

lemma encode_list2_concat:
  "encode_list2 args = encode_list2 [concat args]"
  by (simp add: encode_list2_def Let_def length_concat)

section \<open>Codecs\<close>

definition fits :: "bytes \<Rightarrow> bool" where
  "fits enc \<longleftrightarrow> length enc < 2 ^ 32"

lemma fits_append: "fits (a @ b) \<Longrightarrow> fits a" "fits (a @ b) \<Longrightarrow> fits b"
  by (simp_all add: fits_def)

text \<open>The loop of the list decoders: \<open>more\<close> is its condition. An iteration that consumed nothing would
  run forever; \<open>decode_loop_step\<close> shows that none does.\<close>

function decode_loop :: "(bytes \<Rightarrow> bool) \<Rightarrow> 'a decoder \<Rightarrow> ('a list) decoder" where
  "decode_loop more decode payload =
     (if \<not> more payload then Inr ([], payload)
      else case decode payload of
        Inl e \<Rightarrow> Inl e
      | Inr (x, rest) \<Rightarrow>
          if length rest < length payload then
            tryR (decode_loop more decode rest) (\<lambda>(xs, rest). Inr (x # xs, rest))
          else Inl Aborted)"
  by pat_completeness auto

termination decode_loop
  by (relation "measure (\<lambda>(more, decode, payload). length payload)") auto

declare decode_loop.simps [simp del]

locale rlp_item =
  fixes encodes :: "'a \<Rightarrow> bytes \<Rightarrow> bool" and decode :: "'a decoder"
  assumes decode_iff: "enc \<noteq> [] \<Longrightarrow> fits enc \<Longrightarrow> decode enc = Inr (x, rest) \<longleftrightarrow> (\<exists>e. encodes x e \<and> enc = e @ rest)"
    and encodes_nonempty: "encodes x e \<Longrightarrow> e \<noteq> []"
begin

lemma roundtrip:
  "encodes x e \<Longrightarrow> fits (e @ rest) \<Longrightarrow> decode (e @ rest) = Inr (x, rest)"
  "encodes x e \<Longrightarrow> fits e \<Longrightarrow> decode e = Inr (x, [])"
  using decode_iff [of "e @ rest" x rest] decode_iff [of e x "[]"] encodes_nonempty by auto

lemma prefix_free:
  assumes "encodes x e" and "encodes y e'" and "fits (e @ r)"
  shows "e @ r = e' @ r' \<longleftrightarrow> x = y \<and> e = e' \<and> r = r'"
proof
  assume eq: "e @ r = e' @ r'"
  then have "x = y \<and> r = r'"
    using roundtrip(1) [OF assms(1,3)] roundtrip(1) [OF assms(2), of r'] assms(3) by simp
  then show "x = y \<and> e = e' \<and> r = r'"
    using eq by simp
qed simp

lemma injective:
  "encodes x e \<Longrightarrow> encodes y e \<Longrightarrow> fits e \<Longrightarrow> x = y"
  using roundtrip(2) [of x e] roundtrip(2) [of y e] by simp

lemma decode_shorter:
  "enc \<noteq> [] \<Longrightarrow> fits enc \<Longrightarrow> decode enc = Inr (x, rest) \<Longrightarrow> length rest < length enc"
  using decode_iff [of enc x rest] encodes_nonempty by auto

lemma decode_loop_step:
  assumes "fits payload" and "\<not> more []"
  shows "decode_loop more decode payload =
    (if \<not> more payload then Inr ([], payload)
     else tryR (decode payload) (\<lambda>(x, rest). tryR (decode_loop more decode rest) (\<lambda>(xs, rest). Inr (x # xs, rest))))"
  using assms decode_shorter [of payload]
  by (subst decode_loop.simps) (cases "payload = []"; auto simp: tryR_def split: sum.split)

lemma decode_loop_more:
  assumes "fits payload" and "\<not> more []" and more: "\<And>x e rest. encodes x e \<Longrightarrow> more (e @ rest)"
  shows "decode_loop more decode payload = Inr (xs, rest) \<longleftrightarrow>
    \<not> more rest \<and> (\<exists>es. list_all2 encodes xs es \<and> payload = concat es @ rest)"
  using assms(1)
proof (induction xs arbitrary: payload)
  case Nil
  then show ?case
    using assms(2) by (subst decode_loop_step) (auto simp: try_simps)
next
  case (Cons x xs)
  have "decode_loop more decode payload = Inr (x # xs, rest) \<longleftrightarrow>
    more payload \<and> (\<exists>r. decode payload = Inr (x, r) \<and> decode_loop more decode r = Inr (xs, rest))"
    using Cons.prems assms(2) by (subst decode_loop_step) (auto simp: try_simps)
  also have "\<dots> \<longleftrightarrow> (\<exists>e r. encodes x e \<and> payload = e @ r \<and> decode_loop more decode r = Inr (xs, rest))"
    using Cons.prems assms(2) more decode_iff [of payload x] by (cases "payload = []") (auto dest: encodes_nonempty)
  also have "\<dots> \<longleftrightarrow> (\<exists>e r. encodes x e \<and> payload = e @ r \<and> \<not> more rest \<and> (\<exists>es. list_all2 encodes xs es \<and> r = concat es @ rest))"
    using Cons.IH Cons.prems by (intro ex_cong1 conj_cong refl) (auto dest: fits_append)
  also have "\<dots> \<longleftrightarrow> \<not> more rest \<and> (\<exists>es. list_all2 encodes (x # xs) es \<and> payload = concat es @ rest)"
    by (fastforce simp: list_all2_Cons1)
  finally show ?case .
qed

lemma decode_loop_iff:
  assumes "fits payload"
  shows "decode_loop (\<lambda>p. p \<noteq> []) decode payload = Inr (xs, rest) \<longleftrightarrow>
    rest = [] \<and> (\<exists>es. list_all2 encodes xs es \<and> payload = concat es)"
  using decode_loop_more [OF assms, of "\<lambda>p. p \<noteq> []"] encodes_nonempty by auto

end

locale rlp_codec = rlp_item +
  assumes decode_empty: "\<And>r. decode [] \<noteq> Inr r"
begin

lemma decodes:
  "fits enc \<Longrightarrow> decode enc = Inr (x, rest) \<longleftrightarrow> (\<exists>e. encodes x e \<and> enc = e @ rest)"
  using decode_iff [of enc x rest] decode_empty encodes_nonempty by (cases "enc = []") auto

lemma bind_iff:
  assumes "fits enc"
  shows "tryR (decode enc) f = Inr r \<longleftrightarrow>
    (\<exists>x e rest. fits rest \<and> encodes x e \<and> enc = e @ rest \<and> f (x, rest) = Inr r)"
proof (cases "enc = []")
  case True
  then show ?thesis
    using decode_empty encodes_nonempty by (auto simp: tryR_eq_Inr)
next
  case False
  then show ?thesis
    using assms by (auto simp: tryR_eq_Inr decode_iff dest: fits_append)
qed

end

lemma rlp_codecI:
  assumes "\<And>enc x rest. fits enc \<Longrightarrow> decode enc = Inr (x, rest) \<longleftrightarrow> (\<exists>e. encodes x e \<and> enc = e @ rest)"
    and "\<And>x e. encodes x e \<Longrightarrow> e \<noteq> []"
  shows "rlp_codec encodes decode"
proof unfold_locales
  fix r
  show "decode [] \<noteq> Inr r"
    using assms(1) [of "[]" "fst r" "snd r"] assms(2) by (auto simp: fits_def)
qed (use assms in auto)

lemma rlp_codec_of:
  assumes "\<And>enc x rest. fits enc \<Longrightarrow> decode enc = Inr (x, rest) \<Longrightarrow> \<exists>e. encodes x e \<and> enc = e @ rest"
    and "\<And>x e rest. encodes x e \<Longrightarrow> fits (e @ rest) \<Longrightarrow> decode (e @ rest) = Inr (x, rest)"
    and "\<And>x e. encodes x e \<Longrightarrow> e \<noteq> []"
  shows "rlp_codec encodes decode"
  by (rule rlp_codecI) (use assms in blast)+

section \<open>Canonicity\<close>

text \<open>C33. RLP is canonical: the decoder of strings accepts exactly the encoding of a string followed by any
  rest, and returns this string and this rest, and so does the parser of list headers. In particular lengths
  with leading zeros, long forms of short strings and single bytes with a header are all refused.\<close>

theorem rlp_canonical:
  assumes "fits enc"
  shows "(decode_string enc = Inr (s, rest) \<longleftrightarrow> enc = encode_string2 s @ rest) \<and>
    (parse_list_metadata enc = Inr (s, rest) \<longleftrightarrow> enc = encode_list2 [s] @ rest)"
  using assms parse_string_iff [of enc s rest] parse_list_iff [of enc s rest]
  by (simp add: fits_def decode_string_def)

end
