(* ===== verification/CoreRlp.thy ===== *)
theory CoreRlp
  imports Rlp CoreTypes
begin

text \<open>
  The encodings of the core types, under \<open>ethereum/core/rlp\<close>: integers, hashes, addresses, accounts,
  withdrawals and receipts. A loop that appends encodings is the concatenation of the encodings.
\<close>

named_theorems rlp_decode \<open>what is encoded is decoded\<close>
named_theorems rlp_bind \<open>what it means that a decoder succeeds and the rest of the function too\<close>

text \<open>The continuation of a decoder is simplified only when its result is known.\<close>

lemma tryR_cong: "r = r' \<Longrightarrow> tryR r f = tryR r' f"
  by simp

section \<open>Integers, hashes and addresses\<close>

definition encode_unsigned :: "'a::len word \<Rightarrow> bytes" where
  "encode_unsigned n = encode_string2 (to_big_compact n)"

definition decode_unsigned :: "'a::len word decoder" where
  "decode_unsigned enc =
     tryR (parse_string_metadata enc) (\<lambda>(payload, enc).
     tryR (decode_raw_num payload) (\<lambda>n. Inr (n, enc)))"

definition decode_bool :: "bool decoder" where
  "decode_bool enc =
     tryR (decode_unsigned enc) (\<lambda>(i :: u64, enc).
       if i > 1 then Inl (DecodeE Decode_Overflow) else Inr (i \<noteq> 0, enc))"

definition encode_bytes32 :: "bytes32 \<Rightarrow> bytes" where
  "encode_bytes32 b = encode_string2 (word_bytes b)"

definition encode_bytes32_compact :: "bytes32 \<Rightarrow> bytes" where
  "encode_bytes32_compact b = encode_string2 (zeroless_view (word_bytes b))"

definition decode_bytes32 :: "bytes32 decoder" where
  "decode_bytes32 enc =
     tryR (decode_byte_string_fixed 32 enc) (\<lambda>(byte_array, enc). Inr (bytes_word byte_array, enc))"

definition to_bytes :: "bytes \<Rightarrow> bytes32 result" where
  "to_bytes data =
     (if \<not> length data \<le> 32 then Inl Aborted
      else Inr (bytes_word (replicate (32 - length data) 0 @ data)))"

definition decode_bytes32_compact :: "bytes32 decoder" where
  "decode_bytes32_compact enc =
     tryR (decode_string enc) (\<lambda>(byte_array, enc).
       if length byte_array > 32 then Inl (DecodeE InputTooLong)
       else tryR (to_bytes byte_array) (\<lambda>b. Inr (b, enc)))"

definition encode_address :: "address option \<Rightarrow> bytes" where
  "encode_address a = (case a of None \<Rightarrow> [0x80] | Some a \<Rightarrow> encode_string2 (word_bytes a))"

definition decode_address :: "address decoder" where
  "decode_address enc =
     tryR (decode_byte_string_fixed 20 enc) (\<lambda>(byte_array, enc). Inr (bytes_word byte_array, enc))"

definition decode_optional_address :: "address option decoder" where
  "decode_optional_address enc =
     tryR (parse_string_metadata enc) (\<lambda>(payload, enc).
       if length payload = 20 then Inr (Some (bytes_word payload), enc)
       else if length payload > 20 then Inl (DecodeE InputTooLong)
       else if payload \<noteq> [] then Inl (DecodeE Decode_InputTooShort)
       else Inr (None, enc))"

section \<open>Accounts and withdrawals\<close>

definition encode_account :: "Account \<Rightarrow> bytes32 \<Rightarrow> bytes" where
  "encode_account account storage_root =
     encode_list2
       [encode_unsigned (nonce account),
        encode_unsigned (balance account),
        encode_bytes32 storage_root,
        encode_bytes32 (code_hash account)]"

definition decode_account :: "(Account \<times> bytes32) decoder" where
  "decode_account enc =
     tryR (parse_list_metadata enc) (\<lambda>(payload, enc).
     tryR (decode_unsigned payload) (\<lambda>(n, payload).
     tryR (decode_unsigned payload) (\<lambda>(b, payload).
     tryR (decode_bytes32 payload) (\<lambda>(storage_root, payload).
     tryR (decode_bytes32 payload) (\<lambda>(c, payload).
       if payload \<noteq> [] then Inl (DecodeE InputTooLong)
       else Inr ((\<lparr>balance = b, code_hash = c, nonce = n, incarnation = new_Incarnation 0 0\<rparr>, storage_root), enc))))))"

definition encode_withdrawal :: "Withdrawal \<Rightarrow> bytes" where
  "encode_withdrawal w =
     encode_list2
       [encode_unsigned (wd_index w),
        encode_unsigned (wd_validator_index w),
        encode_address (Some (wd_recipient w)),
        encode_unsigned (wd_amount w)]"

definition decode_withdrawal :: "Withdrawal decoder" where
  "decode_withdrawal enc =
     (if enc = [] then Inr (\<lparr>wd_index = 0, wd_validator_index = 0, wd_amount = 0, wd_recipient = 0\<rparr>, enc)
      else
     tryR (parse_list_metadata enc) (\<lambda>(payload, enc).
     tryR (decode_unsigned payload) (\<lambda>(i, payload).
     tryR (decode_unsigned payload) (\<lambda>(v, payload).
     tryR (decode_address payload) (\<lambda>(r, payload).
     tryR (decode_unsigned payload) (\<lambda>(a, payload).
       if payload \<noteq> [] then Inl (DecodeE InputTooLong)
       else Inr (\<lparr>wd_index = i, wd_validator_index = v, wd_amount = a, wd_recipient = r\<rparr>, enc)))))))"

definition decode_withdrawal_list :: "Withdrawal list decoder" where
  "decode_withdrawal_list enc =
     tryR (parse_list_metadata enc) (\<lambda>(payload, enc).
     tryR (decode_loop (\<lambda>p. p \<noteq> []) decode_withdrawal payload) (\<lambda>(withdrawals, payload).
       if payload \<noteq> [] then Inl (DecodeE InputTooLong) else Inr (withdrawals, enc)))"

section \<open>Receipts\<close>

fun type_byte :: "transaction_type \<Rightarrow> u8" where
  "type_byte legacy = 0"
| "type_byte eip2930 = 1"
| "type_byte eip1559 = 2"
| "type_byte eip4844 = 3"
| "type_byte eip7702 = 4"

definition encode_topics :: "bytes32 list \<Rightarrow> bytes" where
  "encode_topics ts = encode_list2 [concat (map encode_bytes32 ts)]"

definition encode_log :: "Log \<Rightarrow> bytes" where
  "encode_log l =
     encode_list2 [encode_address (Some (log_address l)), encode_topics (topics l), encode_string2 (log_data l)]"

definition encode_bloom :: "bytes \<Rightarrow> bytes" where
  "encode_bloom bloom = encode_string2 bloom"

definition encode_receipt :: "Receipt \<Rightarrow> bytes" where
  "encode_receipt r =
     (let log_result = concat (map encode_log (rc_logs r));
          receipt_bytes = encode_list2
            [encode_unsigned (rc_status r),
             encode_unsigned (rc_gas_used r),
             encode_bloom (rc_bloom r),
             encode_list2 [log_result]]
      in if rc_type r = eip1559 \<or> rc_type r = eip2930 \<or> rc_type r = eip4844 \<or> rc_type r = eip7702
         then type_byte (rc_type r) # receipt_bytes
         else receipt_bytes)"

definition decode_bloom :: "bytes decoder" where
  "decode_bloom enc = decode_byte_string_fixed 256 enc"

definition decode_topics :: "bytes32 list decoder" where
  "decode_topics enc =
     tryR (parse_list_metadata enc) (\<lambda>(payload, enc).
     tryR (decode_loop (\<lambda>p. p \<noteq> []) decode_bytes32 payload) (\<lambda>(ts, payload).
       if payload \<noteq> [] then Inl (DecodeE InputTooLong) else Inr (ts, enc)))"

definition decode_log :: "Log decoder" where
  "decode_log enc =
     tryR (parse_list_metadata enc) (\<lambda>(payload, enc).
     tryR (decode_address payload) (\<lambda>(a, payload).
     tryR (decode_topics payload) (\<lambda>(ts, payload).
     tryR (decode_string payload) (\<lambda>(d, payload).
       if payload \<noteq> [] then Inl (DecodeE InputTooLong)
       else Inr (\<lparr>log_address = a, topics = ts, log_data = d\<rparr>, enc)))))"

definition decode_logs :: "Log list decoder" where
  "decode_logs enc =
     tryR (parse_list_metadata enc) (\<lambda>(payload, enc).
     tryR (decode_loop (\<lambda>p. p \<noteq> []) decode_log payload) (\<lambda>(ls, payload).
       if payload \<noteq> [] then Inl (DecodeE InputTooLong) else Inr (ls, enc)))"

definition decode_untyped_receipt :: "Receipt decoder" where
  "decode_untyped_receipt enc =
     tryR (parse_list_metadata enc) (\<lambda>(payload, enc).
     tryR (decode_unsigned payload) (\<lambda>(s, payload).
     tryR (decode_unsigned payload) (\<lambda>(g, payload).
     tryR (decode_bloom payload) (\<lambda>(b, payload).
     tryR (decode_logs payload) (\<lambda>(ls, payload).
       if payload \<noteq> [] then Inl (DecodeE InputTooLong)
       else Inr (\<lparr>rc_bloom = b, rc_status = s, rc_gas_used = g, rc_type = legacy, rc_logs = ls\<rparr>, enc))))))"

definition decode_receipt :: "Receipt decoder" where
  "decode_receipt enc =
     (if enc = [] then Inl (DecodeE Decode_InputTooShort)
      else let first = enc ! 0
        in if first < 0xc0 then
             tryR (decode_untyped_receipt (drop 1 enc)) (\<lambda>(r, enc).
               if first = 1 then Inr (r\<lparr>rc_type := eip2930\<rparr>, enc)
               else if first = 2 then Inr (r\<lparr>rc_type := eip1559\<rparr>, enc)
               else if first = 3 then Inr (r\<lparr>rc_type := eip4844\<rparr>, enc)
               else if first = 4 then Inr (r\<lparr>rc_type := eip7702\<rparr>, enc)
               else Inl (DecodeE InvalidTxnType))
           else tryR (decode_untyped_receipt enc) (\<lambda>(r, enc). Inr (r\<lparr>rc_type := legacy\<rparr>, enc)))"

section \<open>Codecs\<close>

interpretation rlp_string: rlp_codec "\<lambda>s e. e = encode_string2 s" parse_string_metadata
  by (rule rlp_codecI) (auto simp: parse_string_iff fits_def)

interpretation rlp_list: rlp_codec "\<lambda>s e. e = encode_list2 [s]" parse_list_metadata
  by (rule rlp_codecI) (auto simp: parse_list_iff fits_def)

lemma list_length: "length (concat args) \<le> length (encode_list2 args)"
  by (simp add: encode_list2_def Let_def)

lemma list_fits: "fits (encode_list2 args @ rest) \<Longrightarrow> fits (concat args)"
  using list_length [of args] by (simp add: fits_def)

lemma list_bind [rlp_bind]:
  assumes "fits enc"
  shows "tryR (parse_list_metadata enc) f = Inr r \<longleftrightarrow>
    (\<exists>s rest. fits s \<and> fits rest \<and> enc = encode_list2 [s] @ rest \<and> f (s, rest) = Inr r)"
proof -
  have "fits s" if "enc = encode_list2 [s] @ rest" for s rest
    using assms that list_length [of "[s]"] by (simp add: fits_def)
  then show ?thesis
    unfolding rlp_list.bind_iff [OF assms] by auto
qed

lemma list_decode [rlp_decode]:
  "fits (encode_list2 args @ rest) \<Longrightarrow> parse_list_metadata (encode_list2 args @ rest) = Inr (concat args, rest)"
  "fits (encode_list2 args) \<Longrightarrow> parse_list_metadata (encode_list2 args) = Inr (concat args, [])"
  by (subst (asm) encode_list2_concat, subst encode_list2_concat, rule rlp_list.roundtrip [OF refl], assumption)+

lemma guard_bind [rlp_bind]: "(if c then Inl e else r) = Inr y \<longleftrightarrow> \<not> c \<and> r = Inr y"
  by simp

lemma raw_num_bind:
  assumes "8 dvd LENGTH('a)"
  shows "tryR (decode_raw_num enc) f = Inr r \<longleftrightarrow> (\<exists>n :: 'a::len word. enc = to_big_compact n \<and> f n = Inr r)"
  by (simp add: tryR_eq_Inr decode_raw_num_iff [OF assms])

lemma unsigned_codec:
  assumes "8 dvd LENGTH('a)"
  shows "rlp_codec (\<lambda>(n :: 'a::len word) e. e = encode_unsigned n) decode_unsigned"
  by (rule rlp_codecI)
    (auto simp: decode_unsigned_def rlp_string.bind_iff raw_num_bind [OF assms] encode_unsigned_def dest: fits_append)

interpretation rlp_u8: rlp_codec "\<lambda>(n :: u8) e. e = encode_unsigned n" decode_unsigned
  by (rule unsigned_codec) simp

interpretation rlp_u64: rlp_codec "\<lambda>(n :: u64) e. e = encode_unsigned n" decode_unsigned
  by (rule unsigned_codec) simp

interpretation rlp_u256: rlp_codec "\<lambda>(n :: u256) e. e = encode_unsigned n" decode_unsigned
  by (rule unsigned_codec) simp

interpretation rlp_fixed: rlp_codec "\<lambda>s e. length s = N \<and> e = encode_string2 s" "decode_byte_string_fixed N" for N
  by (rule rlp_codecI) (auto simp: decode_byte_string_fixed_def rlp_string.bind_iff dest: fits_append)

lemma bytes_word_iff:
  assumes "8 * N = LENGTH('a)"
  shows "length bs = N \<and> bytes_word bs = w \<longleftrightarrow> bs = word_bytes (w :: 'a::len word)"
proof -
  have "8 dvd LENGTH('a)" "N = LENGTH('a) div 8"
    using assms by (metis dvd_triv_left) (use assms in simp)
  then show ?thesis
    using word_bytes_bytes_word [of bs, where 'a = 'a] bytes_word_word_bytes [of w] assms by auto
qed

lemma fixed_word_codec:
  assumes "8 * N = LENGTH('a)"
  shows "rlp_codec (\<lambda>(w :: 'a::len word) e. e = encode_string2 (word_bytes w))
    (\<lambda>enc. tryR (decode_byte_string_fixed N enc) (\<lambda>(bs, enc). Inr (bytes_word bs, enc)))"
proof (rule rlp_codecI)
  fix enc and w :: "'a word" and rest
  assume "fits enc"
  then have "tryR (decode_byte_string_fixed N enc) (\<lambda>(bs, enc). Inr (bytes_word bs, enc)) = Inr (w, rest) \<longleftrightarrow>
      (\<exists>bs. length bs = N \<and> bytes_word bs = w \<and> enc = encode_string2 bs @ rest)"
    by (auto simp: rlp_fixed.bind_iff dest: fits_append)
  also have "\<dots> \<longleftrightarrow> enc = encode_string2 (word_bytes w) @ rest"
    unfolding conj_assoc [symmetric] bytes_word_iff [OF assms] by simp
  finally show "tryR (decode_byte_string_fixed N enc) (\<lambda>(bs, enc). Inr (bytes_word bs, enc)) = Inr (w, rest) \<longleftrightarrow>
      (\<exists>e. e = encode_string2 (word_bytes w) \<and> enc = e @ rest)"
    by simp
qed simp

interpretation rlp_bytes32: rlp_codec "\<lambda>b e. e = encode_bytes32 b" decode_bytes32
  using fixed_word_codec [of 32, where 'a = 256] by (simp add: encode_bytes32_def decode_bytes32_def [abs_def])

interpretation rlp_address: rlp_codec "\<lambda>a e. e = encode_address (Some a)" decode_address
  using fixed_word_codec [of 20, where 'a = 160] by (simp add: encode_address_def decode_address_def [abs_def])

interpretation rlp_opt_address: rlp_codec "\<lambda>a e. e = encode_address a" decode_optional_address
proof (rule rlp_codecI)
  fix enc x rest
  assume f: "fits enc"
  have p: "parse_string_metadata enc = Inr (s, rest) \<longleftrightarrow> enc = encode_string2 s @ rest" for s
    using f by (simp add: fits_def parse_string_iff)
  show "decode_optional_address enc = Inr (x, rest) \<longleftrightarrow> (\<exists>e. e = encode_address x \<and> enc = e @ rest)"
  proof (cases x)
    case None
    have "decode_optional_address enc = Inr (None, rest) \<longleftrightarrow> parse_string_metadata enc = Inr ([], rest)"
      by (cases "parse_string_metadata enc") (auto simp: decode_optional_address_def split: if_splits)
    then show ?thesis
      by (simp add: None p encode_address_def encode_string2_def)
  next
    case (Some a)
    have "decode_optional_address enc = Inr (Some a, rest) \<longleftrightarrow>
        (\<exists>s. (length s = 20 \<and> bytes_word s = a) \<and> parse_string_metadata enc = Inr (s, rest))"
      by (cases "parse_string_metadata enc") (auto simp: decode_optional_address_def split: if_splits)
    also have "\<dots> \<longleftrightarrow> enc = encode_string2 (word_bytes a) @ rest"
      by (subst bytes_word_iff) (simp_all add: p)
    finally show ?thesis
      by (simp add: Some encode_address_def)
  qed
qed (auto simp: encode_address_def split: option.splits)

lemmas scalar_binds [rlp_bind] =
  rlp_string.bind_iff rlp_u8.bind_iff rlp_u64.bind_iff rlp_u256.bind_iff rlp_fixed.bind_iff
  rlp_bytes32.bind_iff rlp_address.bind_iff rlp_opt_address.bind_iff

lemmas scalar_decodes [rlp_decode] =
  rlp_string.roundtrip [OF refl] rlp_u8.roundtrip [OF refl] rlp_u64.roundtrip [OF refl] rlp_u256.roundtrip [OF refl]
  rlp_fixed.roundtrip [OF conjI [OF _ refl]] rlp_bytes32.roundtrip [OF refl] rlp_address.roundtrip [OF refl]
  rlp_opt_address.roundtrip [OF refl]

section \<open>Accounts\<close>

interpretation rlp_account: rlp_codec
  "\<lambda>(a, root) e. incarnation a = new_Incarnation 0 0 \<and> e = encode_account a root" decode_account
proof (rule rlp_codec_of; clarify)
  fix enc a root rest
  assume "fits enc" "decode_account enc = Inr ((a, root), rest)"
  then show "\<exists>e. (incarnation a = new_Incarnation 0 0 \<and> e = encode_account a root) \<and> enc = e @ rest"
    by (auto simp: decode_account_def encode_account_def encode_list2_concat [of "_ # _ # _"] rlp_bind cong: conj_cong tryR_cong)
next
  fix a root rest
  assume "incarnation a = new_Incarnation 0 0" "fits (encode_account a root @ rest)"
  then show "decode_account (encode_account a root @ rest) = Inr ((a, root), rest)"
    using list_fits by (fastforce simp: decode_account_def encode_account_def rlp_decode fits_def cong: tryR_cong)
qed (simp add: encode_account_def)

section \<open>Lists\<close>

lemma list_all2_image:
  "list_all2 (\<lambda>x e. P x \<and> e = f x) xs es \<longleftrightarrow> list_all P xs \<and> es = map f xs"
  "list_all2 (\<lambda>x e. e = f x) xs es \<longleftrightarrow> es = map f xs"
  by (induction xs arbitrary: es; case_tac es; auto)+

context rlp_item
begin

lemma loop_bind:
  assumes "fits payload"
  shows "tryR (decode_loop (\<lambda>p. p \<noteq> []) decode payload) f = Inr r \<longleftrightarrow>
    (\<exists>xs es. list_all2 encodes xs es \<and> payload = concat es \<and> f (xs, []) = Inr r)"
  using decode_loop_iff [OF assms] by (auto simp: tryR_eq_Inr)

lemma list_of_codec:
  "rlp_codec (\<lambda>xs e. \<exists>es. list_all2 encodes xs es \<and> e = encode_list2 [concat es])
    (\<lambda>enc. tryR (parse_list_metadata enc) (\<lambda>(payload, enc).
       tryR (decode_loop (\<lambda>p. p \<noteq> []) decode payload) (\<lambda>(xs, payload).
         if payload \<noteq> [] then Inl err else Inr (xs, enc))))"
  (is "rlp_codec ?encodes ?decode")
proof (rule rlp_codec_of)
  fix enc xs rest
  assume "fits enc" "?decode enc = Inr (xs, rest)"
  then show "\<exists>e. ?encodes xs e \<and> enc = e @ rest"
    by (auto simp: list_bind loop_bind cong: conj_cong tryR_cong)
next
  fix xs e rest
  assume "?encodes xs e" "fits (e @ rest)"
  then obtain es where es: "list_all2 encodes xs es" "e = encode_list2 [concat es]" "fits (concat es)"
    using list_fits [of "[concat es]" rest for es] by auto
  then have "decode_loop (\<lambda>p. p \<noteq> []) decode (concat es) = Inr (xs, [])"
    using decode_loop_iff by blast
  then show "?decode (e @ rest) = Inr (xs, rest)"
    using \<open>fits (e @ rest)\<close> by (simp add: es(2) list_decode)
qed auto

end

interpretation rlp_topics: rlp_codec "\<lambda>ts e. e = encode_topics ts" decode_topics
  using rlp_bytes32.list_of_codec by (simp add: list_all2_image encode_topics_def decode_topics_def [abs_def])

interpretation rlp_withdrawal: rlp_item "\<lambda>w e. e = encode_withdrawal w" decode_withdrawal
proof
  fix enc w rest
  assume "enc \<noteq> []" "fits enc"
  then show "decode_withdrawal enc = Inr (w, rest) \<longleftrightarrow> (\<exists>e. e = encode_withdrawal w \<and> enc = e @ rest)"
    apply (intro iffI)
     apply (auto simp: decode_withdrawal_def encode_withdrawal_def encode_list2_concat [of "_ # _ # _"] rlp_bind cong: conj_cong tryR_cong)[]
    using list_fits apply (fastforce simp: decode_withdrawal_def encode_withdrawal_def rlp_decode fits_def cong: tryR_cong)
    done
qed (simp add: encode_withdrawal_def)

interpretation rlp_withdrawals: rlp_codec "\<lambda>ws e. e = encode_list2 [concat (map encode_withdrawal ws)]" decode_withdrawal_list
  using rlp_withdrawal.list_of_codec by (simp add: list_all2_image decode_withdrawal_list_def [abs_def])

lemmas list_binds [rlp_bind] = rlp_topics.bind_iff rlp_withdrawals.bind_iff

lemmas list_decodes [rlp_decode] = rlp_topics.roundtrip [OF refl] rlp_withdrawals.roundtrip [OF refl]

interpretation rlp_log: rlp_codec "\<lambda>l e. e = encode_log l" decode_log
proof (rule rlp_codec_of; clarify?)
  fix enc l rest
  assume "fits enc" "decode_log enc = Inr (l, rest)"
  then show "\<exists>e. e = encode_log l \<and> enc = e @ rest"
    by (auto simp: decode_log_def decode_string_def encode_log_def encode_list2_concat [of "_ # _ # _"] rlp_bind cong: conj_cong tryR_cong)
next
  fix l rest
  assume "fits (encode_log l @ rest)"
  then show "decode_log (encode_log l @ rest) = Inr (l, rest)"
    using list_fits by (fastforce simp: decode_log_def decode_string_def encode_log_def rlp_decode fits_def cong: tryR_cong)
qed (simp add: encode_log_def)

interpretation rlp_logs: rlp_codec "\<lambda>ls e. e = encode_list2 [concat (map encode_log ls)]" decode_logs
  using rlp_log.list_of_codec by (simp add: list_all2_image decode_logs_def [abs_def])

lemmas log_binds [rlp_bind] = rlp_logs.bind_iff

lemmas log_decodes [rlp_decode] = rlp_logs.roundtrip [OF refl]

section \<open>Receipts\<close>

definition encode_untyped_receipt :: "Receipt \<Rightarrow> bytes" where
  "encode_untyped_receipt r = encode_receipt (r\<lparr>rc_type := legacy\<rparr>)"

lemma encode_receipt_cases:
  "encode_receipt r = (if rc_type r = legacy then [] else [type_byte (rc_type r)]) @ encode_untyped_receipt r"
  by (cases "rc_type r") (simp_all add: encode_untyped_receipt_def encode_receipt_def Let_def)

interpretation rlp_untyped_receipt: rlp_codec
  "\<lambda>r e. length (rc_bloom r) = 256 \<and> rc_type r = legacy \<and> e = encode_untyped_receipt r" decode_untyped_receipt
proof (rule rlp_codec_of; (elim conjE)?)
  fix enc r rest
  assume "fits enc" "decode_untyped_receipt enc = Inr (r, rest)"
  then show "\<exists>e. (length (rc_bloom r) = 256 \<and> rc_type r = legacy \<and> e = encode_untyped_receipt r) \<and> enc = e @ rest"
    by (auto simp: decode_untyped_receipt_def encode_untyped_receipt_def encode_receipt_def decode_bloom_def encode_bloom_def
        encode_list2_concat [of "_ # _ # _"] rlp_bind cong: conj_cong tryR_cong)
next
  fix r e rest
  assume "length (rc_bloom r) = 256" "rc_type r = legacy" "e = encode_untyped_receipt r" "fits (e @ rest)"
  then show "decode_untyped_receipt (e @ rest) = Inr (r, rest)"
    using list_fits by (fastforce simp: decode_untyped_receipt_def encode_untyped_receipt_def encode_receipt_def
        decode_bloom_def encode_bloom_def rlp_decode fits_def cong: tryR_cong)
qed (simp add: encode_untyped_receipt_def encode_receipt_def)

lemma list_first:
  assumes "fits (encode_list2 args)"
  shows "\<exists>b e. encode_list2 args = b # e \<and> \<not> b < 0xc0"
proof -
  have "length (concat args) < 2 ^ 64"
    using assms list_length [of args] by (simp add: fits_def)
  then show ?thesis
    using encode_list2_first(1) [of "concat args"] encode_list2_nonempty [of args]
    by (cases "encode_list2 args") (simp_all add: encode_list2_concat [of args, symmetric] not_less)
qed

lemma encode_untyped_receipt_type [simp]:
  "encode_untyped_receipt (r\<lparr>rc_type := t\<rparr>) = encode_untyped_receipt r"
  by (simp add: encode_untyped_receipt_def)

lemma receipt_first:
  assumes "fits (encode_untyped_receipt r @ rest)"
  shows "encode_untyped_receipt r \<noteq> []" and "\<not> (encode_untyped_receipt r @ rest) ! 0 < 0xc0"
proof -
  have "fits (encode_untyped_receipt r)"
    using assms by (rule fits_append)
  moreover have "\<exists>args. encode_untyped_receipt r = encode_list2 args"
    by (simp add: encode_untyped_receipt_def encode_receipt_def) blast
  ultimately obtain b e where "encode_untyped_receipt r = b # e" "\<not> b < 0xc0"
    using list_first by metis
  then show "encode_untyped_receipt r \<noteq> []" "\<not> (encode_untyped_receipt r @ rest) ! 0 < 0xc0"
    by simp_all
qed

interpretation rlp_receipt: rlp_codec
  "\<lambda>r e. length (rc_bloom r) = 256 \<and> e = encode_receipt r" decode_receipt
proof (rule rlp_codec_of; (elim conjE)?)
  fix enc r rest
  assume f: "fits enc" and d: "decode_receipt enc = Inr (r, rest)"
  then obtain b e where enc: "enc = b # e" "fits e"
    by (cases enc) (auto simp: decode_receipt_def fits_def)
  show "\<exists>e. (length (rc_bloom r) = 256 \<and> e = encode_receipt r) \<and> enc = e @ rest"
  proof (cases "b < 0xc0")
    case True
    then obtain r0 where "decode_untyped_receipt e = Inr (r0, rest)"
      "b = 1 \<and> r = r0\<lparr>rc_type := eip2930\<rparr> \<or> b = 2 \<and> r = r0\<lparr>rc_type := eip1559\<rparr> \<or>
       b = 3 \<and> r = r0\<lparr>rc_type := eip4844\<rparr> \<or> b = 4 \<and> r = r0\<lparr>rc_type := eip7702\<rparr>"
      using d enc(1) by (auto simp: decode_receipt_def tryR_eq_Inr split: if_splits)
    moreover have "length (rc_bloom r0) = 256" "e = encode_untyped_receipt r0 @ rest"
      using calculation(1) rlp_untyped_receipt.decodes [OF enc(2)] by auto
    ultimately show ?thesis
      by (elim disjE conjE) (simp_all add: enc(1) encode_receipt_cases)
  next
    case False
    then show ?thesis
      using d enc f by (auto simp: decode_receipt_def rlp_untyped_receipt.bind_iff encode_receipt_cases)
  qed
next
  fix r e rest
  assume r: "length (rc_bloom r) = 256" "e = encode_receipt r" and f: "fits (e @ rest)"
  have f': "fits (encode_untyped_receipt r @ rest)"
    using f by (simp add: r(2) encode_receipt_cases fits_def)
  have "decode_untyped_receipt (encode_untyped_receipt r @ rest) = Inr (r\<lparr>rc_type := legacy\<rparr>, rest)"
    using rlp_untyped_receipt.roundtrip(1) [of "r\<lparr>rc_type := legacy\<rparr>" _ rest] r(1) f' by simp
  then show "decode_receipt (e @ rest) = Inr (r, rest)"
    using receipt_first [OF f'] by (cases "rc_type r") (simp_all add: r(2) decode_receipt_def encode_receipt_cases)
qed (simp add: encode_receipt_def Let_def)

section \<open>Canonicity of receipts\<close>

text \<open>C32. A receipt, of any transaction type and with any logs, decodes exactly from its encoding: the
  decoder inverts the encoder, leaves the rest of the input, and accepts nothing else.\<close>

theorem receipt_canonical:
  assumes "fits enc"
  shows "decode_receipt enc = Inr (r, rest) \<longleftrightarrow> length (rc_bloom r) = 256 \<and> enc = encode_receipt r @ rest"
  using rlp_receipt.decodes [OF assms, of r rest] by auto

end
