(* ===== verification/TransactionRlp.thy ===== *)
theory TransactionRlp
  imports CoreRlp
begin

text \<open>
  The encoding of transactions, \<open>transaction_rlp.cpp\<close> and \<open>signature_rlp.cpp\<close>, and the recovery of the
  sender, \<open>transaction.cpp\<close>.

  The results: a well-formed transaction is read back from its encoding; the decoders of access lists,
  authorization lists and of transactions accept nothing but such encodings, up to the exceptions that
  the iffs below spell out; and what is signed determines the transaction.
\<close>

section \<open>Encoding\<close>

text \<open>A loop over a list that stops at the first failure.\<close>

fun collect :: "('a \<Rightarrow> 'b result) \<Rightarrow> 'a list \<Rightarrow> 'b list result" where
  "collect f [] = Inr []"
| "collect f (x # xs) = tryR (f x) (\<lambda>y. tryR (collect f xs) (\<lambda>ys. Inr (y # ys)))"

definition encode_access_entry :: "AccessEntry \<Rightarrow> bytes" where
  "encode_access_entry entry =
     (let temp = concat (map encode_bytes32 (access_keys entry))
      in encode_list2 [encode_address (Some (access_address entry)) @ encode_list2 [temp]])"

definition encode_access_list :: "AccessEntry list \<Rightarrow> bytes" where
  "encode_access_list access_list = encode_list2 [concat (map encode_access_entry access_list)]"

definition encode_authorization_entry_for_signing :: "AuthorizationEntry \<Rightarrow> bytes result" where
  "encode_authorization_entry_for_signing entry =
     (case chain_id (auth_sc entry) of
        None \<Rightarrow> Inl Aborted
      | Some c \<Rightarrow>
          let res = encode_unsigned c @ encode_address (Some (authority_code entry)) @ encode_unsigned (auth_nonce entry)
          in Inr (0x05 # encode_list2 [res]))"

definition encode_authorization_entry :: "AuthorizationEntry \<Rightarrow> bytes result" where
  "encode_authorization_entry entry =
     (case chain_id (auth_sc entry) of
        None \<Rightarrow> Inl Aborted
      | Some c \<Rightarrow> Inr (encode_list2
          [encode_unsigned c,
           encode_address (Some (authority_code entry)),
           encode_unsigned (auth_nonce entry),
           encode_unsigned (y_parity (auth_sc entry)),
           encode_unsigned (sig_r (auth_sc entry)),
           encode_unsigned (sig_s (auth_sc entry))]))"

definition encode_authorization_list :: "AuthorizationEntry list \<Rightarrow> bytes result" where
  "encode_authorization_list auth_list =
     tryR (collect encode_authorization_entry auth_list) (\<lambda>es. Inr (encode_list2 [concat es]))"

definition encode_legacy_base :: "transaction \<Rightarrow> bytes" where
  "encode_legacy_base tx =
     encode_unsigned (tx_nonce tx) @
     encode_unsigned (tx_max_fee_per_gas tx) @
     encode_unsigned (tx_gas_limit tx) @
     encode_address (tx_to tx) @
     encode_unsigned (tx_value tx) @
     encode_string2 (tx_data tx)"

definition has_priority_fee :: "transaction_type \<Rightarrow> bool" where
  "has_priority_fee t \<longleftrightarrow> t = eip1559 \<or> t = eip4844 \<or> t = eip7702"

definition encode_eip2718_base :: "transaction \<Rightarrow> bytes result" where
  "encode_eip2718_base tx =
     (let encoding =
        encode_unsigned (case chain_id (tx_sc tx) of None \<Rightarrow> 0 | Some c \<Rightarrow> c) @
        encode_unsigned (tx_nonce tx) @
        (if has_priority_fee (tx_type tx) then encode_unsigned (tx_max_priority_fee_per_gas tx) else []) @
        encode_unsigned (tx_max_fee_per_gas tx) @
        encode_unsigned (tx_gas_limit tx) @
        encode_address (tx_to tx) @
        encode_unsigned (tx_value tx) @
        encode_string2 (tx_data tx) @
        encode_access_list (tx_access_list tx) @
        (if tx_type tx = eip4844
         then encode_unsigned (tx_max_fee_per_blob_gas tx) @
              encode_list2 [concat (map encode_bytes32 (tx_blob_versioned_hashes tx))]
         else [])
      in if tx_type tx = eip7702
         then tryR (encode_authorization_list (tx_authorization_list tx)) (\<lambda>al. Inr (encoding @ al))
         else Inr encoding)"

definition encode_transaction :: "transaction \<Rightarrow> bytes result" where
  "encode_transaction tx =
     (if tx_type tx = legacy then
        tryR (get_v (tx_sc tx)) (\<lambda>v. Inr (encode_list2
          [encode_legacy_base tx,
           encode_unsigned v,
           encode_unsigned (sig_r (tx_sc tx)),
           encode_unsigned (sig_s (tx_sc tx))]))
      else
        tryR (encode_eip2718_base tx) (\<lambda>base. Inr (type_byte (tx_type tx) # encode_list2
          [base,
           encode_unsigned (y_parity (tx_sc tx)),
           encode_unsigned (sig_r (tx_sc tx)),
           encode_unsigned (sig_s (tx_sc tx))])))"

definition encode_transaction_for_signing :: "transaction \<Rightarrow> bytes result" where
  "encode_transaction_for_signing tx =
     (if tx_type tx = legacy then
        (case chain_id (tx_sc tx) of
           Some c \<Rightarrow> Inr (encode_list2
             [encode_legacy_base tx, encode_unsigned c, encode_unsigned (0 :: u32), encode_unsigned (0 :: u32)])
         | None \<Rightarrow> Inr (encode_list2 [encode_legacy_base tx]))
      else tryR (encode_eip2718_base tx) (\<lambda>base. Inr (type_byte (tx_type tx) # encode_list2 [base])))"

section \<open>Decoding\<close>

definition decode_access_entry_keys :: "bytes32 list decoder" where
  "decode_access_entry_keys enc =
     tryR (parse_list_metadata enc) (\<lambda>(payload, enc).
       let list_space = length payload
       in tryR (decode_loop (\<lambda>p. p \<noteq> []) decode_bytes32 payload) (\<lambda>(keys, payload).
            if payload \<noteq> [] then Inl (DecodeE InputTooLong)
            else if list_space \<noteq> length keys * 33 then Inl Aborted
            else Inr (keys, enc)))"

definition decode_access_entry :: "AccessEntry decoder" where
  "decode_access_entry enc =
     tryR (parse_list_metadata enc) (\<lambda>(payload, enc).
     tryR (decode_address payload) (\<lambda>(a, payload).
     tryR (decode_access_entry_keys payload) (\<lambda>(keys, payload).
       if payload \<noteq> [] then Inl (DecodeE InputTooLong)
       else Inr (\<lparr>access_address = a, access_keys = keys\<rparr>, enc))))"

definition decode_access_list :: "AccessEntry list decoder" where
  "decode_access_list enc =
     tryR (parse_list_metadata enc) (\<lambda>(payload, enc).
     tryR (decode_loop (\<lambda>p. p \<noteq> []) decode_access_entry payload) (\<lambda>(access_list, payload).
       if payload \<noteq> [] then Inl Aborted else Inr (access_list, enc)))"

definition decode_authorization_entry :: "AuthorizationEntry decoder" where
  "decode_authorization_entry enc =
     tryR (parse_list_metadata enc) (\<lambda>(payload, enc).
     tryR (decode_unsigned payload) (\<lambda>(c, payload).
     tryR (decode_address payload) (\<lambda>(a, payload).
     tryR (decode_unsigned payload) (\<lambda>(n, payload).
     tryR (decode_unsigned payload) (\<lambda>(y, payload).
     tryR (decode_unsigned payload) (\<lambda>(r, payload).
     tryR (decode_unsigned payload) (\<lambda>(s, payload).
       if payload \<noteq> [] then Inl (DecodeE InputTooLong)
       else Inr (\<lparr>auth_sc = \<lparr>sig_r = r, sig_s = s, chain_id = Some c, y_parity = y\<rparr>,
                   authority_code = a, auth_nonce = n\<rparr>, enc))))))))"

definition decode_authorization_list :: "AuthorizationEntry list decoder" where
  "decode_authorization_list enc =
     tryR (parse_list_metadata enc) (\<lambda>(payload, enc).
     tryR (decode_loop (\<lambda>p. p \<noteq> []) decode_authorization_entry payload) (\<lambda>(auth_list, payload).
       if payload \<noteq> [] then Inl Aborted else Inr (auth_list, enc)))"

definition decode_sc :: "SignatureAndChain decoder" where
  "decode_sc enc = tryR (decode_unsigned enc) (\<lambda>(v, enc). Inr (from_v v empty_signature, enc))"

definition decode_transaction_legacy :: "transaction decoder" where
  "decode_transaction_legacy enc =
     tryR (parse_list_metadata enc) (\<lambda>(payload, enc).
     tryR (decode_unsigned payload) (\<lambda>(n, payload).
     tryR (decode_unsigned payload) (\<lambda>(fee, payload).
     tryR (decode_unsigned payload) (\<lambda>(gas, payload).
     tryR (decode_optional_address payload) (\<lambda>(to, payload).
     tryR (decode_unsigned payload) (\<lambda>(value, payload).
     tryR (decode_string payload) (\<lambda>(data, payload).
     tryR (decode_sc payload) (\<lambda>(sc, payload).
     tryR (decode_unsigned payload) (\<lambda>(r, payload).
     tryR (decode_unsigned payload) (\<lambda>(s, payload).
       if payload \<noteq> [] then Inl (DecodeE InputTooLong)
       else Inr (empty_transaction
         \<lparr>tx_type := legacy, tx_nonce := n, tx_max_fee_per_gas := fee, tx_gas_limit := gas, tx_to := to,
          tx_value := value, tx_data := data, tx_sc := sc\<lparr>sig_r := r, sig_s := s\<rparr>\<rparr>, enc)))))))))))"

definition type_of_byte :: "u8 \<Rightarrow> transaction_type" where
  "type_of_byte b =
     (if b = 0 then legacy else if b = 1 then eip2930 else if b = 2 then eip1559 else if b = 3 then eip4844 else eip7702)"

text \<open>The fields of blob transactions and of authorizations.\<close>

definition decode_blob_fields :: "address option \<Rightarrow> (u256 \<times> bytes32 list) decoder" where
  "decode_blob_fields to payload =
     (if to = None then Inl (DecodeE Decode_InputTooShort)
      else tryR (decode_unsigned payload) (\<lambda>(fee, payload).
           tryR (parse_list_metadata payload) (\<lambda>(hashes_payload, payload).
           tryR (decode_loop (\<lambda>p. length p \<ge> 32) decode_bytes32 hashes_payload) (\<lambda>(hashes, _).
             Inr ((fee, hashes), payload)))))"

definition decode_authorization_field :: "address option \<Rightarrow> AuthorizationEntry list decoder" where
  "decode_authorization_field to payload =
     (if to = None then Inl (DecodeE Decode_InputTooShort) else decode_authorization_list payload)"

definition decode_eip2718_payload :: "transaction_type \<Rightarrow> transaction decoder" where
  "decode_eip2718_payload type enc =
     tryR (parse_list_metadata enc) (\<lambda>(payload, enc).
     tryR (decode_unsigned payload) (\<lambda>(c, payload).
     tryR (decode_unsigned payload) (\<lambda>(n, payload).
     tryR (if has_priority_fee type then decode_unsigned payload else Inr (0, payload)) (\<lambda>(tip, payload).
     tryR (decode_unsigned payload) (\<lambda>(fee, payload).
     tryR (decode_unsigned payload) (\<lambda>(gas, payload).
     tryR (decode_optional_address payload) (\<lambda>(to, payload).
     tryR (decode_unsigned payload) (\<lambda>(value, payload).
     tryR (decode_string payload) (\<lambda>(data, payload).
     tryR (decode_access_list payload) (\<lambda>(access_list, payload).
     tryR (if type = eip4844 then decode_blob_fields to payload else Inr ((0, []), payload)) (\<lambda>((blob_fee, hashes), payload).
     tryR (if type = eip7702 then decode_authorization_field to payload else Inr ([], payload)) (\<lambda>(auth_list, payload).
     tryR (decode_unsigned payload) (\<lambda>(y, payload).
     tryR (decode_unsigned payload) (\<lambda>(r, payload).
     tryR (decode_unsigned payload) (\<lambda>(s, payload).
       if payload \<noteq> [] then Inl (DecodeE InputTooLong)
       else Inr (\<lparr>tx_sc = \<lparr>sig_r = r, sig_s = s, chain_id = Some c, y_parity = y\<rparr>, tx_nonce = n, tx_max_fee_per_gas = fee,
                   tx_gas_limit = gas, tx_value = value, tx_to = to, tx_type = type, tx_data = data,
                   tx_access_list = access_list, tx_max_priority_fee_per_gas = tip, tx_max_fee_per_blob_gas = blob_fee,
                   tx_blob_versioned_hashes = hashes, tx_authorization_list = auth_list\<rparr>, enc))))))))))))))))"

definition decode_transaction_eip2718 :: "transaction decoder" where
  "decode_transaction_eip2718 enc =
     (if enc = [] then Inl Aborted
      else if enc ! 0 \<ge> 5 then Inl (DecodeE InvalidTxnType)
      else decode_eip2718_payload (type_of_byte (enc ! 0)) (drop 1 enc))"

definition decode_transaction :: "transaction decoder" where
  "decode_transaction enc =
     (if enc = [] then Inl (DecodeE Decode_InputTooShort)
      else if enc ! 0 \<ge> 0xc0 then decode_transaction_legacy enc
      else decode_transaction_eip2718 enc)"

definition decode_listed_transaction :: "transaction decoder" where
  "decode_listed_transaction ls =
     (if ls ! 0 \<ge> 0xc0 then decode_transaction_legacy ls
      else tryR (parse_string_metadata ls) (\<lambda>(str, ls).
           tryR (decode_transaction_eip2718 str) (\<lambda>(tx, _). Inr (tx, ls))))"

definition decode_transaction_list :: "transaction list decoder" where
  "decode_transaction_list enc =
     tryR (parse_list_metadata enc) (\<lambda>(ls, enc).
     tryR (decode_loop (\<lambda>p. p \<noteq> []) decode_listed_transaction ls) (\<lambda>(transactions, ls).
       if ls \<noteq> [] then Inl Aborted else Inr (transactions, enc)))"

section \<open>The sender\<close>

text \<open>\<open>keccak256\<close> and \<open>silkpre_recover_address\<close> (hash, signature, parity) are parameters.\<close>

definition ecrecover ::
  "(bytes \<Rightarrow> bytes32) \<Rightarrow> (bytes32 \<Rightarrow> bytes \<Rightarrow> u8 \<Rightarrow> address option) \<Rightarrow> SignatureAndChain \<Rightarrow> bytes \<Rightarrow> address option" where
  "ecrecover keccak256 recover_address sc encoding =
     (if y_parity sc > 1 then None
      else if has_upper_s sc then None
      else recover_address (keccak256 encoding) (word_bytes (sig_r sc) @ word_bytes (sig_s sc)) (y_parity sc))"

definition recover_authority ::
  "(bytes \<Rightarrow> bytes32) \<Rightarrow> (bytes32 \<Rightarrow> bytes \<Rightarrow> u8 \<Rightarrow> address option) \<Rightarrow> AuthorizationEntry \<Rightarrow> address option result" where
  "recover_authority keccak256 recover_address entry =
     tryR (encode_authorization_entry_for_signing entry) (\<lambda>auth_encoding.
       Inr (ecrecover keccak256 recover_address (auth_sc entry) auth_encoding))"

definition recover_sender ::
  "(bytes \<Rightarrow> bytes32) \<Rightarrow> (bytes32 \<Rightarrow> bytes \<Rightarrow> u8 \<Rightarrow> address option) \<Rightarrow> transaction \<Rightarrow> address option result" where
  "recover_sender keccak256 recover_address tx =
     tryR (encode_transaction_for_signing tx) (\<lambda>tx_encoding.
       Inr (ecrecover keccak256 recover_address (tx_sc tx) tx_encoding))"

section \<open>Access and authorization lists\<close>

lemma collect_iff: "collect f xs = Inr ys \<longleftrightarrow> list_all2 (\<lambda>x y. f x = Inr y) xs ys"
  by (induction xs arbitrary: ys) (auto simp: tryR_eq_Inr list_all2_Cons1)

lemma length_encode_bytes32 [simp]: "length (encode_bytes32 b) = 33"
  by (simp add: encode_bytes32_def encode_string2_def Let_def)

lemma length_concat_bytes32 [simp]: "length (concat (map encode_bytes32 bs)) = 33 * length bs"
  by (induction bs) simp_all

interpretation rlp_keys: rlp_codec "\<lambda>ks e. e = encode_list2 [concat (map encode_bytes32 ks)]" decode_access_entry_keys
proof (rule rlp_codecI)
  fix enc ks rest
  assume f: "fits enc"
  have "decode_access_entry_keys enc = Inr (ks, rest) \<longleftrightarrow> decode_topics enc = Inr (ks, rest)"
    using f by (auto simp: decode_access_entry_keys_def decode_topics_def Let_def list_bind rlp_bytes32.loop_bind
        list_all2_image cong: conj_cong tryR_cong)
  then show "decode_access_entry_keys enc = Inr (ks, rest) \<longleftrightarrow>
      (\<exists>e. e = encode_list2 [concat (map encode_bytes32 ks)] \<and> enc = e @ rest)"
    using rlp_topics.decodes [OF f] by (simp add: encode_topics_def)
qed simp

lemmas key_binds [rlp_bind] = rlp_keys.bind_iff
lemmas key_decodes [rlp_decode] = rlp_keys.roundtrip [OF refl]

interpretation rlp_access_entry: rlp_codec "\<lambda>x e. e = encode_access_entry x" decode_access_entry
proof (rule rlp_codec_of)
  fix enc x rest
  assume "fits enc" "decode_access_entry enc = Inr (x, rest)"
  then show "\<exists>e. e = encode_access_entry x \<and> enc = e @ rest"
    by (auto simp: decode_access_entry_def encode_access_entry_def rlp_bind cong: conj_cong tryR_cong)
next
  fix x e rest
  assume "e = encode_access_entry x" "fits (e @ rest)"
  then show "decode_access_entry (e @ rest) = Inr (x, rest)"
    using list_fits by (fastforce simp: decode_access_entry_def encode_access_entry_def rlp_decode fits_def cong: tryR_cong)
qed (simp add: encode_access_entry_def)

interpretation rlp_access_list: rlp_codec "\<lambda>x e. e = encode_access_list x" decode_access_list
  using rlp_access_entry.list_of_codec by (simp add: list_all2_image encode_access_list_def decode_access_list_def [abs_def])

interpretation rlp_authorization: rlp_codec "\<lambda>x e. encode_authorization_entry x = Inr e" decode_authorization_entry
proof (rule rlp_codec_of)
  fix enc x rest
  assume "fits enc" "decode_authorization_entry enc = Inr (x, rest)"
  then show "\<exists>e. encode_authorization_entry x = Inr e \<and> enc = e @ rest"
    by (auto simp: decode_authorization_entry_def encode_authorization_entry_def encode_list2_concat [of "_ # _ # _"]
        rlp_bind cong: conj_cong tryR_cong)
next
  fix x e rest
  assume e: "encode_authorization_entry x = Inr e" and "fits (e @ rest)"
  then obtain c where "chain_id (auth_sc x) = Some c"
    by (auto simp: encode_authorization_entry_def split: option.splits)
  then show "decode_authorization_entry (e @ rest) = Inr (x, rest)"
    using e \<open>fits (e @ rest)\<close> list_fits
    by (fastforce simp: decode_authorization_entry_def encode_authorization_entry_def rlp_decode fits_def cong: tryR_cong)
qed (auto simp: encode_authorization_entry_def split: option.splits)

lemma encode_authorization_list_iff:
  "encode_authorization_list xs = Inr e \<longleftrightarrow>
    (\<exists>es. list_all2 (\<lambda>x e. encode_authorization_entry x = Inr e) xs es \<and> e = encode_list2 [concat es])"
  by (auto simp: encode_authorization_list_def tryR_eq_Inr collect_iff)

interpretation rlp_authorizations: rlp_codec "\<lambda>x e. encode_authorization_list x = Inr e" decode_authorization_list
  unfolding encode_authorization_list_iff decode_authorization_list_def [abs_def] by (rule rlp_authorization.list_of_codec)

lemmas access_binds [rlp_bind] = rlp_access_list.bind_iff rlp_authorizations.bind_iff
lemmas access_decodes [rlp_decode] = rlp_access_list.roundtrip [OF refl]

section \<open>Legacy transactions\<close>

definition legacy_fields :: "transaction \<Rightarrow> bool" where
  "legacy_fields tx \<longleftrightarrow> tx_type tx = legacy \<and> tx_access_list tx = [] \<and> tx_max_priority_fee_per_gas tx = 0 \<and>
     tx_max_fee_per_blob_gas tx = 0 \<and> tx_blob_versioned_hashes tx = [] \<and> tx_authorization_list tx = []"

definition legacy_encoding :: "transaction \<Rightarrow> bytes \<Rightarrow> bool" where
  "legacy_encoding tx e \<longleftrightarrow> legacy_fields tx \<and>
     (\<exists>v. tx_sc tx = (from_v v empty_signature)\<lparr>sig_r := sig_r (tx_sc tx), sig_s := sig_s (tx_sc tx)\<rparr> \<and>
       e = encode_list2 [encode_legacy_base tx, encode_unsigned v, encode_unsigned (sig_r (tx_sc tx)), encode_unsigned (sig_s (tx_sc tx))])"

lemma sc_bind [rlp_bind]:
  "fits enc \<Longrightarrow> tryR (decode_sc enc) f = Inr r \<longleftrightarrow>
    (\<exists>v rest. fits rest \<and> enc = encode_unsigned v @ rest \<and> f (from_v v empty_signature, rest) = Inr r)"
  using rlp_u256.bind_iff [of enc "\<lambda>(v, enc). f (from_v v empty_signature, enc)" r]
  by (auto simp: decode_sc_def tryR_def split: sum.splits)

interpretation rlp_legacy: rlp_codec legacy_encoding decode_transaction_legacy
proof (rule rlp_codec_of)
  fix enc tx rest
  assume "fits enc" "decode_transaction_legacy enc = Inr (tx, rest)"
  then show "\<exists>e. legacy_encoding tx e \<and> enc = e @ rest"
    by (auto simp: decode_transaction_legacy_def decode_string_def legacy_encoding_def legacy_fields_def encode_legacy_base_def
        empty_transaction_def encode_list2_concat [of "_ # _ # _"] rlp_bind cong: conj_cong tryR_cong)
next
  fix tx e rest
  assume e: "legacy_encoding tx e" and f: "fits (e @ rest)"
  then obtain v where v: "tx_sc tx = (from_v v empty_signature)\<lparr>sig_r := sig_r (tx_sc tx), sig_s := sig_s (tx_sc tx)\<rparr>"
    "legacy_fields tx" and e: "e = encode_list2 [encode_legacy_base tx, encode_unsigned v,
      encode_unsigned (sig_r (tx_sc tx)), encode_unsigned (sig_s (tx_sc tx))]"
    by (auto simp: legacy_encoding_def)
  show "decode_transaction_legacy (e @ rest) = Inr (tx, rest)"
    using v f list_fits [OF f [unfolded e]]
    by (simp add: e decode_transaction_legacy_def decode_string_def decode_sc_def encode_legacy_base_def rlp_decode fits_def
        legacy_fields_def empty_transaction_def cong: tryR_cong)
qed (auto simp: legacy_encoding_def)

section \<open>Typed transactions\<close>

text \<open>The decoder of blob hashes stops when less than 32 bytes are left and ignores them: \<open>junk\<close>.\<close>

definition blob_encoding :: "transaction \<Rightarrow> bytes \<Rightarrow> bytes" where
  "blob_encoding tx junk =
     encode_unsigned (tx_max_fee_per_blob_gas tx) @ encode_list2 [concat (map encode_bytes32 (tx_blob_versioned_hashes tx)) @ junk]"

definition typed_base :: "transaction \<Rightarrow> bytes" where
  "typed_base tx =
     encode_unsigned (case chain_id (tx_sc tx) of None \<Rightarrow> 0 | Some c \<Rightarrow> c) @
     encode_unsigned (tx_nonce tx) @
     (if has_priority_fee (tx_type tx) then encode_unsigned (tx_max_priority_fee_per_gas tx) else []) @
     encode_unsigned (tx_max_fee_per_gas tx) @
     encode_unsigned (tx_gas_limit tx) @
     encode_address (tx_to tx) @
     encode_unsigned (tx_value tx) @
     encode_string2 (tx_data tx) @
     encode_access_list (tx_access_list tx)"

definition authorization_field :: "transaction \<Rightarrow> bytes result" where
  "authorization_field tx =
     (if tx_type tx = eip7702 then encode_authorization_list (tx_authorization_list tx) else Inr [])"

definition typed_fields :: "transaction \<Rightarrow> bool" where
  "typed_fields tx \<longleftrightarrow> chain_id (tx_sc tx) \<noteq> None \<and>
     (has_priority_fee (tx_type tx) \<or> tx_max_priority_fee_per_gas tx = 0) \<and>
     (if tx_type tx = eip4844 then tx_to tx \<noteq> None else tx_max_fee_per_blob_gas tx = 0 \<and> tx_blob_versioned_hashes tx = []) \<and>
     (if tx_type tx = eip7702 then tx_to tx \<noteq> None else tx_authorization_list tx = [])"

definition typed_encoding :: "transaction \<Rightarrow> bytes \<Rightarrow> bool" where
  "typed_encoding tx e \<longleftrightarrow> typed_fields tx \<and>
     (\<exists>junk al. length junk < 32 \<and> (tx_type tx = eip4844 \<or> junk = []) \<and>
       authorization_field tx = Inr al \<and>
       e = encode_list2 [typed_base tx @ (if tx_type tx = eip4844 then blob_encoding tx junk else []) @ al,
         encode_unsigned (y_parity (tx_sc tx)), encode_unsigned (sig_r (tx_sc tx)), encode_unsigned (sig_s (tx_sc tx))])"

lemma blob_hashes_loop:
  assumes "fits payload"
  shows "decode_loop (\<lambda>p. 32 \<le> length p) decode_bytes32 payload = Inr (hs, rest) \<longleftrightarrow>
    length rest < 32 \<and> payload = concat (map encode_bytes32 hs) @ rest"
  using rlp_bytes32.decode_loop_more [OF assms, of "\<lambda>p. 32 \<le> length p" hs rest] by (auto simp: list_all2_image)

lemma blob_hashes_bind:
  assumes "fits payload"
  shows "tryR (decode_loop (\<lambda>p. 32 \<le> length p) decode_bytes32 payload) f = Inr r \<longleftrightarrow>
    (\<exists>hs junk. length junk < 32 \<and> payload = concat (map encode_bytes32 hs) @ junk \<and> f (hs, junk) = Inr r)"
  using blob_hashes_loop [OF assms] by (auto simp: tryR_eq_Inr)

lemma blob_decode [rlp_decode]:
  assumes "length junk < 32" and "to \<noteq> None"
    and f: "fits (encode_unsigned fee @ encode_list2 [concat (map encode_bytes32 hs) @ junk] @ rest)"
  shows "decode_blob_fields to (encode_unsigned fee @ encode_list2 [concat (map encode_bytes32 hs) @ junk] @ rest) =
    Inr ((fee, hs), rest)"
proof -
  have "fits (concat (map encode_bytes32 hs) @ junk)"
    using list_fits [of "[concat (map encode_bytes32 hs) @ junk]" rest] f by (simp add: fits_def)
  then have "decode_loop (\<lambda>p. 32 \<le> length p) decode_bytes32 (concat (map encode_bytes32 hs) @ junk) = Inr (hs, junk)"
    using blob_hashes_loop assms(1) by blast
  then show ?thesis
    using f assms(2) by (simp add: decode_blob_fields_def rlp_decode fits_def cong: tryR_cong)
qed

lemma blob_bind [rlp_bind]:
  assumes "fits enc"
  shows "tryR (decode_blob_fields to enc) f = Inr r \<longleftrightarrow> to \<noteq> None \<and>
    (\<exists>fee hs junk rest. fits rest \<and> length junk < 32 \<and>
      enc = encode_unsigned fee @ encode_list2 [concat (map encode_bytes32 hs) @ junk] @ rest \<and> f ((fee, hs), rest) = Inr r)"
proof -
  have "decode_blob_fields to enc = Inr ((fee, hs), rest) \<longleftrightarrow> to \<noteq> None \<and> fits rest \<and>
      (\<exists>junk. length junk < 32 \<and> enc = encode_unsigned fee @ encode_list2 [concat (map encode_bytes32 hs) @ junk] @ rest)"
      (is "_ \<longleftrightarrow> ?r") for fee hs rest
  proof
    assume ?r
    then show "decode_blob_fields to enc = Inr ((fee, hs), rest)"
      using assms blob_decode by blast
  qed (use assms in \<open>auto simp: decode_blob_fields_def rlp_bind blob_hashes_bind cong: conj_cong tryR_cong\<close>)
  then show ?thesis
    by (auto simp: tryR_eq_Inr)
qed

lemma authorization_bind [rlp_bind]:
  "fits enc \<Longrightarrow> tryR (decode_authorization_field to enc) f = Inr r \<longleftrightarrow> to \<noteq> None \<and> 
    (\<exists>al e rest. fits rest \<and> encode_authorization_list al = Inr e \<and> enc = e @ rest \<and> f (al, rest) = Inr r)"
  by (auto simp: decode_authorization_field_def rlp_authorizations.bind_iff)

lemmas typed_defs = decode_eip2718_payload_def decode_string_def has_priority_fee_def typed_fields_def typed_base_def
  blob_encoding_def authorization_field_def

interpretation rlp_typed: rlp_codec "\<lambda>tx e. tx_type tx = t \<and> typed_encoding tx e" "decode_eip2718_payload t" for t
proof (rule rlp_codec_of; (elim conjE)?)
  fix enc tx rest
  assume "fits enc" "decode_eip2718_payload t enc = Inr (tx, rest)"
  then show "\<exists>e. (tx_type tx = t \<and> typed_encoding tx e) \<and> enc = e @ rest"
    by (cases t) (auto simp: typed_defs typed_encoding_def encode_list2_concat [of "_ # _ # _"] rlp_bind cong: conj_cong tryR_cong)
next
  fix tx e rest
  assume t: "tx_type tx = t" "typed_encoding tx e" and f: "fits (e @ rest)"
  obtain junk al where j: "typed_fields tx" "length junk < 32" "tx_type tx = eip4844 \<or> junk = []"
      "authorization_field tx = Inr al"
    and e: "e = encode_list2 [typed_base tx @ (if tx_type tx = eip4844 then blob_encoding tx junk else []) @ al,
         encode_unsigned (y_parity (tx_sc tx)), encode_unsigned (sig_r (tx_sc tx)), encode_unsigned (sig_s (tx_sc tx))]"
    using t(2) by (auto simp: typed_encoding_def)
  obtain c where c: "chain_id (tx_sc tx) = Some c"
    using j(1) by (auto simp: typed_fields_def)
  have al: "decode_authorization_field to (al @ r) = Inr (tx_authorization_list tx, r)"
    if "t = eip7702" "fits (al @ r)" "to \<noteq> None" for to r
    using that t(1) j(4) rlp_authorizations.roundtrip(1)
    by (simp add: authorization_field_def decode_authorization_field_def)
  show "decode_eip2718_payload t (e @ rest) = Inr (tx, rest)"
  proof (cases "t = eip7702")
    case True
    have "fits (concat [typed_base tx @ al,
         encode_unsigned (y_parity (tx_sc tx)), encode_unsigned (sig_r (tx_sc tx)), encode_unsigned (sig_s (tx_sc tx))])"
      using list_fits [OF f [unfolded e]] True t(1) by simp
    then show ?thesis
      using t(1) j(1) c f True
      by (simp add: e al decode_eip2718_payload_def decode_string_def has_priority_fee_def typed_fields_def typed_base_def
          rlp_decode fits_def cong: tryR_cong)
  next
    case False
    then show ?thesis
      using t(1) j c f list_fits [OF f [unfolded e]]
      by (cases t) (simp_all add: e typed_defs rlp_decode fits_def cong: tryR_cong)
  qed
qed (auto simp: typed_encoding_def)

section \<open>Transactions\<close>

text \<open>A transaction whose fields are those of its type.\<close>

definition well_formed_transaction :: "transaction \<Rightarrow> bool" where
  "well_formed_transaction tx \<longleftrightarrow>
     (if tx_type tx = legacy then legacy_fields tx \<and> y_parity (tx_sc tx) \<le> 1 else typed_fields tx)"

lemma encode_eip2718_base_cases:
  "encode_eip2718_base tx = tryR (authorization_field tx) (\<lambda>al.
     Inr (typed_base tx @ (if tx_type tx = eip4844 then blob_encoding tx [] else []) @ al))"
  by (simp add: encode_eip2718_base_def authorization_field_def typed_base_def blob_encoding_def Let_def)

lemma encode_typed:
  assumes "tx_type tx \<noteq> legacy" and "encode_transaction tx = Inr e" and "typed_fields tx"
  shows "\<exists>e'. e = type_byte (tx_type tx) # e' \<and> typed_encoding tx e'"
proof -
  obtain al where al: "authorization_field tx = Inr al"
    "e = type_byte (tx_type tx) # encode_list2 [typed_base tx @ (if tx_type tx = eip4844 then blob_encoding tx [] else []) @ al,
         encode_unsigned (y_parity (tx_sc tx)), encode_unsigned (sig_r (tx_sc tx)), encode_unsigned (sig_s (tx_sc tx))]"
    using assms(1,2) by (auto simp: encode_transaction_def tryR_eq_Inr encode_eip2718_base_cases)
  have "typed_encoding tx (tl e)"
    unfolding typed_encoding_def using assms(3) al by (intro conjI exI [of _ "[]"] exI [of _ al]) simp_all
  then show ?thesis
    using al(2) by auto
qed

lemma typed_encoding_canonical:
  assumes "typed_encoding tx e" and "tx_type tx \<noteq> eip4844" and "tx_type tx \<noteq> legacy"
  shows "encode_transaction tx = Inr (type_byte (tx_type tx) # e)"
proof -
  obtain al where "authorization_field tx = Inr al" "e = encode_list2 [typed_base tx @ al,
         encode_unsigned (y_parity (tx_sc tx)), encode_unsigned (sig_r (tx_sc tx)), encode_unsigned (sig_s (tx_sc tx))]"
    using assms(1,2) by (auto simp: typed_encoding_def)
  then show ?thesis
    using assms(2,3) by (simp add: encode_transaction_def encode_eip2718_base_cases)
qed

lemma legacy_first:
  assumes "legacy_encoding tx e" and "fits e"
  shows "\<exists>b e'. e = b # e' \<and> 0xc0 \<le> b"
proof -
  obtain args where "e = encode_list2 args"
    using assms(1) by (auto simp: legacy_encoding_def)
  then show ?thesis
    using list_first [of args] assms(2) by (auto simp: not_less)
qed

lemma from_v_signature:
  "from_v v (sc\<lparr>y_parity := 0, chain_id := None\<rparr>) = (from_v v empty_signature)\<lparr>sig_r := sig_r sc, sig_s := sig_s sc\<rparr>"
  by (cases sc) (simp add: from_v_def empty_signature_def Let_def)

lemma encode_legacy:
  assumes "tx_type tx = legacy" and "encode_transaction tx = Inr e" and "legacy_fields tx" "y_parity (tx_sc tx) \<le> 1"
  shows "legacy_encoding tx e"
proof -
  obtain v where v: "get_v (tx_sc tx) = Inr v"
    and e: "e = encode_list2 [encode_legacy_base tx, encode_unsigned v, encode_unsigned (sig_r (tx_sc tx)), encode_unsigned (sig_s (tx_sc tx))]"
    using assms(1,2) by (auto simp: encode_transaction_def tryR_eq_Inr)
  have "tx_sc tx = (from_v v empty_signature)\<lparr>sig_r := sig_r (tx_sc tx), sig_s := sig_s (tx_sc tx)\<rparr>"
    by (rule from_v_get_v [OF v assms(4), unfolded from_v_signature, symmetric])
  then show ?thesis
    using assms(3) e by (auto simp: legacy_encoding_def)
qed

lemma type_of_type_byte [simp]: "type_of_byte (type_byte t) = t"
  by (cases t) (simp_all add: type_of_byte_def)

lemma type_byte_less: "type_byte t < 5"
  by (cases t) simp_all

lemma type_byte_bounds [simp]: "\<not> 5 \<le> type_byte t" "\<not> 0xc0 \<le> type_byte t"
  using type_byte_less [of t] by (simp_all add: word_less_nat_alt word_le_nat_alt)

lemma type_byte_of_type: "b < 5 \<Longrightarrow> type_byte (type_of_byte b) = b"
proof -
  assume "b < 5"
  then have "unat b < 5"
    by (simp add: word_less_nat_alt)
  then have "unat b = 0 \<or> unat b = 1 \<or> unat b = 2 \<or> unat b = 3 \<or> unat b = 4"
    by linarith
  then have "b = 0 \<or> b = 1 \<or> b = 2 \<or> b = 3 \<or> b = 4"
    by (simp add: word_unat_eq_iff)
  then show ?thesis
    by (elim disjE) (simp_all add: type_of_byte_def)
qed

lemma eip2718_iff:
  assumes "fits enc"
  shows "decode_transaction_eip2718 enc = Inr (tx, rest) \<longleftrightarrow>
    (\<exists>e. typed_encoding tx e \<and> enc = type_byte (tx_type tx) # e @ rest)"
proof (cases enc)
  case (Cons b enc')
  have f: "fits enc'"
    using assms by (simp add: Cons fits_def)
  have "decode_transaction_eip2718 enc = Inr (tx, rest) \<longleftrightarrow>
      b < 5 \<and> (\<exists>e. tx_type tx = type_of_byte b \<and> typed_encoding tx e \<and> enc' = e @ rest)"
    by (auto simp: decode_transaction_eip2718_def Cons rlp_typed.decodes [OF f] not_le)
  also have "\<dots> \<longleftrightarrow> (\<exists>e. typed_encoding tx e \<and> enc = type_byte (tx_type tx) # e @ rest)"
    using type_byte_of_type [of b] type_byte_less [of "tx_type tx"] by (auto simp: Cons)
  finally show ?thesis .
qed (simp add: decode_transaction_eip2718_def)

text \<open>C28. A well-formed transaction of any type decodes from its encoding to itself, with the rest of the
  input: the signature, the chain id behind its recovery value, access lists, blob hashes and authorizations
  included.\<close>

theorem transaction_roundtrip:
  assumes "well_formed_transaction tx" and "encode_transaction tx = Inr e" and "fits (e @ rest)"
  shows "decode_transaction (e @ rest) = Inr (tx, rest)"
proof (cases "tx_type tx = legacy")
  case True
  then have "legacy_encoding tx e"
    using assms by (auto simp: well_formed_transaction_def encode_legacy)
  moreover have "e @ rest \<noteq> [] \<and> (e @ rest) ! 0 \<ge> 0xc0"
    using legacy_first [OF calculation fits_append(1) [OF assms(3)]] by auto
  ultimately show ?thesis
    using rlp_legacy.roundtrip(1) [OF _ assms(3)] by (simp add: decode_transaction_def)
next
  case False
  then obtain e' where e': "e = type_byte (tx_type tx) # e'" "typed_encoding tx e'"
    using assms encode_typed by (auto simp: well_formed_transaction_def)
  then have "decode_transaction_eip2718 (e @ rest) = Inr (tx, rest)"
    using eip2718_iff [OF assms(3)] by simp
  then show ?thesis
    using e'(1) by (simp add: decode_transaction_def)
qed

lemma legacy_canonical:
  assumes "legacy_encoding tx e" and "encode_transaction tx = Inr e'"
  shows "e = e'"
proof -
  obtain v where v: "tx_sc tx = (from_v v empty_signature)\<lparr>sig_r := sig_r (tx_sc tx), sig_s := sig_s (tx_sc tx)\<rparr>"
    "e = encode_list2 [encode_legacy_base tx, encode_unsigned v, encode_unsigned (sig_r (tx_sc tx)), encode_unsigned (sig_s (tx_sc tx))]"
    "tx_type tx = legacy"
    using assms(1) by (auto simp: legacy_encoding_def legacy_fields_def)
  obtain v' where v': "get_v (tx_sc tx) = Inr v'"
    "e' = encode_list2 [encode_legacy_base tx, encode_unsigned v', encode_unsigned (sig_r (tx_sc tx)), encode_unsigned (sig_s (tx_sc tx))]"
    using assms(2) v(3) by (auto simp: encode_transaction_def tryR_eq_Inr)
  have "get_v (tx_sc tx) = get_v (from_v v empty_signature)"
    by (subst v(1)) (simp add: get_v_def split: option.split)
  then have "v' = v"
    using get_v_of_from_v [of v empty_signature v'] v'(1) by (simp add: empty_signature_def)
  then show ?thesis
    using v v' by simp
qed

text \<open>C29. Outside blob transactions and the envelope with type byte zero, the bytes a transaction is decoded
  from are the bytes it is encoded to: no second encoding of the same transaction, and so no second
  transaction hash, is accepted.\<close>

theorem transaction_canonical:
  assumes "fits enc" and "decode_transaction enc = Inr (tx, rest)" and "encode_transaction tx = Inr e"
    and "enc ! 0 \<noteq> 0" and "tx_type tx \<noteq> eip4844"
  shows "enc = e @ rest"
proof (cases "enc ! 0 \<ge> 0xc0")
  case True
  then obtain e' where "legacy_encoding tx e'" "enc = e' @ rest"
    using assms(1,2) by (auto simp: decode_transaction_def rlp_legacy.decodes split: if_splits)
  then show ?thesis
    using legacy_canonical assms(3) by simp
next
  case False
  then obtain e' where e': "typed_encoding tx e'" "enc = type_byte (tx_type tx) # e' @ rest"
    using assms(1,2) by (auto simp: decode_transaction_def eip2718_iff split: if_splits)
  then have "tx_type tx \<noteq> legacy"
    using assms(4) by auto
  then show ?thesis
    using typed_encoding_canonical [OF e'(1) assms(5)] assms(3) e'(2) by simp
qed

section \<open>Lists of transactions\<close>

text \<open>A typed transaction in a list is a string; the decoder ignores what follows the transaction in it.\<close>

definition listed_encoding :: "transaction \<Rightarrow> bytes \<Rightarrow> bool" where
  "listed_encoding tx e \<longleftrightarrow> legacy_encoding tx e \<or>
     (\<exists>e' junk. typed_encoding tx e' \<and> e = encode_string2 (type_byte (tx_type tx) # e' @ junk))"

interpretation rlp_listed: rlp_item listed_encoding decode_listed_transaction
proof
  fix enc tx rest
  assume ne: "enc \<noteq> []" and f: "fits enc"
  define b where "b = enc ! 0"
  have l: "0xc0 \<le> b" if "legacy_encoding tx e" "enc = e @ rest" for e
    using legacy_first [OF that(1) fits_append(1) [of e rest]] f that(2) by (auto simp: b_def)
  have s: "\<not> 0xc0 \<le> b" if "enc = encode_string2 s @ rest" for s
    using rlp_string.roundtrip(1) [OF refl, of s rest] f that by (auto simp: b_def parse_string_metadata_def split: if_splits)
  show "decode_listed_transaction enc = Inr (tx, rest) \<longleftrightarrow>
    (\<exists>e. listed_encoding tx e \<and> enc = e @ rest)"
  proof (cases "0xc0 \<le> b")
    case True
    then show ?thesis
      using s by (auto simp: decode_listed_transaction_def listed_encoding_def b_def [symmetric] rlp_legacy.decodes [OF f])
  next
    case False
    have fs: "fits s" if "enc = encode_string2 s @ r" for s r
      using f that by (simp add: fits_def encode_string2_def Let_def split: if_splits)
    have "decode_listed_transaction enc = Inr (tx, rest) \<longleftrightarrow>
        (\<exists>s r'. enc = encode_string2 s @ rest \<and> decode_transaction_eip2718 s = Inr (tx, r'))"
      using False by (simp add: decode_listed_transaction_def b_def [symmetric] tryR_eq_Inr rlp_string.decodes [OF f])
    also have "\<dots> \<longleftrightarrow> (\<exists>s r'. enc = encode_string2 s @ rest \<and> (\<exists>e. typed_encoding tx e \<and> s = type_byte (tx_type tx) # e @ r'))"
      by (intro ex_cong1 conj_cong refl eip2718_iff fs)
    finally show ?thesis
      using False l unfolding listed_encoding_def by blast
  qed
next
  fix tx e
  assume "listed_encoding tx e"
  then show "e \<noteq> []"
    unfolding listed_encoding_def using rlp_legacy.encodes_nonempty encode_string2_nonempty by metis
qed

interpretation rlp_transactions: rlp_codec
  "\<lambda>txs e. \<exists>es. list_all2 listed_encoding txs es \<and> e = encode_list2 [concat es]" decode_transaction_list
  unfolding decode_transaction_list_def [abs_def] by (rule rlp_listed.list_of_codec)

section \<open>What is signed\<close>

definition unsigned_part :: "transaction \<Rightarrow> transaction" where
  "unsigned_part tx = tx\<lparr>tx_sc := (tx_sc tx)\<lparr>sig_r := 0, sig_s := 0, y_parity := 0\<rparr>\<rparr>"

lemmas scalar_prefix_free =
  rlp_u8.prefix_free [OF refl refl] rlp_u64.prefix_free [OF refl refl] rlp_u256.prefix_free [OF refl refl]
  rlp_opt_address.prefix_free [OF refl refl] rlp_string.prefix_free [OF refl refl]
  rlp_access_list.prefix_free [OF refl refl]

lemma list_inject:
  assumes "encode_list2 args = encode_list2 args'" and "fits (encode_list2 args)"
  shows "concat args = concat args'"
  using assms list_decode(2) [of args] list_decode(2) [of args'] by simp

lemma unsigned_part_iff:
  "unsigned_part tx = unsigned_part tx' \<longleftrightarrow> chain_id (tx_sc tx) = chain_id (tx_sc tx') \<and> tx_nonce tx = tx_nonce tx' \<and>
     tx_max_fee_per_gas tx = tx_max_fee_per_gas tx' \<and> tx_gas_limit tx = tx_gas_limit tx' \<and> tx_value tx = tx_value tx' \<and>
     tx_to tx = tx_to tx' \<and> tx_type tx = tx_type tx' \<and> tx_data tx = tx_data tx' \<and> tx_access_list tx = tx_access_list tx' \<and>
     tx_max_priority_fee_per_gas tx = tx_max_priority_fee_per_gas tx' \<and> tx_max_fee_per_blob_gas tx = tx_max_fee_per_blob_gas tx' \<and>
     tx_blob_versioned_hashes tx = tx_blob_versioned_hashes tx' \<and> tx_authorization_list tx = tx_authorization_list tx'"
  by (cases tx; cases tx'; cases "tx_sc tx"; cases "tx_sc tx'") (auto simp: unsigned_part_def)

lemma legacy_base_inject:
  assumes "encode_legacy_base tx @ r = encode_legacy_base tx' @ r'" and "fits (encode_legacy_base tx @ r)"
  shows "tx_nonce tx = tx_nonce tx' \<and> tx_max_fee_per_gas tx = tx_max_fee_per_gas tx' \<and> tx_gas_limit tx = tx_gas_limit tx' \<and>
    tx_to tx = tx_to tx' \<and> tx_value tx = tx_value tx' \<and> tx_data tx = tx_data tx' \<and> r = r'"
  using assms(1) assms(2) [unfolded encode_legacy_base_def fits_def, simplified]
  by (simp add: encode_legacy_base_def scalar_prefix_free fits_def)

lemma typed_base_inject:
  assumes "typed_base tx @ r = typed_base tx' @ r'" and "fits (typed_base tx @ r)" and "tx_type tx = tx_type tx'"
    and "typed_fields tx" "typed_fields tx'"
  shows "chain_id (tx_sc tx) = chain_id (tx_sc tx') \<and> tx_nonce tx = tx_nonce tx' \<and>
    tx_max_priority_fee_per_gas tx = tx_max_priority_fee_per_gas tx' \<and> tx_max_fee_per_gas tx = tx_max_fee_per_gas tx' \<and>
    tx_gas_limit tx = tx_gas_limit tx' \<and> tx_to tx = tx_to tx' \<and> tx_value tx = tx_value tx' \<and> tx_data tx = tx_data tx' \<and>
    tx_access_list tx = tx_access_list tx' \<and> r = r'"
proof -
  obtain c c' where c: "chain_id (tx_sc tx) = Some c" "chain_id (tx_sc tx') = Some c'"
    using assms(4,5) by (auto simp: typed_fields_def)
  show ?thesis
  proof (cases "has_priority_fee (tx_type tx')")
    case True
    then show ?thesis
      using assms(1) assms(2) [unfolded typed_base_def fits_def, simplified] assms(3) c
      by (simp add: typed_base_def scalar_prefix_free fits_def)
  next
    case False
    then show ?thesis
      using assms(1) assms(2) [unfolded typed_base_def fits_def, simplified] assms(3-5) c
      by (simp add: typed_base_def scalar_prefix_free fits_def typed_fields_def)
  qed
qed

lemma signing_legacy:
  assumes "tx_type tx = legacy" "tx_type tx' = legacy" "legacy_fields tx" "legacy_fields tx'"
    and e: "encode_transaction_for_signing tx = Inr e" "encode_transaction_for_signing tx' = Inr e" and "fits e"
  shows "unsigned_part tx = unsigned_part tx'"
proof -
  define suffix where "suffix t = (case chain_id (tx_sc t) of None \<Rightarrow> [] | Some c \<Rightarrow>
    encode_unsigned c @ encode_unsigned (0 :: u32) @ encode_unsigned (0 :: u32))" for t :: transaction
  have "e = encode_list2 [encode_legacy_base tx @ suffix tx]" "e = encode_list2 [encode_legacy_base tx' @ suffix tx']"
    using e assms(1,2) encode_list2_concat [of "[_, _, _, _]"]
    by (auto simp: encode_transaction_for_signing_def suffix_def split: option.splits)
  then have eq: "encode_legacy_base tx @ suffix tx = encode_legacy_base tx' @ suffix tx'"
    "fits (encode_legacy_base tx @ suffix tx)"
    using list_inject [of "[encode_legacy_base tx @ suffix tx]"] list_fits [of "[encode_legacy_base tx @ suffix tx]" "[]"] assms(7)
    by (metis append_Nil2 concat.simps)+
  have "chain_id (tx_sc tx) = chain_id (tx_sc tx')"
  proof -
    have "suffix tx = suffix tx'" "fits (suffix tx)"
      using legacy_base_inject [OF eq] fits_append(2) [OF eq(2)] by simp_all
    then have "c = c'" if "chain_id (tx_sc tx) = Some c" "chain_id (tx_sc tx') = Some c'" for c c'
      using that rlp_u256.injective [OF refl, of c c'] by (auto simp: suffix_def dest: fits_append(1))
    moreover have "chain_id (tx_sc tx) = None \<longleftrightarrow> chain_id (tx_sc tx') = None"
      using \<open>suffix tx = suffix tx'\<close> by (auto simp: suffix_def encode_unsigned_def split: option.splits)
    ultimately show ?thesis
      by (cases "chain_id (tx_sc tx)"; cases "chain_id (tx_sc tx')") auto
  qed
  then show ?thesis
    using legacy_base_inject [OF eq] assms(1-4) by (simp add: unsigned_part_iff legacy_fields_def)
qed

lemma signing_typed:
  assumes "tx_type tx \<noteq> legacy" "tx_type tx' = tx_type tx" "typed_fields tx" "typed_fields tx'"
    and e: "encode_transaction_for_signing tx = Inr e" "encode_transaction_for_signing tx' = Inr e" and "fits e"
  shows "unsigned_part tx = unsigned_part tx'"
proof -
  let ?blob = "\<lambda>tx. if tx_type tx = eip4844 then blob_encoding tx [] else []"
  obtain al where al: "authorization_field tx = Inr al" "e = type_byte (tx_type tx) # encode_list2 [typed_base tx @ ?blob tx @ al]"
    using e(1) assms(1) by (auto simp: encode_transaction_for_signing_def tryR_eq_Inr encode_eip2718_base_cases)
  obtain al' where al': "authorization_field tx' = Inr al'" "e = type_byte (tx_type tx') # encode_list2 [typed_base tx' @ ?blob tx' @ al']"
    using e(2) assms(1,2) by (auto simp: encode_transaction_for_signing_def tryR_eq_Inr encode_eip2718_base_cases)
  have f: "fits (encode_list2 [typed_base tx @ ?blob tx @ al])"
    using assms(7) by (simp add: al(2) fits_def)
  have eq: "typed_base tx @ ?blob tx @ al = typed_base tx' @ ?blob tx' @ al'"
    using list_inject [OF _ f, of "[typed_base tx' @ ?blob tx' @ al']"] al(2) al'(2) assms(2) by simp
  have F: "fits (typed_base tx @ ?blob tx @ al)"
    using list_fits [of "[typed_base tx @ ?blob tx @ al]" "[]"] f by simp
  note base = typed_base_inject [OF eq F assms(2) [symmetric] assms(3,4)]
  have "tx_max_fee_per_blob_gas tx = tx_max_fee_per_blob_gas tx' \<and> tx_blob_versioned_hashes tx = tx_blob_versioned_hashes tx' \<and> al = al'"
  proof (cases "tx_type tx = eip4844")
    case True
    then have al: "al = []" "al' = []"
      using al(1) al'(1) assms(2) by (simp_all add: authorization_field_def)
    then have "blob_encoding tx [] = blob_encoding tx' []" "fits (blob_encoding tx [])"
      using base F True assms(2) by (simp_all add: fits_def)
    then have eq: "encode_unsigned (tx_max_fee_per_blob_gas tx) @ encode_list2 [concat (map encode_bytes32 (tx_blob_versioned_hashes tx))] =
        encode_unsigned (tx_max_fee_per_blob_gas tx') @ encode_list2 [concat (map encode_bytes32 (tx_blob_versioned_hashes tx'))]"
      and f: "fits (encode_unsigned (tx_max_fee_per_blob_gas tx) @ encode_list2 [concat (map encode_bytes32 (tx_blob_versioned_hashes tx))])"
      by (simp_all add: blob_encoding_def)
    show ?thesis
      using al rlp_u256.prefix_free [OF refl refl f, THEN iffD1, OF eq] rlp_keys.injective [OF refl _ fits_append(2) [OF f]] by blast
  next
    case False
    then show ?thesis
      using base assms(2-4) by (simp add: typed_fields_def)
  qed
  moreover have "tx_authorization_list tx = tx_authorization_list tx'"
  proof (cases "tx_type tx = eip7702")
    case True
    then show ?thesis
      using calculation al(1) al'(1) assms(2) F rlp_authorizations.injective [of _ al]
      by (simp add: authorization_field_def fits_def)
  next
    case False
    then show ?thesis
      using assms(2-4) by (simp add: typed_fields_def)
  qed
  ultimately show ?thesis
    using base assms(2) by (simp add: unsigned_part_iff)
qed

text \<open>C30. A signature binds the whole transaction: two well-formed transactions with the same signing payload
  have the same type and agree in every field that is not part of the signature.\<close>

theorem signing_injective:
  assumes "well_formed_transaction tx" and "well_formed_transaction tx'"
    and "encode_transaction_for_signing tx = Inr e" and "encode_transaction_for_signing tx' = Inr e" and "fits e"
  shows "unsigned_part tx = unsigned_part tx'"
proof -
  have first: "0xc0 \<le> e ! 0" if t: "encode_transaction_for_signing t = Inr e" "tx_type t = legacy" for t
  proof -
    obtain args where "e = encode_list2 args"
      using t by (auto simp: encode_transaction_for_signing_def split: option.splits)
    then show ?thesis
      using list_first [of args] assms(5) by (auto simp: not_less)
  qed
  have typed: "e ! 0 = type_byte (tx_type t)" if "encode_transaction_for_signing t = Inr e" "tx_type t \<noteq> legacy" for t
    using that by (auto simp: encode_transaction_for_signing_def tryR_eq_Inr)
  have "tx_type t = legacy \<longleftrightarrow> 0xc0 \<le> e ! 0" if "encode_transaction_for_signing t = Inr e" for t
    using first [OF that] typed [OF that] by (cases "tx_type t = legacy") auto
  then have l: "tx_type tx' = legacy \<longleftrightarrow> tx_type tx = legacy"
    using assms(3,4) by simp
  show ?thesis
  proof (cases "tx_type tx = legacy")
    case True
    then show ?thesis
      using signing_legacy [of tx tx' e] assms l by (simp add: well_formed_transaction_def)
  next
    case False
    have "type_byte (tx_type tx') = type_byte (tx_type tx)"
      using typed [OF assms(3)] typed [OF assms(4)] False l by simp
    then have "tx_type tx' = tx_type tx"
      using type_of_type_byte [of "tx_type tx'"] by simp
    then show ?thesis
      using signing_typed [of tx tx' e] assms False by (simp add: well_formed_transaction_def)
  qed
qed

section \<open>Malformed lists of transactions\<close>

lemma empty_string_aborts:
  assumes "fits (0x80 # junk)"
  shows "decode_listed_transaction (0x80 # junk) = Inl Aborted"
proof -
  have "parse_string_metadata (0x80 # junk) = Inr ([], junk)"
    unfolding rlp_string.decodes [OF assms] by (simp add: encode_string2_def)
  then show ?thesis
    by (simp add: decode_listed_transaction_def decode_transaction_eip2718_def try_simps)
qed

lemma loop_reaches_empty_string:
  assumes "list_all2 listed_encoding txs es" and "fits (concat es @ 0x80 # junk)"
  shows "decode_loop (\<lambda>p. p \<noteq> []) decode_listed_transaction (concat es @ 0x80 # junk) = Inl Aborted"
  using assms
proof (induction rule: list_all2_induct)
  case Nil
  then show ?case
    using empty_string_aborts by (subst rlp_listed.decode_loop_step) (simp_all add: try_simps)
next
  case (Cons tx txs e es)
  then have "decode_listed_transaction (e @ concat es @ 0x80 # junk) = Inr (tx, concat es @ 0x80 # junk)"
    using rlp_listed.roundtrip(1) by simp
  then show ?case
    using Cons fits_append(2) [of e "concat es @ 0x80 # junk"]
    by (subst rlp_listed.decode_loop_step) (simp_all add: try_simps)
qed

text \<open>C35. The decoder of transaction lists fails an assertion, and does not return an error, when an element is
  the empty string and the transactions before it are valid.\<close>

theorem empty_transaction_aborts:
  assumes "list_all2 listed_encoding txs es" and "fits (encode_list2 [concat es @ 0x80 # junk] @ rest)"
  shows "decode_transaction_list (encode_list2 [concat es @ 0x80 # junk] @ rest) = Inl Aborted"
  using rlp_list.roundtrip(1) [OF refl assms(2)] loop_reaches_empty_string [OF assms(1), of junk]
    list_fits [OF assms(2)]
  by (simp add: decode_transaction_list_def try_simps)

text \<open>C36. A block may carry any bytes after a typed transaction inside the string that holds it: the decoder of
  transaction lists ignores them, so that different bytes decode to the same transactions.\<close>

theorem bytes_after_transaction_ignored:
  assumes "well_formed_transaction tx" and "tx_type tx \<noteq> legacy" and "encode_transaction tx = Inr e"
    and "fits (encode_list2 [encode_string2 (e @ junk)] @ rest)"
  shows "decode_transaction_list (encode_list2 [encode_string2 (e @ junk)] @ rest) = Inr ([tx], rest)"
proof -
  obtain e' where "e = type_byte (tx_type tx) # e'" "typed_encoding tx e'"
    using encode_typed [OF assms(2,3)] assms(1,2) by (auto simp: well_formed_transaction_def)
  then have "list_all2 listed_encoding [tx] [encode_string2 (e @ junk)]"
    by (auto simp: listed_encoding_def)
  then have "\<exists>es. list_all2 listed_encoding [tx] es \<and> encode_list2 [encode_string2 (e @ junk)] = encode_list2 [concat es]"
    by (intro exI [of _ "[encode_string2 (e @ junk)]"]) simp
  then show ?thesis
    by (rule rlp_transactions.roundtrip(1) [OF _ assms(4)])
qed

end
