(* ===== verification/BlockRlp.thy ===== *)
theory BlockRlp
  imports TransactionRlp
begin

text \<open>
  The encoding of block headers and blocks, \<open>block_rlp.cpp\<close>. The optional fields of a header were added
  by successive forks; the decoder reads one only when all earlier ones are present.

  The results: a header whose optional fields follow that order is read back from its encoding and the
  decoder accepts nothing else; a well-formed block is read back from its encoding.
\<close>

section \<open>Encoding\<close>

definition encode_optional :: "('a \<Rightarrow> bytes) \<Rightarrow> 'a option \<Rightarrow> bytes" where
  "encode_optional enc x = (case x of None \<Rightarrow> [] | Some y \<Rightarrow> enc y)"

definition encode_block_header :: "BlockHeader \<Rightarrow> bytes" where
  "encode_block_header h =
     encode_list2 [
       encode_bytes32 (parent_hash h) @
       encode_bytes32 (ommers_hash h) @
       encode_address (Some (beneficiary h)) @
       encode_bytes32 (state_root h) @
       encode_bytes32 (transactions_root h) @
       encode_bytes32 (receipts_root h) @
       encode_bloom (logs_bloom h) @
       encode_unsigned (difficulty h) @
       encode_unsigned (hd_number h) @
       encode_unsigned (hd_gas_limit h) @
       encode_unsigned (hd_gas_used h) @
       encode_unsigned (hd_timestamp h) @
       encode_string2 (extra_data h) @
       encode_bytes32 (prev_randao h) @
       encode_string2 (hd_nonce h) @
       encode_optional encode_unsigned (base_fee_per_gas h) @
       encode_optional encode_bytes32 (withdrawals_root h) @
       encode_optional encode_unsigned (blob_gas_used h) @
       encode_optional encode_unsigned (excess_blob_gas h) @
       encode_optional encode_bytes32 (parent_beacon_block_root h) @
       encode_optional encode_bytes32 (requests_hash h)]"

definition encode_ommers :: "BlockHeader list \<Rightarrow> bytes" where
  "encode_ommers ommers = encode_list2 [concat (map encode_block_header ommers)]"

definition encode_listed_transaction :: "transaction \<Rightarrow> bytes result" where
  "encode_listed_transaction tx =
     (if tx_type tx = legacy then encode_transaction tx
      else tryR (encode_transaction tx) (\<lambda>e. Inr (encode_string2 e)))"

definition encode_block :: "Block \<Rightarrow> bytes result" where
  "encode_block b =
     tryR (collect encode_listed_transaction (bl_transactions b)) (\<lambda>es.
       Inr (encode_list2 [
         encode_block_header (bl_header b) @
         encode_list2 [concat es] @
         encode_ommers (bl_ommers b) @
         encode_optional (\<lambda>ws. encode_list2 [concat (map encode_withdrawal ws)]) (bl_withdrawals b)]))"

section \<open>Decoding\<close>

text \<open>The nested optional fields of a header, from the inside.\<close>

definition decode_requests_hash :: "bytes32 option decoder" where
  "decode_requests_hash payload =
     (if length payload > 0 then tryR (decode_bytes32 payload) (\<lambda>(r, payload). Inr (Some r, payload))
      else Inr (None, payload))"

definition decode_blob_gas :: "(u64 option \<times> u64 option \<times> bytes32 option \<times> bytes32 option) decoder" where
  "decode_blob_gas payload =
     (if length payload > 0 then
        tryR (decode_unsigned payload) (\<lambda>(used, payload).
        tryR (decode_unsigned payload) (\<lambda>(excess, payload).
        tryR (decode_bytes32 payload) (\<lambda>(beacon, payload).
        tryR (decode_requests_hash payload) (\<lambda>(requests, payload).
          Inr ((Some used, Some excess, Some beacon, requests), payload)))))
      else Inr ((None, None, None, None), payload))"

definition decode_withdrawals_root ::
  "(bytes32 option \<times> u64 option \<times> u64 option \<times> bytes32 option \<times> bytes32 option) decoder" where
  "decode_withdrawals_root payload =
     (if length payload > 0 then
        tryR (decode_bytes32 payload) (\<lambda>(root, payload).
        tryR (decode_blob_gas payload) (\<lambda>(blob, payload). Inr ((Some root, blob), payload)))
      else Inr ((None, None, None, None, None), payload))"

definition decode_optional_fields ::
  "(u256 option \<times> bytes32 option \<times> u64 option \<times> u64 option \<times> bytes32 option \<times> bytes32 option) decoder" where
  "decode_optional_fields payload =
     (if length payload > 0 then
        tryR (decode_unsigned payload) (\<lambda>(fee, payload).
        tryR (decode_withdrawals_root payload) (\<lambda>(fields, payload). Inr ((Some fee, fields), payload)))
      else Inr ((None, None, None, None, None, None), payload))"

definition EXTRA_DATA_MAX_LENGTH :: nat where
  "EXTRA_DATA_MAX_LENGTH = 32"

definition decode_block_header :: "BlockHeader decoder" where
  "decode_block_header enc =
     tryR (parse_list_metadata enc) (\<lambda>(payload, enc).
     tryR (decode_bytes32 payload) (\<lambda>(parent, payload).
     tryR (decode_bytes32 payload) (\<lambda>(ommers, payload).
     tryR (decode_address payload) (\<lambda>(author, payload).
     tryR (decode_bytes32 payload) (\<lambda>(state, payload).
     tryR (decode_bytes32 payload) (\<lambda>(transactions, payload).
     tryR (decode_bytes32 payload) (\<lambda>(receipts, payload).
     tryR (decode_bloom payload) (\<lambda>(bloom, payload).
     tryR (decode_unsigned payload) (\<lambda>(diff, payload).
     tryR (decode_unsigned payload) (\<lambda>(number, payload).
     tryR (decode_unsigned payload) (\<lambda>(limit, payload).
     tryR (decode_unsigned payload) (\<lambda>(used, payload).
     tryR (decode_unsigned payload) (\<lambda>(time, payload).
     tryR (decode_string payload) (\<lambda>(extra, payload).
       if length extra > EXTRA_DATA_MAX_LENGTH then Inl (DecodeE Decode_Overflow)
       else
     tryR (decode_bytes32 payload) (\<lambda>(randao, payload).
     tryR (decode_byte_string_fixed 8 payload) (\<lambda>(n, payload).
     tryR (decode_optional_fields payload) (\<lambda>((fee, withdrawals, blob, excess, beacon, requests), payload).
       if payload \<noteq> [] then Inl (DecodeE InputTooLong)
       else Inr (\<lparr>logs_bloom = bloom, parent_hash = parent, ommers_hash = ommers, state_root = state,
         transactions_root = transactions, receipts_root = receipts, prev_randao = randao, difficulty = diff,
         hd_number = number, hd_gas_limit = limit, hd_gas_used = used, hd_timestamp = time, hd_nonce = n,
         extra_data = extra, beneficiary = author, base_fee_per_gas = fee, withdrawals_root = withdrawals,
         blob_gas_used = blob, excess_blob_gas = excess, parent_beacon_block_root = beacon,
         requests_hash = requests\<rparr>, enc))))))))))))))))))"

definition decode_block_header_vector :: "BlockHeader list decoder" where
  "decode_block_header_vector enc =
     tryR (parse_list_metadata enc) (\<lambda>(payload, enc).
     tryR (decode_loop (\<lambda>p. p \<noteq> []) decode_block_header payload) (\<lambda>(ommers, payload).
       if payload \<noteq> [] then Inl (DecodeE InputTooLong) else Inr (ommers, enc)))"

definition decode_block :: "Block decoder" where
  "decode_block enc =
     tryR (parse_list_metadata enc) (\<lambda>(payload, enc).
     tryR (decode_block_header payload) (\<lambda>(h, payload).
     tryR (decode_transaction_list payload) (\<lambda>(txs, payload).
     tryR (decode_block_header_vector payload) (\<lambda>(ommers, payload).
     tryR (if length payload > 0
           then tryR (decode_withdrawal_list payload) (\<lambda>(ws, payload). Inr (Some ws, payload))
           else Inr (None, payload)) (\<lambda>(ws, payload).
       if payload \<noteq> [] then Inl (DecodeE InputTooLong)
       else Inr (\<lparr>bl_header = h, bl_transactions = txs, bl_ommers = ommers, bl_withdrawals = ws\<rparr>, enc))))))"

section \<open>Headers\<close>

definition fork_order :: "BlockHeader \<Rightarrow> bool" where
  "fork_order h \<longleftrightarrow>
     (withdrawals_root h \<noteq> None \<longrightarrow> base_fee_per_gas h \<noteq> None) \<and>
     (blob_gas_used h \<noteq> None \<longrightarrow> withdrawals_root h \<noteq> None) \<and>
     (excess_blob_gas h = None \<longleftrightarrow> blob_gas_used h = None) \<and>
     (parent_beacon_block_root h = None \<longleftrightarrow> blob_gas_used h = None) \<and>
     (requests_hash h \<noteq> None \<longrightarrow> blob_gas_used h \<noteq> None)"

definition well_formed_header :: "BlockHeader \<Rightarrow> bool" where
  "well_formed_header h \<longleftrightarrow> length (logs_bloom h) = 256 \<and> length (hd_nonce h) = 8 \<and> length (extra_data h) \<le> 32 \<and> fork_order h"

lemmas optional_defs = decode_requests_hash_def decode_blob_gas_def decode_withdrawals_root_def decode_optional_fields_def

lemma encode_nonempty [simp]:
  "encode_unsigned n \<noteq> []" "encode_bytes32 b \<noteq> []"
  by (simp_all add: encode_unsigned_def encode_bytes32_def)

definition encode_options :: "u256 option \<times> bytes32 option \<times> u64 option \<times> u64 option \<times> bytes32 option \<times> bytes32 option \<Rightarrow> bytes" where
  "encode_options = (\<lambda>(fee, withdrawals, blob, excess, beacon, requests).
     encode_optional encode_unsigned fee @
     encode_optional encode_bytes32 withdrawals @
     encode_optional encode_unsigned blob @
     encode_optional encode_unsigned excess @
     encode_optional encode_bytes32 beacon @
     encode_optional encode_bytes32 requests)"

definition options_in_order :: "u256 option \<times> bytes32 option \<times> u64 option \<times> u64 option \<times> bytes32 option \<times> bytes32 option \<Rightarrow> bool" where
  "options_in_order = (\<lambda>(fee, withdrawals, blob, excess, beacon, requests).
     (withdrawals \<noteq> None \<longrightarrow> fee \<noteq> None) \<and> (blob \<noteq> None \<longrightarrow> withdrawals \<noteq> None) \<and> (excess = None \<longleftrightarrow> blob = None) \<and>
     (beacon = None \<longleftrightarrow> blob = None) \<and> (requests \<noteq> None \<longrightarrow> blob \<noteq> None))"

lemma tryR_assoc: "tryR (tryR r f) g = tryR r (\<lambda>x. tryR (f x) g)"
  by (cases r) simp_all

lemma options_canonical:
  assumes "fits payload" and "decode_optional_fields payload = Inr (x, [])"
  shows "options_in_order x \<and> payload = encode_options x"
  using assms
  by (auto simp: optional_defs options_in_order_def encode_options_def encode_optional_def rlp_bind tryR_assoc cong: conj_cong tryR_cong split: if_splits)


lemma options_cases:
  assumes "options_in_order x"
  obtains "x = (None, None, None, None, None, None)" | f where "x = (Some f, None, None, None, None, None)"
    | f w where "x = (Some f, Some w, None, None, None, None)"
    | f w u e b r where "x = (Some f, Some w, Some u, Some e, Some b, r)"
  using assms by (cases x; cases "fst x"; cases "fst (snd x)") (auto simp: options_in_order_def)

lemma options_roundtrip:
  assumes "fits (encode_options x)" and "options_in_order x"
  shows "decode_optional_fields (encode_options x) = Inr (x, [])"
  using assms(2)
proof (cases rule: options_cases)
  case (4 f w u e b r)
  then show ?thesis
    using assms(1)
    by (cases r) (simp_all add: optional_defs encode_options_def encode_optional_def rlp_decode fits_def cong: tryR_cong)
qed (use assms(1) in \<open>simp_all add: optional_defs encode_options_def encode_optional_def rlp_decode fits_def cong: tryR_cong\<close>)

lemma encode_header_options:
  "encode_block_header h =
     encode_list2 [
       encode_bytes32 (parent_hash h) @
       encode_bytes32 (ommers_hash h) @
       encode_address (Some (beneficiary h)) @
       encode_bytes32 (state_root h) @
       encode_bytes32 (transactions_root h) @
       encode_bytes32 (receipts_root h) @
       encode_bloom (logs_bloom h) @
       encode_unsigned (difficulty h) @
       encode_unsigned (hd_number h) @
       encode_unsigned (hd_gas_limit h) @
       encode_unsigned (hd_gas_used h) @
       encode_unsigned (hd_timestamp h) @
       encode_string2 (extra_data h) @
       encode_bytes32 (prev_randao h) @
       encode_string2 (hd_nonce h) @
       encode_options (base_fee_per_gas h, withdrawals_root h, blob_gas_used h, excess_blob_gas h,
         parent_beacon_block_root h, requests_hash h)]"
  by (simp add: encode_block_header_def encode_options_def)

lemma options_bind:
  assumes "fits payload"
  shows "tryR (decode_optional_fields payload) (\<lambda>((fee, withdrawals, blob, excess, beacon, requests), payload).
      if payload \<noteq> [] then Inl e else f fee withdrawals blob excess beacon requests) = Inr r \<longleftrightarrow>
    (\<exists>fee withdrawals blob excess beacon requests. options_in_order (fee, withdrawals, blob, excess, beacon, requests) \<and>
      payload = encode_options (fee, withdrawals, blob, excess, beacon, requests) \<and>
      f fee withdrawals blob excess beacon requests = Inr r)"
  using options_canonical [OF assms] options_roundtrip assms by (fastforce simp: tryR_eq_Inr)

interpretation rlp_header: rlp_codec "\<lambda>h e. well_formed_header h \<and> e = encode_block_header h" decode_block_header
proof (rule rlp_codec_of; (elim conjE)?)
  fix enc h rest
  assume "fits enc" "decode_block_header enc = Inr (h, rest)"
  then show "\<exists>e. (well_formed_header h \<and> e = encode_block_header h) \<and> enc = e @ rest"
    by (auto simp: decode_block_header_def decode_string_def decode_bloom_def encode_bloom_def EXTRA_DATA_MAX_LENGTH_def
        well_formed_header_def fork_order_def options_in_order_def
        encode_header_options rlp_bind options_bind cong: conj_cong tryR_cong)
next
  fix h e rest
  assume h: "well_formed_header h" "e = encode_block_header h" and f: "fits (e @ rest)"
  let ?o = "(base_fee_per_gas h, withdrawals_root h, blob_gas_used h, excess_blob_gas h, parent_beacon_block_root h, requests_hash h)"
  note F = list_fits [OF f [unfolded h(2) encode_header_options], simplified]
  have o: "decode_optional_fields (encode_options ?o) = Inr (?o, [])"
    using F h(1) by (intro options_roundtrip) (simp_all add: fits_def well_formed_header_def fork_order_def options_in_order_def)
  show "decode_block_header (e @ rest) = Inr (h, rest)"
    using F f h o by (simp add: decode_block_header_def decode_string_def decode_bloom_def encode_bloom_def EXTRA_DATA_MAX_LENGTH_def
        well_formed_header_def encode_header_options rlp_decode fits_def cong: tryR_cong)
qed (simp add: encode_block_header_def)

interpretation rlp_ommers: rlp_codec "\<lambda>hs e. list_all well_formed_header hs \<and> e = encode_ommers hs" decode_block_header_vector
  using rlp_header.list_of_codec by (simp add: list_all2_image encode_ommers_def decode_block_header_vector_def [abs_def])

section \<open>Blocks\<close>

definition well_formed_block :: "Block \<Rightarrow> bool" where
  "well_formed_block b \<longleftrightarrow> well_formed_header (bl_header b) \<and> list_all well_formed_transaction (bl_transactions b) \<and>
     list_all well_formed_header (bl_ommers b)"

definition block_encoding :: "Block \<Rightarrow> bytes \<Rightarrow> bool" where
  "block_encoding b e \<longleftrightarrow> well_formed_header (bl_header b) \<and> list_all well_formed_header (bl_ommers b) \<and>
     (\<exists>es. list_all2 listed_encoding (bl_transactions b) es \<and>
       e = encode_list2 [
         encode_block_header (bl_header b) @
         encode_list2 [concat es] @
         encode_ommers (bl_ommers b) @
         encode_optional (\<lambda>ws. encode_list2 [concat (map encode_withdrawal ws)]) (bl_withdrawals b)])"

lemma encode_listed:
  assumes "encode_listed_transaction tx = Inr e" and "well_formed_transaction tx"
  shows "listed_encoding tx e"
proof (cases "tx_type tx = legacy")
  case True
  then show ?thesis
    using assms encode_legacy by (auto simp: encode_listed_transaction_def well_formed_transaction_def listed_encoding_def)
next
  case False
  then obtain e0 where "encode_transaction tx = Inr e0" "e = encode_string2 e0"
    using assms(1) by (auto simp: encode_listed_transaction_def tryR_eq_Inr)
  moreover obtain e' where "e0 = type_byte (tx_type tx) # e'" "typed_encoding tx e'"
    using encode_typed [OF False calculation(1)] assms(2) False by (auto simp: well_formed_transaction_def)
  ultimately show ?thesis
    unfolding listed_encoding_def by (metis append_Nil2)
qed

lemma encode_block_encoding:
  assumes "encode_block b = Inr e" and "well_formed_block b"
  shows "block_encoding b e"
proof -
  obtain es where es: "collect encode_listed_transaction (bl_transactions b) = Inr es"
    and e: "e = encode_list2 [encode_block_header (bl_header b) @ encode_list2 [concat es] @ encode_ommers (bl_ommers b) @
         encode_optional (\<lambda>ws. encode_list2 [concat (map encode_withdrawal ws)]) (bl_withdrawals b)]"
    using assms(1) by (auto simp: encode_block_def tryR_eq_Inr)
  have "list_all2 listed_encoding (bl_transactions b) es"
    using es assms(2) encode_listed
    by (auto simp: collect_iff well_formed_block_def list_all2_conv_all_nth list_all_length)
  then show ?thesis
    using assms(2) e by (auto simp: block_encoding_def well_formed_block_def)
qed

lemmas block_binds = rlp_header.bind_iff rlp_ommers.bind_iff rlp_transactions.bind_iff rlp_withdrawals.bind_iff

interpretation rlp_block: rlp_codec block_encoding decode_block
proof (rule rlp_codec_of)
  fix enc b rest
  assume "fits enc" "decode_block enc = Inr (b, rest)"
  then show "\<exists>e. block_encoding b e \<and> enc = e @ rest"
    by (auto simp: decode_block_def block_encoding_def encode_optional_def rlp_bind block_binds tryR_assoc
        cong: conj_cong tryR_cong split: if_splits)
next
  fix b e rest
  assume b: "block_encoding b e" and f: "fits (e @ rest)"
  obtain es where es: "list_all2 listed_encoding (bl_transactions b) es" and e: "e = encode_list2 [
         encode_block_header (bl_header b) @
         encode_list2 [concat es] @
         encode_ommers (bl_ommers b) @
         encode_optional (\<lambda>ws. encode_list2 [concat (map encode_withdrawal ws)]) (bl_withdrawals b)]"
    and w: "well_formed_header (bl_header b)" "list_all well_formed_header (bl_ommers b)"
    using b by (auto simp: block_encoding_def)
  have txs: "decode_transaction_list (encode_list2 [concat es] @ r) = Inr (bl_transactions b, r)"
    if "fits (encode_list2 [concat es] @ r)" for r
    using rlp_transactions.roundtrip(1) [OF _ that] es by blast
  show "decode_block (e @ rest) = Inr (b, rest)"
    using f list_fits [OF f [unfolded e]] w
    by (cases "bl_withdrawals b") (simp_all add: e decode_block_def encode_optional_def txs rlp_decode
        rlp_header.roundtrip [OF conjI [OF _ refl]] rlp_ommers.roundtrip [OF conjI [OF _ refl]] fits_def cong: tryR_cong)
qed (auto simp: block_encoding_def)

text \<open>C31. A well-formed block decodes from its encoding to itself: the header with the optional fields of the
  later forks, the transactions of all types, the ommers and the withdrawals.\<close>

theorem block_roundtrip:
  assumes "well_formed_block b" and "encode_block b = Inr e" and "fits (e @ rest)"
  shows "decode_block (e @ rest) = Inr (b, rest)"
  using rlp_block.roundtrip(1) encode_block_encoding assms by blast

section \<open>Termination\<close>

definition loop_equation :: "(bytes \<Rightarrow> bool) \<Rightarrow> 'a decoder \<Rightarrow> bytes \<Rightarrow> bool" where
  "loop_equation cont decode payload \<longleftrightarrow> decode_loop cont decode payload =
    (if \<not> cont payload then Inr ([], payload)
     else tryR (decode payload) (\<lambda>(x, rest).
       tryR (decode_loop cont decode rest) (\<lambda>(xs, rest). Inr (x # xs, rest))))"


end
