(* ===== verification/EncodingWitnesses.thy ===== *)
theory EncodingWitnesses
  imports BlockRlp
begin

text \<open>
  The properties of the encodings, applied to a concrete transaction, receipt and block, and the inputs on
  which the decoders are more liberal than the encoders or stop with a failed assertion.
\<close>

section \<open>Sizes of encodings\<close>

lemma to_big_compact_length: "length (to_big_compact (n :: 'a::len word)) \<le> LENGTH('a) div 8"
  using length_dropWhile_le [of "\<lambda>b. b = 0" "word_bytes n"] by (simp add: to_big_compact_def zeroless_view_def)

lemma encode_string2_length: "length (encode_string2 s) \<le> length s + 5"
  using to_big_compact_length [of "word_of_nat (length s) :: u32"] by (simp add: encode_string2_def Let_def)

lemma encode_list2_length: "length (encode_list2 args) \<le> length (concat args) + 9"
  using to_big_compact_length [of "word_of_nat (sum_list (map length args)) :: u64"]
  by (simp add: encode_list2_def Let_def)

lemma field_lengths:
  "length (encode_unsigned (n :: 'a::len word)) \<le> LENGTH('a) div 8 + 5"
  "length (encode_address a) \<le> 25"
  "length (encode_bytes32 b) \<le> 37"
  using encode_string2_length [of "to_big_compact n"] to_big_compact_length [of n]
    encode_string2_length [of "word_bytes (the a)"] encode_string2_length [of "word_bytes b"]
  by (auto simp: encode_unsigned_def encode_address_def encode_bytes32_def split: option.split)

section \<open>A transaction\<close>

definition transfer :: transaction where
  "transfer = empty_transaction
     \<lparr>tx_type := eip1559, tx_nonce := 1, tx_to := Some 0x1000, tx_data := [1, 2, 3],
      tx_sc := \<lparr>sig_r = 5, sig_s = 7, chain_id = Some 143, y_parity = 1\<rparr>\<rparr>"

definition transfer_bytes :: bytes where
  "transfer_bytes = type_byte eip1559 # encode_list2
     [typed_base transfer, encode_unsigned (1 :: u8), encode_unsigned (5 :: u256), encode_unsigned (7 :: u256)]"

lemma transfer_encodes: "encode_transaction transfer = Inr transfer_bytes"
  by (simp add: encode_transaction_def transfer_bytes_def transfer_def empty_transaction_def encode_eip2718_base_cases
      authorization_field_def try_simps)

lemma typed_base_small: "length (typed_base transfer) \<le> 300"
  using field_lengths(1) [of "143 :: u256"] field_lengths(1) [of "1 :: u64"] field_lengths(1) [of "0 :: u256"]
    field_lengths(1) [of "0 :: u64"] field_lengths(2) [of "Some 0x1000"] encode_string2_length [of "[1, 2, 3]"]
    encode_list2_length [of "[[]]"]
  by (simp add: typed_base_def transfer_def empty_transaction_def has_priority_fee_def encode_access_list_def)

lemma transfer_small: "length transfer_bytes \<le> 500"
  using typed_base_small field_lengths(1) [of "1 :: u8"] field_lengths(1) [of "5 :: u256"] field_lengths(1) [of "7 :: u256"]
    encode_list2_length [of "[typed_base transfer, encode_unsigned (1 :: u8), encode_unsigned (5 :: u256), encode_unsigned (7 :: u256)]"]
  by (simp add: transfer_bytes_def)

lemma transfer_fits: "fits transfer_bytes"
  using transfer_small by (simp add: fits_def)

lemma transfer_well_formed: "well_formed_transaction transfer"
  by code_simp

theorem transaction_roundtrip_witness:
  "encode_transaction transfer = Inr transfer_bytes \<and> decode_transaction transfer_bytes = Inr (transfer, [])"
  using transaction_roundtrip [OF transfer_well_formed transfer_encodes, of "[]"] transfer_encodes transfer_fits by simp

theorem transaction_canonical_witness:
  "decode_transaction ([2, 228, 129, 143, 1, 128, 128, 128, 148] @ replicate 18 0 @ [16, 0, 128, 131, 1, 2, 3, 192, 1, 5, 7]) =
     Inr (transfer, []) \<and>
   [2, 228, 129, 143, 1, 128, 128, 128, 148] @ replicate 18 0 @ [16, 0, 128, 131, 1, 2, 3, 192, 1, 5, 7] = transfer_bytes"
  (is "?dec \<and> ?enc = _")
proof
  show dec: ?dec
    by code_simp
  have "fits ?enc" "?enc ! 0 \<noteq> 0" "tx_type transfer \<noteq> eip4844"
    by (simp_all add: fits_def transfer_def empty_transaction_def)
  then show "?enc = transfer_bytes"
    using transaction_canonical [OF _ dec transfer_encodes] by simp
qed

definition forged_transfer :: transaction where
  "forged_transfer = transfer\<lparr>tx_sc := \<lparr>sig_r = 1, sig_s = 2, chain_id = Some 143, y_parity = 0\<rparr>\<rparr>"

theorem signing_injective_witness:
  "encode_transaction_for_signing transfer = encode_transaction_for_signing forged_transfer \<and>
     unsigned_part transfer = unsigned_part forged_transfer"
proof -
  have e: "encode_transaction_for_signing transfer = Inr (type_byte eip1559 # encode_list2 [typed_base transfer])"
    "encode_transaction_for_signing forged_transfer = Inr (type_byte eip1559 # encode_list2 [typed_base transfer])"
    by (simp_all add: encode_transaction_for_signing_def forged_transfer_def transfer_def empty_transaction_def
        encode_eip2718_base_cases authorization_field_def typed_base_def try_simps)
  have "fits (type_byte eip1559 # encode_list2 [typed_base transfer])"
    using typed_base_small encode_list2_length [of "[typed_base transfer]"] by (simp add: fits_def)
  moreover have "well_formed_transaction forged_transfer"
    by code_simp
  ultimately show ?thesis
    using signing_injective [OF transfer_well_formed _ e] e by simp
qed

section \<open>Strings, receipts and blocks\<close>

theorem rlp_canonical_witness:
  "decode_string [0x83, 1, 2, 3, 9] = Inr ([1, 2, 3], [9]) \<and> (\<forall>s. encode_string2 s \<noteq> [0x81, 5])"
proof -
  have "[0x83, 1, 2, 3, 9] = encode_string2 [1, 2, 3] @ [9]"
    by (simp add: encode_string2_def Let_def)
  moreover have "fits [0x83, 1, 2, 3, 9]"
    by (simp add: fits_def)
  ultimately have first: "decode_string [0x83, 1, 2, 3, 9] = Inr ([1, 2, 3], [9])"
    by (simp only: rlp_canonical [THEN conjunct1])
  have "fits [0x81, 5]"
    by (simp add: fits_def)
  moreover have "decode_string [0x81, 5] = Inl (DecodeE TypeUnexpected)"
    by code_simp
  ultimately have "[0x81, 5] \<noteq> encode_string2 s" for s
    using rlp_canonical [of "[0x81, 5]" s "[]"] by (metis Inl_Inr_False append_Nil2)
  then show ?thesis
    using first by metis
qed

definition transfer_receipt :: Receipt where
  "transfer_receipt = \<lparr>rc_bloom = replicate 256 0, rc_status = 1, rc_gas_used = 21000, rc_type = eip1559, rc_logs = []\<rparr>"

theorem receipt_canonical_witness:
  "decode_receipt (encode_receipt transfer_receipt) = Inr (transfer_receipt, [])"
proof -
  have "fits (encode_receipt transfer_receipt)"
    using field_lengths(1) [of "1 :: u64"] field_lengths(1) [of "21000 :: u64"] encode_string2_length [of "replicate 256 0"]
      encode_list2_length [of "[[]]"]
      encode_list2_length [of "[encode_unsigned (1 :: u64), encode_unsigned (21000 :: u64), encode_string2 (replicate 256 0), encode_list2 [[]]]"]
    by (simp add: fits_def encode_receipt_def transfer_receipt_def encode_bloom_def Let_def)
  then show ?thesis
    using receipt_canonical [of "encode_receipt transfer_receipt" transfer_receipt "[]"] by (simp add: transfer_receipt_def)
qed

definition genesis_header :: BlockHeader where
  "genesis_header = \<lparr>logs_bloom = replicate 256 0, parent_hash = 1, ommers_hash = 2, state_root = 4,
     transactions_root = 5, receipts_root = 6, prev_randao = 11, difficulty = 0, hd_number = 7, hd_gas_limit = 8,
     hd_gas_used = 9, hd_timestamp = 10, hd_nonce = replicate 8 0, extra_data = [], beneficiary = 3,
     base_fee_per_gas = Some 100, withdrawals_root = None, blob_gas_used = None, excess_blob_gas = None,
     parent_beacon_block_root = None, requests_hash = None\<rparr>"

definition transfer_block :: Block where
  "transfer_block = \<lparr>bl_header = genesis_header, bl_transactions = [transfer], bl_ommers = [], bl_withdrawals = None\<rparr>"

lemma header_small: "length (encode_block_header genesis_header) \<le> 1000"
  unfolding encode_block_header_def
  by (rule order_trans [OF encode_list2_length])
    (use field_lengths(1) [of "0 :: u256"] field_lengths(1) [of "100 :: u256"] field_lengths(1) [of "7 :: u64"]
       field_lengths(1) [of "8 :: u64"] field_lengths(1) [of "9 :: u64"] field_lengths(1) [of "10 :: u64"] field_lengths(2) [of "Some 3"]
       encode_string2_length [of "replicate 256 0"] encode_string2_length [of "replicate 8 0"] encode_string2_length [of "[]"]
     in \<open>simp add: genesis_header_def encode_optional_def encode_bloom_def\<close>)

theorem block_roundtrip_witness:
  "\<exists>e. encode_block transfer_block = Inr e \<and> decode_block e = Inr (transfer_block, [])"
proof -
  define e where "e = encode_list2 [encode_block_header genesis_header @ encode_list2 [encode_string2 transfer_bytes] @ encode_list2 [[]]]"
  have e: "encode_block transfer_block = Inr e"
    using transfer_encodes
    by (simp add: encode_block_def transfer_block_def encode_listed_transaction_def try_simps e_def encode_ommers_def
        encode_optional_def) (simp add: transfer_def empty_transaction_def)
  have "length e \<le> 2000"
    unfolding e_def using header_small transfer_small encode_string2_length [of transfer_bytes]
      encode_list2_length [of "[encode_string2 transfer_bytes]"] encode_list2_length [of "[[]]"]
    by (intro order_trans [OF encode_list2_length]) simp
  moreover have "well_formed_block transfer_block"
    using transfer_well_formed
    by (simp add: well_formed_block_def transfer_block_def well_formed_header_def genesis_header_def fork_order_def)
  ultimately show ?thesis
    using block_roundtrip [OF _ e, of "[]"] e by (simp add: fits_def)
qed


section \<open>Liberal and aborting inputs\<close>

theorem empty_transaction_aborts_witness: "decode_transaction_list [0xc1, 0x80] = Inl Aborted"
  using empty_transaction_aborts [of "[]" "[]" "[]" "[]"] by (simp add: fits_def encode_list2_def Let_def)

theorem bytes_after_transaction_ignored_witness:
  "decode_transaction_list (encode_list2 [encode_string2 (transfer_bytes @ [99])]) = Inr ([transfer], [])"
proof -
  have "fits (encode_list2 [encode_string2 (transfer_bytes @ [99])])"
    using transfer_small encode_string2_length [of "transfer_bytes @ [99]"]
      encode_list2_length [of "[encode_string2 (transfer_bytes @ [99])]"] by (simp add: fits_def)
  moreover have "tx_type transfer \<noteq> legacy"
    by (simp add: transfer_def)
  ultimately show ?thesis
    using bytes_after_transaction_ignored [OF transfer_well_formed _ transfer_encodes, of "[99]" "[]"] by simp
qed

definition blob_transfer :: transaction where
  "blob_transfer = transfer\<lparr>tx_type := eip4844\<rparr>"

text \<open>Up to 31 bytes after the blob hashes are ignored: two inputs decode to the same transaction.\<close>

lemma blob_hashes_not_canonical:
  "decode_transaction ([3, 230, 129, 143, 1, 128, 128, 128, 148] @ replicate 18 0 @ [16, 0, 128, 131, 1, 2, 3, 192, 128, 192, 1, 5, 7]) =
     Inr (blob_transfer, [])"
  "decode_transaction ([3, 231, 129, 143, 1, 128, 128, 128, 148] @ replicate 18 0 @ [16, 0, 128, 131, 1, 2, 3, 192, 128, 193, 0, 1, 5, 7]) =
     Inr (blob_transfer, [])"
  by code_simp+

text \<open>The type byte zero selects a legacy transaction in the layout of the typed ones.\<close>

lemma type_zero_accepted:
  "decode_transaction ([0, 227, 129, 143, 1, 128, 128, 148] @ replicate 18 0 @ [16, 0, 128, 131, 1, 2, 3, 192, 1, 5, 7]) =
     Inr (transfer\<lparr>tx_type := legacy\<rparr>, [])"
  by code_simp

end
